(* ===== verification/Rtrv_Prelude.thy ===== *)
theory Rtrv_Prelude
  imports Main "HOL-Library.Word"
begin

text \<open>
  Shared vocabulary of the development: the C integer types, the C string and path types, bounded
  memory accesses (an access outside an array is undefined behaviour and is the value \<open>None\<close>),
  \<open>size_t\<close> subtraction, the three outcomes of a C function, and the list and word facts that
  several components use.
\<close>

unbundle bit_operations_syntax

type_synonym byte = "8 word"
type_synonym u16 = "16 word"
type_synonym u32 = "32 word"
type_synonym u64 = "64 word"

type_synonym bytes = "byte list"

named_theorems wp_simps "weakest preconditions of the command combinators"
named_theorems mem_simps "bounded memory accesses"

section \<open>Bounded memory\<close>

text \<open>
  A C array is a list of its cells. \<open>store\<close> writes one cell, \<open>mem_put\<close> is \<open>memcpy\<close> into the
  array at an offset, \<open>mem_get\<close> reads a run of cells; all three are undefined behaviour
  (\<open>None\<close>) as soon as one cell lies outside the array.
\<close>

definition store :: "bytes \<Rightarrow> nat \<Rightarrow> byte \<Rightarrow> bytes option" where
  "store buf i b = (if i < length buf then Some (buf[i := b]) else None)"

definition mem_put :: "bytes \<Rightarrow> nat \<Rightarrow> bytes \<Rightarrow> bytes option" where
  "mem_put buf off bs =
     (if off + length bs \<le> length buf
      then Some (take off buf @ bs @ drop (off + length bs) buf) else None)"

definition mem_get :: "bytes \<Rightarrow> nat \<Rightarrow> nat \<Rightarrow> bytes option" where
  "mem_get buf off n = (if off + n \<le> length buf then Some (take n (drop off buf)) else None)"

text \<open>\<open>size_t\<close> is 64 bits wide here: a subtraction that would be negative wraps.\<close>

definition size_sub :: "nat \<Rightarrow> nat \<Rightarrow> nat" where
  "size_sub a b = (if b \<le> a then a - b else a + 2 ^ 64 - b)"

lemma mem_put_length: "mem_put buf off bs = Some buf' \<Longrightarrow> length buf' = length buf"
  by (auto simp: mem_put_def split: if_splits)

lemma mem_put_Some [mem_simps]:
  "off + length bs \<le> length buf \<Longrightarrow>
   mem_put buf off bs = Some (take off buf @ bs @ drop (off + length bs) buf)"
  by (simp add: mem_put_def)

lemma mem_get_Some [mem_simps]:
  "off + n \<le> length buf \<Longrightarrow> mem_get buf off n = Some (take n (drop off buf))"
  by (simp add: mem_get_def)

lemma mem_get_mem_put:
  "mem_put buf off bs = Some buf' \<Longrightarrow> mem_get buf' off (length bs) = Some bs"
  by (auto simp: mem_put_def mem_get_def split: if_splits)

lemma store_mem_put: "store buf i b = mem_put buf i [b]"
  by (auto simp: store_def mem_put_def upd_conv_take_nth_drop)

lemma mem_put_append:
  "Option.bind (mem_put buf off xs) (\<lambda>b. mem_put b (off + length xs) ys) = mem_put buf off (xs @ ys)"
proof (cases "off + length (xs @ ys) \<le> length buf")
  case True
  then have "length (take off buf) = off" by simp
  with True show ?thesis
    by (simp add: mem_put_def add_ac)
next
  case False
  then show ?thesis by (auto simp: mem_put_def)
qed

lemma size_sub_le [simp]: "b \<le> a \<Longrightarrow> size_sub a b = a - b"
  by (simp add: size_sub_def)

section \<open>Outcomes of C functions\<close>

text \<open>
  A function of the client returns 0 (with its out-parameters), returns -1 after having printed
  its reason, or runs into undefined behaviour (an access outside an array, a read through a null
  pointer, a release of something not held).
\<close>

datatype 'a outcome = Ok 'a | Fail | Undef

section \<open>Lists\<close>

lemma take_drop_eq_append: "length xs = n \<Longrightarrow> take n (xs @ ys) = xs \<and> drop n (xs @ ys) = ys"
  by simp

lemma split_at: "n \<le> length xs \<Longrightarrow> \<exists>ys zs. xs = ys @ zs \<and> length ys = n"
  by (metis append_take_drop_id length_take min.absorb2)

lemma take_append_drop_mid: "take n (drop m xs) @ drop (m + n) xs = drop m xs"
  by (metis add.commute append_take_drop_id drop_drop)

lemma nth_take_drop: "i < n \<Longrightarrow> m + n \<le> length xs \<Longrightarrow> take n (drop m xs) ! i = xs ! (m + i)"
  by simp

lemma take_then_rest: "take n ys @ drop (length (take n ys)) ys = ys"
  by (cases "n \<le> length ys") auto

lemma drop_by_piece: "bs = take n (drop i xs) \<Longrightarrow> bs @ drop (i + length bs) xs = drop i xs"
  using take_then_rest [of n "drop i xs"] by (simp add: add.commute)

end
