(* ===== verification/Rtrv_Bytes.thy ===== *)
theory Rtrv_Bytes
  imports Rtrv_Prelude
begin

text \<open>
  The big-endian byte packing of \<open>src/c/frame.c\<close>: \<open>rtrv_put_u16\<close>, \<open>rtrv_put_u64\<close>,
  \<open>rtrv_get_u16\<close> and \<open>rtrv_get_u64\<close>, writing into and reading from an array at an offset.
  \<open>be_bytes\<close> and \<open>be_val\<close> are the reference: the big-endian bytes of a word of any width and the
  word they stand for. The locale \<open>packed_field\<close> is the contract the frame and transfer layers
  rely on: where a field lands, what it leaves alone and what is read back.
\<close>

section \<open>Packing and unpacking\<close>

definition rtrv_put_u16 :: "bytes \<Rightarrow> nat \<Rightarrow> u16 \<Rightarrow> bytes option" where
  "rtrv_put_u16 dst off value =
     Option.bind (store dst off (ucast (drop_bit 8 value AND 0xFF)))
       (\<lambda>dst. store dst (off + 1) (ucast (value AND 0xFF)))"

definition rtrv_put_u64 :: "bytes \<Rightarrow> nat \<Rightarrow> u64 \<Rightarrow> bytes option" where
  "rtrv_put_u64 dst off value =
     fold (\<lambda>i d. Option.bind d
              (\<lambda>dst. store dst (off + i) (ucast (drop_bit (56 - 8 * i) value AND 0xFF))))
       [0..<8] (Some dst)"

definition rtrv_get_u16 :: "bytes \<Rightarrow> nat \<Rightarrow> u16 option" where
  "rtrv_get_u16 src off =
     (case mem_get src off 2 of
        None \<Rightarrow> None
      | Some s \<Rightarrow> Some (push_bit 8 (ucast (s ! 0)) OR ucast (s ! 1)))"

definition rtrv_get_u64 :: "bytes \<Rightarrow> nat \<Rightarrow> u64 option" where
  "rtrv_get_u64 src off =
     (case mem_get src off 8 of
        None \<Rightarrow> None
      | Some s \<Rightarrow> Some (fold (\<lambda>i value. push_bit 8 value OR ucast (s ! i)) [0..<8] 0))"

section \<open>Big-endian words of any width\<close>

definition be_bytes :: "nat \<Rightarrow> 'a::len word \<Rightarrow> bytes" where
  "be_bytes k v = map (\<lambda>i. ucast (drop_bit (8 * (k - Suc i)) v)) [0..<k]"

definition be_val :: "bytes \<Rightarrow> 'a::len word" where
  "be_val bs = foldl (\<lambda>v b. push_bit 8 v OR ucast b) 0 bs"

lemma bit_255: "bit (255::int) n \<longleftrightarrow> n < 8"
proof -
  have "(255::int) = mask 8" by (simp add: mask_eq_exp_minus_1)
  then show ?thesis by (simp only: bit_mask_iff) simp
qed

lemma ucast_and_FF [simp]: "ucast (x AND 0xFF :: 'a::len word) = (ucast x :: byte)"
  by (rule bit_word_eqI) (auto simp: bit_simps bit_255 dest: bit_imp_le_length)

lemma bit_be_val:
  "bit (be_val bs :: 'a::len word) n \<longleftrightarrow>
     n < LENGTH('a) \<and> n < 8 * length bs \<and> bit (rev bs ! (n div 8)) (n mod 8)"
proof (induction bs arbitrary: n rule: rev_induct)
  case Nil
  then show ?case by (simp add: be_val_def)
next
  case (snoc b bs)
  show ?case
  proof (cases "n < 8")
    case True
    then show ?thesis
      by (auto simp: be_val_def bit_simps)
  next
    case False
    then obtain m where m: "n = m + 8"
      by (metis add.commute le_Suc_ex not_less)
    have "bit (be_val (bs @ [b]) :: 'a word) n \<longleftrightarrow> n < LENGTH('a) \<and> bit (be_val bs :: 'a word) m"
      using False m by (auto simp: be_val_def bit_simps dest: bit_imp_le_length)
    moreover have "(m + 8) div 8 = Suc (m div 8)" by simp
    ultimately show ?thesis using snoc.IH [of m] m by (simp, auto)
  qed
qed

lemma length_be_bytes [simp]: "length (be_bytes k v) = k"
  by (simp add: be_bytes_def)

lemma rev_be_bytes_nth: "j < k \<Longrightarrow> rev (be_bytes k v) ! j = ucast (drop_bit (8 * j) v)"
  by (simp add: be_bytes_def rev_nth)

lemma be_bytes_nth: "i < k \<Longrightarrow> be_bytes k v ! i = ucast (drop_bit (8 * (k - Suc i)) v)"
  by (simp add: be_bytes_def)

lemma be_val_be_bytes: "8 * k = LENGTH('a) \<Longrightarrow> be_val (be_bytes k v) = (v :: 'a::len word)"
  by (rule bit_word_eqI) (auto simp: bit_be_val rev_be_bytes_nth bit_simps)

lemma be_bytes_be_val:
  assumes "8 * length bs = LENGTH('a)"
  shows "be_bytes (length bs) (be_val bs :: 'a::len word) = bs"
proof (rule nth_equalityI)
  fix i
  assume i: "i < length (be_bytes (length bs) (be_val bs :: 'a word))"
  show "be_bytes (length bs) (be_val bs :: 'a word) ! i = bs ! i"
  proof (rule bit_word_eqI)
    fix n
    assume "n < LENGTH(8)"
    then show "bit (be_bytes (length bs) (be_val bs :: 'a word) ! i) n = bit (bs ! i) n"
      using i assms by (auto simp: be_bytes_def bit_simps bit_be_val rev_nth)
  qed
qed simp

text \<open>The numeric reading: byte \<open>i\<close> of \<open>k\<close> is the digit of weight \<open>256 ^ (k - 1 - i)\<close>.\<close>

lemma unat_be_bytes_nth:
  "i < k \<Longrightarrow> unat (be_bytes k v ! i) = unat v div 256 ^ (k - Suc i) mod 256"
proof -
  have "unat (drop_bit n v) = unat v div 2 ^ n" for n
    unfolding unat_drop_bit_eq by (rule drop_bit_eq_div)
  then show "i < k \<Longrightarrow> ?thesis"
    by (simp add: be_bytes_nth unsigned_ucast_eq take_bit_eq_mod power_mult)
qed

lemma u64_nat: "n < 2 ^ 64 \<Longrightarrow> unat (word_of_nat n :: u64) = n"
  by (simp add: unat_of_nat)

section \<open>The C routines are the reference\<close>

lemma upt_8: "[0..<8] = [0, 1, 2, 3, 4, 5, 6, 7 :: nat]"
  by (simp add: upt_rec)

lemma fold_store:
  "fold (\<lambda>i d. Option.bind d (\<lambda>dst. store dst (off + i) (f i))) [0..<k] (Some dst)
     = mem_put dst off (map f [0..<k])" if "off \<le> length dst"
  using that
proof (induction k)
  case 0
  then show ?case by (simp add: mem_put_def)
next
  case (Suc k)
  then show ?case
    using mem_put_append [of dst off "map f [0..<k]" "[f k]"]
    by (simp add: store_mem_put)
qed

lemma rtrv_put_u64_eq: "off \<le> length dst \<Longrightarrow> rtrv_put_u64 dst off v = mem_put dst off (be_bytes 8 v)"
proof -
  have "map (\<lambda>i. ucast (drop_bit (56 - 8 * i) v AND 0xFF)) [0..<8] = be_bytes 8 v"
    by (simp add: be_bytes_def upt_8)
  then show "off \<le> length dst \<Longrightarrow> ?thesis"
    by (simp add: rtrv_put_u64_def fold_store)
qed

lemma rtrv_put_u16_eq: "rtrv_put_u16 dst off v = mem_put dst off (be_bytes 2 v)"
proof -
  have "be_bytes 2 v = [ucast (drop_bit 8 v)] @ [ucast v]"
    by (simp add: be_bytes_def upt_rec)
  then show ?thesis
    using mem_put_append [of dst off "[ucast (drop_bit 8 v)]" "[ucast v]"]
    by (simp add: rtrv_put_u16_def store_mem_put)
qed

lemma foldl_as_fold_nth: "foldl g z s = fold (\<lambda>i v. g v (s ! i)) [0..<length s] z"
proof -
  have "foldl g z s = fold (\<lambda>x v. g v x) (map ((!) s) [0..<length s]) z"
    by (simp add: foldl_conv_fold map_nth)
  then show ?thesis by (simp add: fold_map comp_def)
qed

lemma rtrv_get_u64_eq:
  "rtrv_get_u64 src off = (if off + 8 \<le> length src then Some (be_val (take 8 (drop off src))) else None)"
  by (simp add: rtrv_get_u64_def mem_get_def be_val_def foldl_as_fold_nth)

lemma rtrv_get_u16_eq:
  "rtrv_get_u16 src off = (if off + 2 \<le> length src then Some (be_val (take 2 (drop off src))) else None)"
proof (cases "off + 2 \<le> length src")
  case True
  then obtain x y where "take 2 (drop off src) = [x, y]"
    by (auto simp: numeral_2_eq_2 take_Suc_conv_app_nth)
  with True show ?thesis by (simp add: rtrv_get_u16_def mem_get_def be_val_def)
qed (simp add: rtrv_get_u16_def mem_get_def)

section \<open>The contract of a packed field\<close>

locale packed_field =
  fixes width :: nat
    and enc :: "'v \<Rightarrow> bytes"
    and put :: "bytes \<Rightarrow> nat \<Rightarrow> 'v \<Rightarrow> bytes option"
    and get :: "bytes \<Rightarrow> nat \<Rightarrow> 'v option"
  assumes enc_length: "length (enc v) = width"
    and put_enc: "off \<le> length buf \<Longrightarrow> put buf off v = mem_put buf off (enc v)"
    and get_enc: "get (pre @ enc v @ post) (length pre) = Some v"
    and get_bound: "length buf < off + width \<Longrightarrow> get buf off = None"
    and enc_onto: "length bs = width \<Longrightarrow> \<exists>v. enc v = bs"
begin

lemma enc_inject: "enc v = enc v' \<longleftrightarrow> v = v'"
  using get_enc [of "[]" _ "[]"] by (metis option.inject)

lemma enc_append_inject: "enc v @ xs = enc v' @ ys \<longleftrightarrow> v = v' \<and> xs = ys"
  by (metis append_eq_append_conv enc_inject enc_length)

lemma get_at:
  assumes "off + width \<le> length buf"
  shows "\<exists>v. get buf off = Some v \<and> enc v = take width (drop off buf)"
proof -
  obtain v where v: "enc v = take width (drop off buf)"
    using assms enc_onto [of "take width (drop off buf)"] by auto
  have "buf = take off buf @ enc v @ drop (off + width) buf"
    by (simp add: v take_append_drop_mid)
  then have "get buf off = Some v"
    using get_enc [of "take off buf" v "drop (off + width) buf"] assms by simp
  with v show ?thesis by blast
qed

lemma get_Some_iff: "(\<exists>v. get buf off = Some v) \<longleftrightarrow> off + width \<le> length buf"
  using get_at get_bound by (metis leI option.distinct(1))

lemma put_Some:
  assumes "off + width \<le> length buf"
  shows "put buf off v = Some (take off buf @ enc v @ drop (off + width) buf)"
  using assms by (simp add: put_enc mem_put_Some enc_length)

lemma put_outside: "off \<le> length buf \<Longrightarrow> length buf < off + width \<Longrightarrow> put buf off v = None"
  by (simp add: put_enc mem_put_def enc_length)

lemma put_then_get:
  assumes "put buf off v = Some buf'" and "off \<le> length buf"
  shows "get buf' off = Some v" "length buf' = length buf"
    "take off buf' = take off buf" "drop (off + width) buf' = drop (off + width) buf"
proof -
  from assms have fits: "off + width \<le> length buf"
    using put_outside by (metis leI option.distinct(1))
  with assms have buf': "buf' = take off buf @ enc v @ drop (off + width) buf"
    by (simp add: put_Some)
  from fits show "get buf' off = Some v"
    using get_enc [of "take off buf" v "drop (off + width) buf"] by (simp add: buf')
  from fits show "length buf' = length buf" "take off buf' = take off buf"
    "drop (off + width) buf' = drop (off + width) buf"
    by (simp_all add: buf' enc_length)
qed

lemma store_and_read:
  "if off + width \<le> length buf
   then (\<exists>b. put buf off v = Some b \<and> get b off = Some v \<and> length b = length buf \<and>
          take off b = take off buf \<and> drop (off + width) b = drop (off + width) buf)
   else get buf off = None"
proof (cases "off + width \<le> length buf")
  case True
  then have "off \<le> length buf" by simp
  with True put_then_get [OF put_Some [OF True]] show ?thesis
    by (simp only: if_True put_Some [OF True] option.inject) blast
next
  case False
  then show ?thesis by (simp add: get_bound)
qed

lemma get_then_put: "get buf off = Some v \<Longrightarrow> put buf off v = Some buf"
  using get_at [of off buf] get_bound [of buf off] put_Some [of off buf v]
  by (metis append_take_drop_id leI option.distinct(1) option.inject take_append_drop_mid)

end

lemma be_val_mid:
  "8 * k = LENGTH('a) \<Longrightarrow> be_val (take k (drop (length pre) (pre @ be_bytes k v @ post))) = (v :: 'a::len word)"
  by (simp add: be_val_be_bytes)

interpretation u16_field: packed_field 2 "be_bytes 2" rtrv_put_u16 rtrv_get_u16
proof
  fix bs :: bytes
  assume "length bs = 2"
  then show "\<exists>v::u16. be_bytes 2 v = bs"
    using be_bytes_be_val [where 'a = 16, of bs] by auto
qed (simp_all add: rtrv_put_u16_eq rtrv_get_u16_eq be_val_be_bytes)

interpretation u64_field: packed_field 8 "be_bytes 8" rtrv_put_u64 rtrv_get_u64
proof
  fix bs :: bytes
  assume "length bs = 8"
  then show "\<exists>v::u64. be_bytes 8 v = bs"
    using be_bytes_be_val [where 'a = 64, of bs] by auto
qed (simp_all add: rtrv_put_u64_eq rtrv_get_u64_eq be_val_be_bytes)

end
