(* ===== verification/Rtrv_Sha_Spec.thy ===== *)
theory Rtrv_Sha_Spec
  imports Rtrv_Bytes
begin

text \<open>
  SHA-256 as FIPS 180-4 states it: the logical functions with real rotations, the message schedule
  as a recurrence, the compression of one block, the padding rule and the iteration over the blocks
  of the padded message. This is the reference that the streaming code of \<open>src/c/sha256.c\<close> is
  compared with; the constants are the table of the source, and \<open>Spec2Isabelle\<close> shows that they are
  the root constants of the standard.
\<close>

section \<open>Constants\<close>

text \<open>The table \<open>K\<close> of \<open>src/c/sha256.c\<close>, one list per line of the source.\<close>

definition K :: "u32 list" where
  "K = concat [
    [0x428a2f98, 0x71374491, 0xb5c0fbcf, 0xe9b5dba5],
    [0x3956c25b, 0x59f111f1, 0x923f82a4, 0xab1c5ed5],
    [0xd807aa98, 0x12835b01, 0x243185be, 0x550c7dc3],
    [0x72be5d74, 0x80deb1fe, 0x9bdc06a7, 0xc19bf174],
    [0xe49b69c1, 0xefbe4786, 0x0fc19dc6, 0x240ca1cc],
    [0x2de92c6f, 0x4a7484aa, 0x5cb0a9dc, 0x76f988da],
    [0x983e5152, 0xa831c66d, 0xb00327c8, 0xbf597fc7],
    [0xc6e00bf3, 0xd5a79147, 0x06ca6351, 0x14292967],
    [0x27b70a85, 0x2e1b2138, 0x4d2c6dfc, 0x53380d13],
    [0x650a7354, 0x766a0abb, 0x81c2c92e, 0x92722c85],
    [0xa2bfe8a1, 0xa81a664b, 0xc24b8b70, 0xc76c51a3],
    [0xd192e819, 0xd6990624, 0xf40e3585, 0x106aa070],
    [0x19a4c116, 0x1e376c08, 0x2748774c, 0x34b0bcb5],
    [0x391c0cb3, 0x4ed8aa4a, 0x5b9cca4f, 0x682e6ff3],
    [0x748f82ee, 0x78a5636f, 0x84c87814, 0x8cc70208],
    [0x90befffa, 0xa4506ceb, 0xbef9a3f7, 0xc67178f2]]"

definition fips_H0 :: "u32 list" where
  "fips_H0 = [0x6a09e667, 0xbb67ae85, 0x3c6ef372, 0xa54ff53a,
              0x510e527f, 0x9b05688c, 0x1f83d9ab, 0x5be0cd19]"

section \<open>Logical functions (4.1.2)\<close>

definition fips_Ch :: "u32 \<Rightarrow> u32 \<Rightarrow> u32 \<Rightarrow> u32" where
  "fips_Ch x y z = (x AND y) XOR (NOT x AND z)"

definition fips_Maj :: "u32 \<Rightarrow> u32 \<Rightarrow> u32 \<Rightarrow> u32" where
  "fips_Maj x y z = (x AND y) XOR (x AND z) XOR (y AND z)"

definition fips_Sigma0 :: "u32 \<Rightarrow> u32" where
  "fips_Sigma0 x = word_rotr 2 x XOR word_rotr 13 x XOR word_rotr 22 x"

definition fips_Sigma1 :: "u32 \<Rightarrow> u32" where
  "fips_Sigma1 x = word_rotr 6 x XOR word_rotr 11 x XOR word_rotr 25 x"

definition fips_sigma0 :: "u32 \<Rightarrow> u32" where
  "fips_sigma0 x = word_rotr 7 x XOR word_rotr 18 x XOR drop_bit 3 x"

definition fips_sigma1 :: "u32 \<Rightarrow> u32" where
  "fips_sigma1 x = word_rotr 17 x XOR word_rotr 19 x XOR drop_bit 10 x"

section \<open>Hash computation (6.2.2)\<close>

text \<open>The message schedule of a block: a recurrence on the word index.\<close>

fun fips_W :: "bytes \<Rightarrow> nat \<Rightarrow> u32" where
  "fips_W M t =
     (if t < 16 then be_val (take 4 (drop (4 * t) M))
      else fips_sigma1 (fips_W M (t - 2)) + fips_W M (t - 7)
         + fips_sigma0 (fips_W M (t - 15)) + fips_W M (t - 16))"

declare fips_W.simps [simp del]

type_synonym work = "u32 \<times> u32 \<times> u32 \<times> u32 \<times> u32 \<times> u32 \<times> u32 \<times> u32"

fun fips_round :: "bytes \<Rightarrow> work \<Rightarrow> nat \<Rightarrow> work" where
  "fips_round M (a, b, c, d, e, f, g, h) t =
     (let T1 = h + fips_Sigma1 e + fips_Ch e f g + K ! t + fips_W M t;
          T2 = fips_Sigma0 a + fips_Maj a b c
      in (T1 + T2, a, b, c, d + T1, e, f, g))"

definition work_of :: "u32 list \<Rightarrow> work" where
  "work_of H = (H ! 0, H ! 1, H ! 2, H ! 3, H ! 4, H ! 5, H ! 6, H ! 7)"

fun add_work :: "u32 list \<Rightarrow> work \<Rightarrow> u32 list" where
  "add_work H (a, b, c, d, e, f, g, h) =
     [H ! 0 + a, H ! 1 + b, H ! 2 + c, H ! 3 + d, H ! 4 + e, H ! 5 + f, H ! 6 + g, H ! 7 + h]"

definition fips_compress :: "u32 list \<Rightarrow> bytes \<Rightarrow> u32 list" where
  "fips_compress H M = add_work H (foldl (fips_round M) (work_of H) [0..<64])"

section \<open>Preprocessing (5.1.1, 5.2.1)\<close>

definition fips_pad :: "bytes \<Rightarrow> bytes" where
  "fips_pad m = m @ [0x80] @ replicate ((119 - length m mod 64) mod 64) 0
     @ be_bytes 8 (word_of_nat (8 * length m) :: u64)"

fun blocks :: "bytes \<Rightarrow> bytes list" where
  "blocks m = (if length m < 64 then [] else take 64 m # blocks (drop 64 m))"

declare blocks.simps [simp del]

definition digest_of :: "u32 list \<Rightarrow> bytes" where
  "digest_of H = concat (map (be_bytes 4) H)"

definition sha256 :: "bytes \<Rightarrow> bytes" where
  "sha256 m = digest_of (foldl fips_compress fips_H0 (blocks (fips_pad m)))"

section \<open>Facts about blocks and padding\<close>

lemma blocks_short [simp]: "length m < 64 \<Longrightarrow> blocks m = []"
  by (simp add: blocks.simps)

lemma blocks_step: "length b = 64 \<Longrightarrow> blocks (b @ m) = b # blocks m"
  by (subst blocks.simps) simp

lemma blocks_append: "64 dvd length a \<Longrightarrow> blocks (a @ b) = blocks a @ blocks b"
proof (induction a rule: blocks.induct)
  case (1 a)
  show ?case
  proof (cases "length a < 64")
    case True
    with "1.prems" have "a = []" by (auto dest: nat_dvd_not_less)
    then show ?thesis by simp
  next
    case False
    then have a: "a = take 64 a @ drop 64 a" "length (take 64 a) = 64" by auto
    have IH: "blocks (drop 64 a @ b) = blocks (drop 64 a) @ blocks b"
      using False "1.prems" by (intro "1.IH") (auto intro: dvd_diff_nat)
    have "blocks (a @ b) = take 64 a # blocks (drop 64 a @ b)"
      by (metis a append_assoc blocks_step)
    also have "\<dots> = (take 64 a # blocks (drop 64 a)) @ blocks b" by (simp add: IH)
    also have "take 64 a # blocks (drop 64 a) = blocks a"
      by (metis a blocks_step)
    finally show ?thesis .
  qed
qed

lemma pad_zeros_count:
  fixes r :: nat
  assumes "r < 64"
  shows "(119 - r) mod 64 = (if r \<le> 55 then 55 - r else 119 - r)"
proof (cases "r \<le> 55")
  case True
  then have "(119 - r) mod 64 = ((55 - r) + 64) mod 64" by simp
  also have "\<dots> = 55 - r" by (simp only: mod_add_self2) simp
  finally show ?thesis using True by simp
next
  case False
  with assms show ?thesis by simp
qed

lemma length_fips_pad: "64 dvd length (fips_pad m)"
proof -
  define q r where "q = length m div 64" and "r = length m mod 64"
  have m: "length m = 64 * q + r" and r: "r < 64" by (simp_all add: q_def r_def)
  have "length (fips_pad m) = 64 * q + r + 9 + (119 - r) mod 64"
    using m by (simp add: fips_pad_def r_def)
  also have "\<dots> = 64 * (if r \<le> 55 then q + 1 else q + 2)"
    using r by (simp add: pad_zeros_count)
  finally show ?thesis by simp
qed

lemma length_add_work [simp]: "length (add_work H v) = 8"
  by (cases "(H, v)" rule: add_work.cases) simp

lemma length_fips_compress [simp]: "length (fips_compress H M) = 8"
  by (simp add: fips_compress_def)

lemma length_fold_compress: "length H = 8 \<Longrightarrow> length (foldl fips_compress H bs) = 8"
  by (induction bs arbitrary: H) simp_all

lemma length_digest_of: "length (digest_of H) = 4 * length H"
  by (induction H) (simp_all add: digest_of_def)

lemma length_fips_H0 [simp]: "length fips_H0 = 8"
  by (simp add: fips_H0_def)

lemma length_sha256 [simp]: "length (sha256 m) = 32"
  by (simp add: sha256_def length_digest_of length_fold_compress)

end
