(* ===== verification/Rtrv_Sha256.thy ===== *)
theory Rtrv_Sha256
  imports Rtrv_Sha_Spec
begin

text \<open>
  The streaming SHA-256 of \<open>src/c/sha256.c\<close>: the macros, \<open>sha256_block\<close>, \<open>sha256_init\<close>,
  \<open>sha256_update\<close>, \<open>sha256_final\<close> and \<open>sha256_hex\<close>, over the context record of
  \<open>src/c/sha256.h\<close>. Every array access is bounded: \<open>None\<close> is an access outside an array, or a
  padding loop that does not end. The locale \<open>stream_hash\<close> is what the file hashing relies on; its
  interpretation shows that the code computes the reference \<open>sha256\<close> of everything fed to it, in
  pieces of any size.
\<close>

section \<open>The context and the macros\<close>

abbreviation (input) SHA256_DIGEST_SIZE :: nat where "SHA256_DIGEST_SIZE \<equiv> 32"
abbreviation (input) SHA256_BLOCK_SIZE :: nat where "SHA256_BLOCK_SIZE \<equiv> 64"

record sha256_ctx =
  state :: "u32 list"
  bit_count :: u64
  buffer :: bytes
  buffered :: nat

definition ROTR :: "u32 \<Rightarrow> nat \<Rightarrow> u32" where
  "ROTR x n = drop_bit n x OR push_bit (32 - n) x"

definition CH :: "u32 \<Rightarrow> u32 \<Rightarrow> u32 \<Rightarrow> u32" where
  "CH x y z = (x AND y) XOR (NOT x AND z)"

definition MAJ :: "u32 \<Rightarrow> u32 \<Rightarrow> u32 \<Rightarrow> u32" where
  "MAJ x y z = (x AND y) XOR (x AND z) XOR (y AND z)"

definition BSIG0 :: "u32 \<Rightarrow> u32" where
  "BSIG0 x = ROTR x 2 XOR ROTR x 13 XOR ROTR x 22"

definition BSIG1 :: "u32 \<Rightarrow> u32" where
  "BSIG1 x = ROTR x 6 XOR ROTR x 11 XOR ROTR x 25"

definition SSIG0 :: "u32 \<Rightarrow> u32" where
  "SSIG0 x = ROTR x 7 XOR ROTR x 18 XOR drop_bit 3 x"

definition SSIG1 :: "u32 \<Rightarrow> u32" where
  "SSIG1 x = ROTR x 17 XOR ROTR x 19 XOR drop_bit 10 x"

section \<open>The compression function\<close>

text \<open>The two loops that fill \<open>w\<close>: the sixteen words of the block, then the derived ones.\<close>

definition sched_load_word :: "bytes \<Rightarrow> nat \<Rightarrow> u32 list \<Rightarrow> u32 list" where
  "sched_load_word block i w =
     w[i := push_bit 24 (ucast (block ! (i * 4))) OR push_bit 16 (ucast (block ! (i * 4 + 1)))
            OR push_bit 8 (ucast (block ! (i * 4 + 2))) OR ucast (block ! (i * 4 + 3))]"

definition sched_extend_word :: "nat \<Rightarrow> u32 list \<Rightarrow> u32 list" where
  "sched_extend_word i w =
     w[i := SSIG1 (w ! (i - 2)) + w ! (i - 7) + SSIG0 (w ! (i - 15)) + w ! (i - 16)]"

definition sha256_schedule :: "bytes \<Rightarrow> u32 list \<Rightarrow> u32 list" where
  "sha256_schedule block w =
     fold sched_extend_word [16..<64] (fold (sched_load_word block) [0..<16] w)"

fun sha256_round :: "u32 list \<Rightarrow> nat \<Rightarrow> work \<Rightarrow> work" where
  "sha256_round w i (a, b, c, d, e, f, g, h) =
     (let t1 = h + BSIG1 e + CH e f g + K ! i + w ! i;
          t2 = BSIG0 a + MAJ a b c
      in (t1 + t2, a, b, c, d + t1, e, f, g))"

definition sha256_block :: "sha256_ctx \<Rightarrow> bytes \<Rightarrow> sha256_ctx option" where
  "sha256_block ctx block =
     (if length block < SHA256_BLOCK_SIZE \<or> length (state ctx) \<noteq> 8 then None
      else
        let w = sha256_schedule block (replicate 64 0);
            s = state ctx
        in case fold (sha256_round w) [0..<64]
                  (s ! 0, s ! 1, s ! 2, s ! 3, s ! 4, s ! 5, s ! 6, s ! 7) of
             (a, b, c, d, e, f, g, h) \<Rightarrow>
               Some (ctx\<lparr>state := [s ! 0 + a, s ! 1 + b, s ! 2 + c, s ! 3 + d,
                                   s ! 4 + e, s ! 5 + f, s ! 6 + g, s ! 7 + h]\<rparr>))"

section \<open>Init, update, final\<close>

definition sha256_init :: "sha256_ctx \<Rightarrow> sha256_ctx" where
  "sha256_init ctx = ctx\<lparr>
     state := [0x6a09e667, 0xbb67ae85, 0x3c6ef372, 0xa54ff53a,
               0x510e527f, 0x9b05688c, 0x1f83d9ab, 0x5be0cd19],
     bit_count := 0, buffered := 0\<rparr>"

text \<open>Top up a partial block left over from last time; returns what is left of the data.\<close>

definition update_top_up :: "sha256_ctx \<Rightarrow> bytes \<Rightarrow> (sha256_ctx \<times> bytes) option" where
  "update_top_up ctx p =
     (if buffered ctx > 0 then
        let need = size_sub SHA256_BLOCK_SIZE (buffered ctx);
            n = (if length p < need then length p else need)
        in Option.bind (mem_put (buffer ctx) (buffered ctx) (take n p)) (\<lambda>b.
           let ctx = ctx\<lparr>buffer := b, buffered := buffered ctx + n\<rparr>
           in if buffered ctx = SHA256_BLOCK_SIZE
              then Option.bind (sha256_block ctx (buffer ctx))
                     (\<lambda>ctx. Some (ctx\<lparr>buffered := 0\<rparr>, drop n p))
              else Some (ctx, drop n p))
      else Some (ctx, p))"

text \<open>Take whole blocks straight from the caller's buffer.\<close>

function update_whole_blocks :: "sha256_ctx \<Rightarrow> bytes \<Rightarrow> (sha256_ctx \<times> bytes) option" where
  "update_whole_blocks ctx p =
     (if length p \<ge> SHA256_BLOCK_SIZE
      then Option.bind (sha256_block ctx (take SHA256_BLOCK_SIZE p))
             (\<lambda>ctx. update_whole_blocks ctx (drop SHA256_BLOCK_SIZE p))
      else Some (ctx, p))"
  by pat_completeness auto
termination
  by (relation "measure (\<lambda>(ctx, p). length p)") auto

declare update_whole_blocks.simps [simp del]

definition sha256_update :: "sha256_ctx \<Rightarrow> bytes \<Rightarrow> sha256_ctx option" where
  "sha256_update ctx data =
     Option.bind (update_top_up (ctx\<lparr>bit_count := bit_count ctx + word_of_nat (length data) * 8\<rparr>) data)
       (\<lambda>(ctx, p). Option.bind (update_whole_blocks ctx p)
         (\<lambda>(ctx, p). if length p > 0
            then Option.bind (mem_put (buffer ctx) 0 p)
                   (\<lambda>b. Some (ctx\<lparr>buffer := b, buffered := length p\<rparr>))
            else Some ctx))"

text \<open>The padding loop of \<open>sha256_final\<close>: one zero byte at a time until eight bytes remain.\<close>

partial_function (option) final_zeros :: "u64 \<Rightarrow> sha256_ctx \<Rightarrow> sha256_ctx option" where
  "final_zeros bits ctx =
     (if buffered ctx \<noteq> SHA256_BLOCK_SIZE - 8
      then Option.bind (sha256_update ctx [0])
             (\<lambda>ctx. final_zeros bits (ctx\<lparr>bit_count := bits\<rparr>))
      else Some ctx)"

declare final_zeros.simps [code]

definition state_bytes :: "u32 list \<Rightarrow> bytes" where
  "state_bytes s = concat (map (\<lambda>i.
     [ucast (drop_bit 24 (s ! i) AND 0xFF), ucast (drop_bit 16 (s ! i) AND 0xFF),
      ucast (drop_bit 8 (s ! i) AND 0xFF), ucast (s ! i AND 0xFF)]) [0..<8])"

definition sha256_final :: "sha256_ctx \<Rightarrow> (sha256_ctx \<times> bytes) option" where
  "sha256_final ctx =
     (let bits = bit_count ctx in
      Option.bind (sha256_update ctx [0x80]) (\<lambda>ctx.
      Option.bind (final_zeros bits (ctx\<lparr>bit_count := bits\<rparr>)) (\<lambda>ctx.
      Option.bind (sha256_update ctx
          (map (\<lambda>i. ucast (drop_bit (56 - 8 * i) bits AND 0xFF)) [0..<8])) (\<lambda>ctx.
      Some (ctx, state_bytes (state ctx))))))"

text \<open>Lowercase hexadecimal, two characters per byte (the terminating zero ends the string).\<close>

definition hex_digits :: string where
  "hex_digits = ''0123456789abcdef''"

definition sha256_hex :: "bytes \<Rightarrow> nat \<Rightarrow> string option" where
  "sha256_hex digest len =
     (if length digest < len then None
      else Some (concat (map (\<lambda>i.
        [hex_digits ! unat (drop_bit 4 (digest ! i) AND 0x0F),
         hex_digits ! unat (digest ! i AND 0x0F)]) [0..<len])))"

section \<open>One block\<close>

lemma ROTR_word_rotr: "0 < n \<Longrightarrow> n < 32 \<Longrightarrow> ROTR x n = word_rotr n x"
proof (rule bit_word_eqI)
  fix k
  assume n: "0 < n" "n < 32" and k: "k < LENGTH(32)"
  show "bit (ROTR x n) k = bit (word_rotr n x) k"
  proof (cases "k + n < 32")
    case True
    then show ?thesis using n k
      by (auto simp: ROTR_def bit_simps add.commute)
  next
    case False
    then have "(k + n) mod 32 = k - (32 - n)"
      using n k by (simp add: mod_if)
    then show ?thesis using n k False
      by (auto simp: ROTR_def bit_simps add.commute dest: bit_imp_le_length)
  qed
qed

lemma macros_fips:
  "BSIG0 = fips_Sigma0" "BSIG1 = fips_Sigma1" "SSIG0 = fips_sigma0" "SSIG1 = fips_sigma1"
  "CH = fips_Ch" "MAJ = fips_Maj"
  by (simp_all add: fun_eq_iff BSIG0_def BSIG1_def SSIG0_def SSIG1_def CH_def MAJ_def
      fips_Sigma0_def fips_Sigma1_def fips_sigma0_def fips_sigma1_def fips_Ch_def fips_Maj_def
      ROTR_word_rotr)

lemma be_val_4:
  assumes "i * 4 + 3 < length block"
  shows "(be_val (take 4 (drop (4 * i) block)) :: u32)
       = push_bit 24 (ucast (block ! (i * 4))) OR push_bit 16 (ucast (block ! (i * 4 + 1)))
         OR push_bit 8 (ucast (block ! (i * 4 + 2))) OR ucast (block ! (i * 4 + 3))"
proof -
  have "take 4 (drop (4 * i) block)
      = [block ! (i * 4), block ! (i * 4 + 1), block ! (i * 4 + 2), block ! (i * 4 + 3)]"
    by (rule nth_equalityI) (use assms in \<open>auto simp: less_Suc_eq numeral_eq_Suc mult.commute\<close>)
  then show ?thesis
    by (simp add: be_val_def push_bit_or or.assoc)
qed

lemma sched_load_prefix:
  assumes "64 \<le> length block" and "length w = 64" and "n \<le> 16"
  shows "length (fold (sched_load_word block) [0..<n] w) = 64 \<and>
         (\<forall>t < n. fold (sched_load_word block) [0..<n] w ! t = fips_W block t)"
  using assms(3)
proof (induction n)
  case 0
  then show ?case using assms(2) by simp
next
  case (Suc n)
  define v where "v = fold (sched_load_word block) [0..<n] w"
  have v: "length v = 64" "\<forall>t < n. v ! t = fips_W block t"
    using Suc by (auto simp: v_def)
  have "sched_load_word block n v = v[n := fips_W block n]"
    using Suc.prems assms(1) fips_W.simps [of block n] by (simp add: sched_load_word_def be_val_4)
  then have "fold (sched_load_word block) [0..<Suc n] w = v[n := fips_W block n]"
    by (simp add: v_def)
  with v Suc.prems show ?case
    by (auto simp: less_Suc_eq nth_list_update)
qed

lemma sched_extend_prefix:
  assumes "length w = 64" and "\<forall>t < 16. w ! t = fips_W block t" and "16 \<le> n" and "n \<le> 64"
  shows "length (fold sched_extend_word [16..<n] w) = 64 \<and>
         (\<forall>t < n. fold sched_extend_word [16..<n] w ! t = fips_W block t)"
  using assms(3,4)
proof (induction n rule: dec_induct)
  case base
  then show ?case using assms(1,2) by simp
next
  case (step n)
  define v where "v = fold sched_extend_word [16..<n] w"
  have v: "length v = 64" "\<forall>t < n. v ! t = fips_W block t"
    using step by (auto simp: v_def)
  have "sched_extend_word n v = v[n := fips_W block n]"
    using v(2) step.hyps fips_W.simps [of block n] by (simp add: sched_extend_word_def macros_fips)
  then have "fold sched_extend_word [16..<Suc n] w = v[n := fips_W block n]"
    using step.hyps by (simp add: v_def)
  with v step.prems show ?case
    by (auto simp: less_Suc_eq nth_list_update)
qed

lemma schedule_correct:
  assumes "64 \<le> length block" and "t < 64"
  shows "sha256_schedule block (replicate 64 0) ! t = fips_W block t"
proof -
  have w: "length (fold (sched_load_word block) [0..<16] (replicate 64 0)) = 64"
    "\<forall>t < 16. fold (sched_load_word block) [0..<16] (replicate 64 0) ! t = fips_W block t"
    using sched_load_prefix [OF assms(1) length_replicate order_refl] by blast+
  have "(16::nat) \<le> 64" by simp
  from sched_extend_prefix [OF w this order_refl] assms(2) show ?thesis
    unfolding sha256_schedule_def by blast
qed

lemma sha256_round_fips:
  "w ! i = fips_W M i \<Longrightarrow> sha256_round w i v = fips_round M v i"
  by (cases "(w, i, v)" rule: sha256_round.cases) (simp add: macros_fips Let_def)

lemma sha256_block_eq:
  assumes "length block = 64" and "length (state ctx) = 8"
  shows "sha256_block ctx block = Some (ctx\<lparr>state := fips_compress (state ctx) block\<rparr>)"
proof -
  let ?w = "sha256_schedule block (replicate 64 0)"
  have "fold (sha256_round ?w) [0..<64] v = foldl (fips_round block) v [0..<64]" for v
    unfolding foldl_conv_fold
    by (rule fold_cong) (use assms(1) in \<open>auto simp: fun_eq_iff schedule_correct sha256_round_fips\<close>)
  then show ?thesis
    using assms by (auto simp: sha256_block_def fips_compress_def work_of_def Let_def split: prod.split)
qed

section \<open>What a context stands for\<close>

text \<open>
  \<open>absorbed ctx a\<close>: the running hash of \<open>ctx\<close> is that of the whole blocks \<open>a\<close>.
  \<open>sha_rep ctx m\<close>: \<open>ctx\<close> has been fed the bytes \<open>m\<close>, of which the last ones wait in the buffer.
\<close>

definition absorbed :: "sha256_ctx \<Rightarrow> bytes \<Rightarrow> bool" where
  "absorbed ctx a \<longleftrightarrow> length (buffer ctx) = 64 \<and> 64 dvd length a \<and>
     state ctx = foldl fips_compress fips_H0 (blocks a)"

definition sha_rep :: "sha256_ctx \<Rightarrow> bytes \<Rightarrow> bool" where
  "sha_rep ctx m \<longleftrightarrow> buffered ctx < 64 \<and>
     (\<exists>a. absorbed ctx a \<and> m = a @ take (buffered ctx) (buffer ctx))"

lemma absorbed_fields:
  "absorbed ctx a \<Longrightarrow> absorbed (ctx\<lparr>bit_count := n, buffered := k\<rparr>) a"
  "absorbed ctx a \<Longrightarrow> absorbed (ctx\<lparr>bit_count := n\<rparr>) a"
  "absorbed ctx a \<Longrightarrow> absorbed (ctx\<lparr>buffered := k\<rparr>) a"
  "absorbed ctx a \<Longrightarrow> length b = 64 \<Longrightarrow> absorbed (ctx\<lparr>buffer := b, buffered := k\<rparr>) a"
  by (simp_all add: absorbed_def)

lemma sha_rep_bit_count: "sha_rep (ctx\<lparr>bit_count := n\<rparr>) m \<longleftrightarrow> sha_rep ctx m"
  by (simp add: sha_rep_def absorbed_def)

lemma absorb_block:
  assumes "absorbed ctx a" and "length b = 64"
  shows "sha256_block ctx b = Some (ctx\<lparr>state := fips_compress (state ctx) b\<rparr>)"
    and "absorbed (ctx\<lparr>state := fips_compress (state ctx) b\<rparr>) (a @ b)"
proof -
  have "length (state ctx) = 8"
    using assms(1) by (simp add: absorbed_def length_fold_compress)
  with assms(2) show "sha256_block ctx b = Some (ctx\<lparr>state := fips_compress (state ctx) b\<rparr>)"
    by (simp add: sha256_block_eq)
  have "blocks (a @ b) = blocks a @ [b]"
    using assms blocks_step [of b "[]"] by (simp add: absorbed_def blocks_append)
  with assms show "absorbed (ctx\<lparr>state := fips_compress (state ctx) b\<rparr>) (a @ b)"
    by (simp add: absorbed_def)
qed

lemma update_whole_blocks_ok:
  assumes "absorbed ctx a"
  shows "\<exists>ctx' b p'. update_whole_blocks ctx p = Some (ctx', p') \<and> p = b @ p' \<and> length p' < 64 \<and>
    absorbed ctx' (a @ b) \<and> buffer ctx' = buffer ctx \<and> buffered ctx' = buffered ctx \<and>
    bit_count ctx' = bit_count ctx"
  using assms
proof (induction p arbitrary: ctx a rule: measure_induct_rule [of length])
  case (less p)
  show ?case
  proof (cases "length p < 64")
    case True
    with less.prems show ?thesis
      by (simp add: update_whole_blocks.simps [of ctx p])
  next
    case False
    let ?c = "ctx\<lparr>state := fips_compress (state ctx) (take 64 p)\<rparr>"
    have l: "length (take 64 p) = 64" using False by simp
    have shorter: "length (drop 64 p) < length p" using False by auto
    note blk = absorb_block [OF less.prems l]
    obtain ctx' b p' where IH: "update_whole_blocks ?c (drop 64 p) = Some (ctx', p')"
      "drop 64 p = b @ p'" "length p' < 64" "absorbed ctx' ((a @ take 64 p) @ b)"
      "buffer ctx' = buffer ctx" "buffered ctx' = buffered ctx" "bit_count ctx' = bit_count ctx"
      using less.IH [OF shorter blk(2)] by auto
    moreover have "p = (take 64 p @ b) @ p'" "absorbed ctx' (a @ (take 64 p @ b))"
      using IH(2,4) by (metis append_assoc append_take_drop_id)+
    moreover have "update_whole_blocks ctx p = Some (ctx', p')"
      using blk(1) False IH(1) by (simp add: update_whole_blocks.simps [of ctx p])
    ultimately show ?thesis by blast
  qed
qed

text \<open>A buffer that the new bytes fill is absorbed.\<close>

lemma update_top_up_full:
  assumes a: "absorbed ctx a" and n: "0 < buffered ctx" "buffered ctx < 64" "length (buffer ctx) = 64"
    and full: "64 - buffered ctx \<le> length p" and b: "b = take (buffered ctx) (buffer ctx) @ take (64 - buffered ctx) p"
  shows "\<exists>ctx'. update_top_up ctx p = Some (ctx', drop (64 - buffered ctx) p) \<and> absorbed ctx' (a @ b) \<and>
    bit_count ctx' = bit_count ctx \<and> buffered ctx' = 0"
proof -
  let ?c = "ctx\<lparr>buffer := b, buffered := 64\<rparr>"
  have len: "length b = 64" using full n b by simp
  have "mem_put (buffer ctx) (buffered ctx) (take (64 - buffered ctx) p) = Some b"
    using full n b by (simp add: mem_put_Some)
  moreover have c: "absorbed ?c a" using a len by (rule absorbed_fields)
  ultimately have "update_top_up ctx p
      = Some (?c\<lparr>state := fips_compress (state ctx) b, buffered := 0\<rparr>, drop (64 - buffered ctx) p)"
    using full n absorb_block(1) [OF c len] by (simp add: update_top_up_def Let_def)
  moreover have "absorbed (?c\<lparr>state := fips_compress (state ctx) b, buffered := 0\<rparr>) (a @ b)"
    using absorbed_fields(3) [OF absorb_block(2) [OF c len], of 0] by simp
  ultimately show ?thesis by simp
qed

lemma update_top_up_ok:
  assumes "sha_rep ctx m"
  shows "\<exists>ctx' p' a. update_top_up ctx p = Some (ctx', p') \<and> absorbed ctx' a \<and>
    bit_count ctx' = bit_count ctx \<and>
    (buffered ctx' = 0 \<and> m @ p = a @ p' \<or>
     p' = [] \<and> buffered ctx' < 64 \<and> m @ p = a @ take (buffered ctx') (buffer ctx'))"
proof -
  obtain a where a: "absorbed ctx a" and m: "m = a @ take (buffered ctx) (buffer ctx)"
    and n: "buffered ctx < 64" and b64: "length (buffer ctx) = 64"
    using assms by (auto simp: sha_rep_def absorbed_def)
  consider (empty) "buffered ctx = 0"
    | (part) "0 < buffered ctx" "length p < 64 - buffered ctx"
    | (full) "0 < buffered ctx" "64 - buffered ctx \<le> length p"
    by linarith
  then show ?thesis
  proof cases
    case empty
    with a m show ?thesis by (auto simp: update_top_up_def)
  next
    case part
    let ?b = "take (buffered ctx) (buffer ctx) @ p @ drop (buffered ctx + length p) (buffer ctx)"
    let ?c = "ctx\<lparr>buffer := ?b, buffered := buffered ctx + length p\<rparr>"
    have "buffered ctx + length p \<noteq> 64" "length p < size_sub 64 (buffered ctx)"
      using part n by auto
    moreover have "mem_put (buffer ctx) (buffered ctx) p = Some ?b"
      using part n b64 by (simp add: mem_put_Some)
    ultimately have "update_top_up ctx p = Some (?c, [])"
      using part(1) by (simp add: update_top_up_def Let_def)
    moreover have "absorbed ?c a"
      using a part b64 by (intro absorbed_fields) auto
    moreover have "m @ p = a @ take (buffered ?c) (buffer ?c)"
      using m part b64 n by simp
    ultimately show ?thesis using part by fastforce
  next
    case full
    from update_top_up_full [OF a full(1) n b64 full(2) refl] show ?thesis using m by fastforce
  qed
qed

text \<open>Feeding more bytes to a context appends them to what it stands for.\<close>

lemma sha256_update_ok:
  assumes "sha_rep ctx m"
  shows "\<exists>ctx'. sha256_update ctx d = Some ctx' \<and> sha_rep ctx' (m @ d) \<and>
    bit_count ctx' = bit_count ctx + word_of_nat (length d) * 8"
proof -
  let ?n = "bit_count ctx + word_of_nat (length d) * 8"
  have "sha_rep (ctx\<lparr>bit_count := ?n\<rparr>) m"
    using assms by (simp add: sha_rep_bit_count)
  from update_top_up_ok [OF this, of d] obtain c1 p1 a where
    top: "update_top_up (ctx\<lparr>bit_count := ?n\<rparr>) d = Some (c1, p1)" "absorbed c1 a" "bit_count c1 = ?n"
    and d: "buffered c1 = 0 \<and> m @ d = a @ p1 \<or>
      p1 = [] \<and> buffered c1 < 64 \<and> m @ d = a @ take (buffered c1) (buffer c1)"
    by auto
  obtain c2 b p2 where whole: "update_whole_blocks c1 p1 = Some (c2, p2)" "p1 = b @ p2"
    "length p2 < 64" "absorbed c2 (a @ b)" "buffer c2 = buffer c1" "buffered c2 = buffered c1"
    "bit_count c2 = ?n"
    using update_whole_blocks_ok [OF top(2), of p1] top(3) by auto
  show ?thesis
  proof (cases "p2 = []")
    case True
    have "sha_rep c2 (m @ d)"
      using d whole True by (auto simp: sha_rep_def)
    with True top(1) whole show ?thesis by (simp add: sha256_update_def)
  next
    case False
    let ?b = "p2 @ drop (length p2) (buffer c2)"
    let ?c = "c2\<lparr>buffer := ?b, buffered := length p2\<rparr>"
    from False whole d have md: "m @ d = (a @ b) @ p2" by auto
    have len: "length (buffer c2) = 64" using whole(4) by (simp add: absorbed_def)
    then have "mem_put (buffer c2) 0 p2 = Some ?b"
      using whole(3) by (simp add: mem_put_Some)
    then have "sha256_update ctx d = Some ?c"
      using False top(1) whole(1) by (simp add: sha256_update_def)
    moreover have "absorbed ?c (a @ b)"
      using whole(3,4) len by (intro absorbed_fields) auto
    then have "sha_rep ?c (m @ d)"
      using md whole(3) by (auto simp: sha_rep_def)
    ultimately show ?thesis using whole(7) by simp
  qed
qed

section \<open>Padding\<close>

text \<open>
  The zero loop ends: from a context fed \<open>m\<close> it appends exactly the zeros that bring the length to
  56 modulo 64, processing a block on the way when there is no room left in the current one.
\<close>

lemma sha_rep_buffered: "sha_rep ctx m \<Longrightarrow> buffered ctx = length m mod 64"
  by (auto simp: sha_rep_def absorbed_def elim: dvdE)

lemma final_zeros_ok:
  assumes "sha_rep ctx m" and "bit_count ctx = bits" and "(length m + k) mod 64 = 56" and "k < 64"
  shows "\<exists>ctx'. final_zeros bits ctx = Some ctx' \<and> sha_rep ctx' (m @ replicate k 0) \<and>
    bit_count ctx' = bits"
  using assms
proof (induction k arbitrary: ctx m)
  case 0
  then show ?case
    by (subst final_zeros.simps) (simp add: sha_rep_buffered [OF "0.prems"(1)])
next
  case (Suc k)
  have "length m mod 64 \<noteq> 56"
  proof
    assume "length m mod 64 = 56"
    with Suc.prems(3) have "(56 + Suc k) mod 64 = 56 mod 64" by (metis mod_add_left_eq mod_mod_trivial)
    then have "64 dvd Suc k" by (metis add_diff_cancel_left' le_add1 mod_eq_dvd_iff_nat)
    with Suc.prems(4) show False by (auto dest: dvd_imp_le)
  qed
  then have more: "buffered ctx \<noteq> 64 - 8"
    by (simp add: sha_rep_buffered [OF Suc.prems(1)])
  obtain c1 where c1: "sha256_update ctx [0] = Some c1" "sha_rep c1 (m @ [0])"
    using sha256_update_ok [OF Suc.prems(1), of "[0]"] by auto
  have "sha_rep (c1\<lparr>bit_count := bits\<rparr>) (m @ [0])"
    using c1(2) by (simp add: sha_rep_bit_count)
  then obtain c2 where "final_zeros bits (c1\<lparr>bit_count := bits\<rparr>) = Some c2"
    "sha_rep c2 ((m @ [0]) @ replicate k 0)" "bit_count c2 = bits"
    using Suc.IH [of "c1\<lparr>bit_count := bits\<rparr>" "m @ [0]"] Suc.prems(3,4) by auto
  with more c1 show ?case
    by (subst final_zeros.simps) simp
qed

lemma state_bytes_digest: "length s = 8 \<Longrightarrow> state_bytes s = digest_of s"
proof -
  assume "length s = 8"
  then have "s = map ((!) s) [0..<8]" by (metis map_nth)
  then have "digest_of s = concat (map (\<lambda>i. be_bytes 4 (s ! i)) [0..<8])"
    unfolding digest_of_def by (metis (no_types, lifting) comp_apply list.map_comp map_eq_conv)
  moreover have "be_bytes 4 w = [ucast (drop_bit 24 w), ucast (drop_bit 16 w), ucast (drop_bit 8 w), ucast w]"
    for w :: u32
    by (simp add: be_bytes_def upt_rec)
  ultimately show ?thesis by (simp add: state_bytes_def)
qed

lemma length_bytes_eq:
  "map (\<lambda>i. ucast (drop_bit (56 - 8 * i) bits)) [0..<8] = be_bytes 8 (bits :: u64)"
  by (simp add: be_bytes_def upt_8)

lemma mod_56_if_room_for_length: "64 dvd n + 8 \<Longrightarrow> n mod 64 = (56 :: nat)"
proof -
  assume "64 dvd n + 8"
  then obtain q where "n + 8 = 64 * q" by (elim dvdE)
  moreover from this obtain r where "q = Suc r" by (cases q) auto
  ultimately have "n = 56 + 64 * r" by simp
  then show ?thesis by simp
qed

lemma sha256_final_ok:
  assumes "sha_rep ctx m" and bits: "bit_count ctx = word_of_nat (8 * length m)"
  shows "\<exists>ctx'. sha256_final ctx = Some (ctx', sha256 m)"
proof -
  let ?bits = "word_of_nat (8 * length m) :: u64"
  define k where "k = (119 - length m mod 64) mod 64"
  obtain c1 where c1: "sha256_update ctx [0x80] = Some c1" "sha_rep c1 (m @ [0x80])"
    using sha256_update_ok [OF assms(1), of "[0x80]"] by auto
  have rep: "sha_rep (c1\<lparr>bit_count := ?bits\<rparr>) (m @ [0x80])"
    using c1(2) by (simp add: sha_rep_bit_count)
  have len: "64 dvd length (m @ [0x80] @ replicate k 0) + 8"
    using length_fips_pad [of m] by (simp add: fips_pad_def k_def add_ac)
  then have "(length (m @ [0x80]) + k) mod 64 = 56"
    using mod_56_if_room_for_length [OF len] by simp
  then obtain c2 where c2: "final_zeros ?bits (c1\<lparr>bit_count := ?bits\<rparr>) = Some c2"
    "sha_rep c2 ((m @ [0x80]) @ replicate k 0)"
    using final_zeros_ok [OF rep, of ?bits k] by (auto simp: k_def)
  obtain c3 where c3: "sha256_update c2 (be_bytes 8 ?bits) = Some c3"
    "sha_rep c3 (fips_pad m)"
    using sha256_update_ok [OF c2(2), of "be_bytes 8 ?bits"] by (auto simp: fips_pad_def k_def)
  have "buffered c3 = 0"
    using sha_rep_buffered [OF c3(2)] length_fips_pad [of m] by simp
  then have "absorbed c3 (fips_pad m)"
    using c3(2) by (auto simp: sha_rep_def)
  then have "state_bytes (state c3) = sha256 m"
    by (simp add: absorbed_def sha256_def state_bytes_digest length_fold_compress)
  then show ?thesis
    using bits c1(1) c2(1) c3(1) by (simp add: sha256_final_def Let_def length_bytes_eq)
qed

section \<open>The contract of a streaming hash\<close>

locale stream_hash =
  fixes ini :: "'c \<Rightarrow> 'c"
    and upd :: "'c \<Rightarrow> bytes \<Rightarrow> 'c option"
    and fin :: "'c \<Rightarrow> ('c \<times> bytes) option"
    and valid :: "'c \<Rightarrow> bool"
    and fed :: "'c \<Rightarrow> bytes \<Rightarrow> bool"
    and hash :: "bytes \<Rightarrow> bytes"
  assumes fed_ini: "valid c \<Longrightarrow> fed (ini c) []"
    and fed_upd: "fed c m \<Longrightarrow> \<exists>c'. upd c d = Some c' \<and> fed c' (m @ d)"
    and fin_hash: "fed c m \<Longrightarrow> \<exists>c'. fin c = Some (c', hash m)"
begin

definition upd_all :: "'c \<Rightarrow> bytes list \<Rightarrow> 'c option" where
  "upd_all c ds = foldl (\<lambda>oc d. Option.bind oc (\<lambda>c. upd c d)) (Some c) ds"

lemma upd_all_Cons: "upd c d = Some c' \<Longrightarrow> upd_all c (d # ds) = upd_all c' ds"
  by (simp add: upd_all_def)

lemma fed_upd_all: "fed c m \<Longrightarrow> \<exists>c'. upd_all c ds = Some c' \<and> fed c' (m @ concat ds)"
proof (induction ds arbitrary: c m)
  case Nil
  then show ?case by (simp add: upd_all_def)
next
  case (Cons d ds)
  obtain c1 where "upd c d = Some c1" "fed c1 (m @ d)"
    using fed_upd [OF Cons.prems] by blast
  with Cons.IH [of c1 "m @ d"] show ?case by (auto simp: upd_all_Cons)
qed

text \<open>However a message is cut into pieces, the digest is the hash of the whole message.\<close>

lemma digest_of_pieces:
  assumes "valid c"
  shows "\<exists>c' c''. upd_all (ini c) ds = Some c' \<and> fin c' = Some (c'', hash (concat ds))"
  using fed_upd_all [OF fed_ini [OF assms], of ds] fin_hash by fastforce

end

definition sha_fed :: "sha256_ctx \<Rightarrow> bytes \<Rightarrow> bool" where
  "sha_fed ctx m \<longleftrightarrow> sha_rep ctx m \<and> bit_count ctx = word_of_nat (8 * length m)"

definition ctx_valid :: "sha256_ctx \<Rightarrow> bool" where
  "ctx_valid ctx \<longleftrightarrow> length (buffer ctx) = SHA256_BLOCK_SIZE"

interpretation sha: stream_hash sha256_init sha256_update sha256_final ctx_valid sha_fed sha256
proof
  fix c
  assume "ctx_valid c"
  then show "sha_fed (sha256_init c) []"
    by (simp add: ctx_valid_def sha_fed_def sha_rep_def absorbed_def sha256_init_def fips_H0_def)
next
  fix c m d
  assume "sha_fed c m"
  then show "\<exists>c'. sha256_update c d = Some c' \<and> sha_fed c' (m @ d)"
    using sha256_update_ok [of c m d] by (auto simp: sha_fed_def algebra_simps)
next
  fix c m
  assume "sha_fed c m"
  then show "\<exists>c'. sha256_final c = Some (c', sha256 m)"
    using sha256_final_ok by (auto simp: sha_fed_def)
qed

end
