(* ===== verification/Rtrv_Posix.thy ===== *)
theory Rtrv_Posix
  imports Rtrv_Prelude "HOL-Library.AList"
begin

text \<open>
  What the client uses of C and POSIX, as commands over an explicit world: one connected stream
  socket, a file system, the heap and the open streams, standard output and standard error.
  The behaviour that the program cannot control is data of the world: \<open>rx\<close> lists what successive
  \<open>recv\<close> calls find (pieces of any size, interruptions, an error; the end of the list is the peer
  closing), \<open>tx_plan\<close> how much successive \<open>send\<close> calls accept, and \<open>faults\<close> which of the calls
  that may fail for outside reasons (memory, permissions, a full disk) do fail. Theorems quantify
  over all three. Nobody else touches the files while the client runs.
\<close>

section \<open>The world\<close>

datatype rx_event = RxData bytes | RxEintr | RxErr
datatype tx_event = TxAccept nat | TxEintr | TxErr
datatype fault = NoFault | Fault nat

text \<open>A file system node: a regular file with its contents, or a directory with its \<open>st_size\<close>.\<close>

datatype node = File bytes | Dir nat

text \<open>A path resolves to a flag (absolute or not) and its components.\<close>

type_synonym path = "bool \<times> string list"
type_synonym filesys = "(path \<times> node) list"

text \<open>
  What a client prints on standard error (one constructor per message; the last group belongs to the
  Python client) and on standard output.
\<close>

datatype diag =
    ReadFailed | ClosedEarly | WriteFailed
  | CannotResolve string string | CannotConnect string string
  | BadMagic | WrongVersion byte | OversizedPayload u64 | OutOfMemory
  | MalformedError | WrongErrorLength | ServerError bytes byte
  | PathTooLong string | ExistsLocally string | NameTooLong | OversizedErrorFrame
  | UnexpectedReply byte string
  | CannotWrite string | DownloadInterrupted | CannotWriteTo string | CannotFlush string
  | CannotReread string | HashMismatch | CannotRename string string
  | NotFoundLocally string | CannotRead string | ResumePastEnd | CannotOpen string
  | CannotSeek string | ChangedSize string
  | Usage string | UnknownCommand string | StdinFailed
  | CannotReach string int | RefusedConnection string | Refused string | EmptyListing | BadPort
  | ProtocolError string | StoppedResponding | ConnectionFailed

datatype msg =
    Resuming string u64 | Downloaded string u64 string
  | ResumingUpload u64 | Uploaded string u64 string
  | Listed bytes | HexDigest string

record world =
  rx :: "rx_event list"
  tx :: bytes
  tx_plan :: "tx_event list"
  fs :: filesys
  faults :: "fault list"
  allocs :: nat
  open_files :: nat
  out :: "msg list"
  err :: "diag list"

section \<open>Commands\<close>

type_synonym 'a cmd = "world \<Rightarrow> 'a outcome \<times> world"

definition ret :: "'a \<Rightarrow> 'a cmd" where
  "ret x w = (Ok x, w)"

definition failed :: "'a cmd" where
  "failed w = (Fail, w)"

text \<open>Print a reason on standard error; print it and return -1.\<close>

definition complain :: "diag \<Rightarrow> unit cmd" where
  "complain d w = (Ok (), w\<lparr>err := err w @ [d]\<rparr>)"

definition die :: "diag \<Rightarrow> 'a cmd" where
  "die d w = (Fail, w\<lparr>err := err w @ [d]\<rparr>)"

definition print :: "msg \<Rightarrow> unit cmd" where
  "print m w = (Ok (), w\<lparr>out := out w @ [m]\<rparr>)"

text \<open>A memory access: outside the array it is undefined behaviour.\<close>

definition access :: "'a option \<Rightarrow> 'a cmd" where
  "access a w = (case a of None \<Rightarrow> (Undef, w) | Some x \<Rightarrow> (Ok x, w))"

text \<open>
  \<open>andthen m f\<close> is a call whose failure is passed on; \<open>attempt m f g\<close> is a call with a failure
  branch of its own. Undefined behaviour is never caught.
\<close>

definition attempt :: "'a cmd \<Rightarrow> ('a \<Rightarrow> 'b cmd) \<Rightarrow> 'b cmd \<Rightarrow> 'b cmd" where
  "attempt m f g w =
     (case m w of (Ok x, w') \<Rightarrow> f x w' | (Fail, w') \<Rightarrow> g w' | (Undef, w') \<Rightarrow> (Undef, w'))"

definition andthen :: "'a cmd \<Rightarrow> ('a \<Rightarrow> 'b cmd) \<Rightarrow> 'b cmd" where
  "andthen m f = attempt m f failed"

section \<open>Sockets\<close>

datatype recv_result = RecvBytes bytes | RecvEintr | RecvError

text \<open>\<open>recv\<close> of at most \<open>n\<close> bytes (\<open>n > 0\<close>); no bytes means that the peer has closed.\<close>

definition recv :: "nat \<Rightarrow> world \<Rightarrow> recv_result \<times> world" where
  "recv n w =
     (case rx w of
        [] \<Rightarrow> (RecvBytes [], w)
      | RxEintr # r \<Rightarrow> (RecvEintr, w\<lparr>rx := r\<rparr>)
      | RxErr # r \<Rightarrow> (RecvError, w\<lparr>rx := r\<rparr>)
      | RxData bs # r \<Rightarrow>
          (RecvBytes (take n bs), w\<lparr>rx := (if length bs \<le> n then r else RxData (drop n bs) # r)\<rparr>))"

datatype send_result = SentBytes nat | SendEintr | SendError

definition send :: "bytes \<Rightarrow> world \<Rightarrow> send_result \<times> world" where
  "send bs w =
     (case tx_plan w of
        [] \<Rightarrow> (SentBytes (length bs), w\<lparr>tx := tx w @ bs\<rparr>)
      | TxEintr # r \<Rightarrow> (SendEintr, w\<lparr>tx_plan := r\<rparr>)
      | TxErr # r \<Rightarrow> (SendError, w\<lparr>tx_plan := r\<rparr>)
      | TxAccept k # r \<Rightarrow>
          (SentBytes (min k (length bs)), w\<lparr>tx := tx w @ take k bs, tx_plan := r\<rparr>))"

section \<open>The heap\<close>

definition next_fault :: "world \<Rightarrow> fault \<times> world" where
  "next_fault w = (case faults w of [] \<Rightarrow> (NoFault, w) | f # r \<Rightarrow> (f, w\<lparr>faults := r\<rparr>))"

text \<open>\<open>malloc\<close> answers whether it gave memory; releasing more than is held is undefined.\<close>

definition malloc :: "bool cmd" where
  "malloc w = (case next_fault w of
     (NoFault, w) \<Rightarrow> (Ok True, w\<lparr>allocs := Suc (allocs w)\<rparr>)
   | (Fault _, w) \<Rightarrow> (Ok False, w))"

definition free :: "'a option \<Rightarrow> unit cmd" where
  "free p w =
     (case p of
        None \<Rightarrow> (Ok (), w)
      | Some _ \<Rightarrow> (case allocs w of 0 \<Rightarrow> (Undef, w) | Suc n \<Rightarrow> (Ok (), w\<lparr>allocs := n\<rparr>)))"

section \<open>Paths\<close>

fun split_slash :: "string \<Rightarrow> string list" where
  "split_slash [] = [[]]"
| "split_slash (c # s) =
     (if c = CHR ''/'' then [] # split_slash s
      else case split_slash s of [] \<Rightarrow> [[c]] | x # xs \<Rightarrow> (c # x) # xs)"

definition resolve :: "string \<Rightarrow> path" where
  "resolve p = (p \<noteq> [] \<and> hd p = CHR ''/'',
     filter (\<lambda>c. c \<noteq> [] \<and> c \<noteq> ''.'') (split_slash p))"

definition is_dir :: "filesys \<Rightarrow> path \<Rightarrow> bool" where
  "is_dir f k = (snd k = [] \<or> (case map_of f k of Some (Dir n) \<Rightarrow> True | _ \<Rightarrow> False))"

definition parent :: "path \<Rightarrow> path" where
  "parent k = (fst k, butlast (snd k))"

text \<open>What \<open>stat\<close> finds: nothing at the empty path, no regular file under a trailing slash.\<close>

definition node_at :: "filesys \<Rightarrow> string \<Rightarrow> node option" where
  "node_at f p =
     (if p = [] then None
      else if snd (resolve p) = [] then Some (Dir 0)
      else case map_of f (resolve p) of
             Some (File c) \<Rightarrow> (if last p = CHR ''/'' then None else Some (File c))
           | r \<Rightarrow> r)"

definition stat :: "string \<Rightarrow> node option cmd" where
  "stat p w = (Ok (node_at (fs w) p), w)"

definition st_size :: "node \<Rightarrow> nat" where
  "st_size n = (case n of File c \<Rightarrow> length c | Dir k \<Rightarrow> k)"

text \<open>A name that a file can be created under.\<close>

definition creatable :: "filesys \<Rightarrow> string \<Rightarrow> bool" where
  "creatable f p \<longleftrightarrow> p \<noteq> [] \<and> last p \<noteq> CHR ''/'' \<and> snd (resolve p) \<noteq> [] \<and>
     is_dir f (parent (resolve p)) \<and> \<not> is_dir f (resolve p)"

section \<open>Streams\<close>

text \<open>An output stream: the file it appends to and the file's length when it was opened.\<close>

record ofile =
  of_path :: path
  of_base :: nat

definition contents :: "filesys \<Rightarrow> path \<Rightarrow> bytes" where
  "contents f k = (case map_of f k of Some (File c) \<Rightarrow> c | _ \<Rightarrow> [])"

text \<open>\<open>fopen\<close> with mode \<open>ab\<close> (\<open>app\<close>) or \<open>wb\<close>.\<close>

definition fopen_out :: "string \<Rightarrow> bool \<Rightarrow> ofile option cmd" where
  "fopen_out p app w =
     (case next_fault w of
        (Fault _, w) \<Rightarrow> (Ok None, w)
      | (NoFault, w) \<Rightarrow>
          if creatable (fs w) p then
            let k = resolve p; c = (if app then contents (fs w) k else [])
            in (Ok (Some \<lparr>of_path = k, of_base = length c\<rparr>),
                w\<lparr>fs := AList.update k (File c) (fs w), open_files := Suc (open_files w)\<rparr>)
          else (Ok None, w))"

text \<open>\<open>fwrite\<close> returns the number of bytes it took; a fault makes it stop early.\<close>

definition fwrite :: "ofile \<Rightarrow> bytes \<Rightarrow> nat cmd" where
  "fwrite h bs w =
     (case next_fault w of
        (NoFault, w) \<Rightarrow>
          (Ok (length bs),
           w\<lparr>fs := AList.update (of_path h) (File (contents (fs w) (of_path h) @ bs)) (fs w)\<rparr>)
      | (Fault k, w) \<Rightarrow>
          (Ok (min k (length bs)),
           w\<lparr>fs := AList.update (of_path h) (File (contents (fs w) (of_path h) @ take k bs)) (fs w)\<rparr>))"

text \<open>
  \<open>fclose\<close> flushes. When the flush fails, some of the last bytes written through this stream are
  not in the file; the stream is released either way.
\<close>

definition fclose_out :: "ofile \<Rightarrow> bool cmd" where
  "fclose_out h w =
     (case open_files w of
        0 \<Rightarrow> (Undef, w)
      | Suc n \<Rightarrow>
          (case next_fault (w\<lparr>open_files := n\<rparr>) of
             (NoFault, w) \<Rightarrow> (Ok True, w)
           | (Fault k, w) \<Rightarrow>
               (let c = contents (fs w) (of_path h) in
                (Ok False, w\<lparr>fs := AList.update (of_path h)
                    (File (take (max (of_base h) (length c - k)) c)) (fs w)\<rparr>))))"

text \<open>An input stream: the file, the position, the error indicator. A directory cannot be read.\<close>

record ifile =
  if_path :: path
  if_pos :: nat
  if_error :: bool

definition fopen_in :: "string \<Rightarrow> ifile option cmd" where
  "fopen_in p w =
     (case next_fault w of
        (Fault _, w) \<Rightarrow> (Ok None, w)
      | (NoFault, w) \<Rightarrow>
          (case node_at (fs w) p of
             None \<Rightarrow> (Ok None, w)
           | Some _ \<Rightarrow>
               (Ok (Some \<lparr>if_path = resolve p, if_pos = 0, if_error = False\<rparr>),
                w\<lparr>open_files := Suc (open_files w)\<rparr>)))"

definition fread :: "ifile \<Rightarrow> nat \<Rightarrow> (bytes \<times> ifile) cmd" where
  "fread h n w =
     (if is_dir (fs w) (if_path h) then (Ok ([], h\<lparr>if_error := True\<rparr>), w)
      else
        let bs = take n (drop (if_pos h) (contents (fs w) (if_path h)))
        in case next_fault w of
             (NoFault, w) \<Rightarrow> (Ok (bs, h\<lparr>if_pos := if_pos h + length bs\<rparr>), w)
           | (Fault k, w) \<Rightarrow>
               (Ok (take k bs, h\<lparr>if_pos := if_pos h + length (take k bs), if_error := True\<rparr>), w))"

definition fseek :: "ifile \<Rightarrow> nat \<Rightarrow> ifile option cmd" where
  "fseek h n w =
     (case next_fault w of
        (NoFault, w) \<Rightarrow> (Ok (Some (h\<lparr>if_pos := n\<rparr>)), w)
      | (Fault _, w) \<Rightarrow> (Ok None, w))"

definition fclose_in :: "ifile \<Rightarrow> unit cmd" where
  "fclose_in h w = (case open_files w of 0 \<Rightarrow> (Undef, w) | Suc n \<Rightarrow> (Ok (), w\<lparr>open_files := n\<rparr>))"

section \<open>Directories, removal, renaming\<close>

definition entries :: "filesys \<Rightarrow> path \<Rightarrow> string list" where
  "entries f d = ''.'' # ''..'' #
     map (last \<circ> snd) (filter (\<lambda>k. snd k \<noteq> [] \<and> parent k = d) (map fst f))"

definition opendir :: "string \<Rightarrow> string list option cmd" where
  "opendir p w =
     (case next_fault w of
        (Fault _, w) \<Rightarrow> (Ok None, w)
      | (NoFault, w) \<Rightarrow>
          if p \<noteq> [] \<and> is_dir (fs w) (resolve p)
          then (Ok (Some (entries (fs w) (resolve p))), w\<lparr>open_files := Suc (open_files w)\<rparr>)
          else (Ok None, w))"

definition closedir :: "unit cmd" where
  "closedir w = (case open_files w of 0 \<Rightarrow> (Undef, w) | Suc n \<Rightarrow> (Ok (), w\<lparr>open_files := n\<rparr>))"

text \<open>\<open>remove\<close> unlinks a file, or an empty directory; the program ignores its result.\<close>

definition remove :: "string \<Rightarrow> unit cmd" where
  "remove p w =
     (case next_fault w of
        (Fault _, w) \<Rightarrow> (Ok (), w)
      | (NoFault, w) \<Rightarrow>
          (case node_at (fs w) p of
             Some (File _) \<Rightarrow> (Ok (), w\<lparr>fs := AList.delete (resolve p) (fs w)\<rparr>)
           | Some (Dir _) \<Rightarrow>
               if snd (resolve p) \<noteq> [] \<and> length (entries (fs w) (resolve p)) = 2
               then (Ok (), w\<lparr>fs := AList.delete (resolve p) (fs w)\<rparr>) else (Ok (), w)
           | None \<Rightarrow> (Ok (), w)))"

text \<open>\<open>rename\<close> of a regular file, replacing a file at the new name in one step.\<close>

definition rename :: "string \<Rightarrow> string \<Rightarrow> bool cmd" where
  "rename a b w =
     (case next_fault w of
        (Fault _, w) \<Rightarrow> (Ok False, w)
      | (NoFault, w) \<Rightarrow>
          (case node_at (fs w) a of
             Some (File c) \<Rightarrow>
               if creatable (fs w) b
               then (Ok True, w\<lparr>fs := AList.update (resolve b) (File c)
                                          (AList.delete (resolve a) (fs w))\<rparr>)
               else (Ok False, w)
           | _ \<Rightarrow> (Ok False, w)))"

section \<open>Weakest preconditions\<close>

text \<open>
  \<open>wp m Q w\<close>: running \<open>m\<close> in \<open>w\<close> ends with an outcome and a world that satisfy \<open>Q\<close>. Every
  command ends, so this is total correctness; the component theories give one rule per command.
\<close>

definition wp :: "'a cmd \<Rightarrow> ('a outcome \<Rightarrow> world \<Rightarrow> bool) \<Rightarrow> world \<Rightarrow> bool" where
  "wp m Q w = (case m w of (r, w') \<Rightarrow> Q r w')"

lemma wpD: "wp m Q w \<Longrightarrow> m w = (r, w') \<Longrightarrow> Q r w'"
  by (simp add: wp_def)

lemma wp_run: "m w = (r, w') \<Longrightarrow> wp m Q w = Q r w'"
  by (simp add: wp_def)

lemma wp_OkD:
  "wp m (\<lambda>r w'. case r of Ok x \<Rightarrow> P x w' | _ \<Rightarrow> False) w \<Longrightarrow> \<exists>x w'. m w = (Ok x, w') \<and> P x w'"
  by (cases "m w"; cases "fst (m w)") (auto simp: wp_def)

lemma wp_mono: "wp m P w \<Longrightarrow> (\<And>r w'. P r w' \<Longrightarrow> Q r w') \<Longrightarrow> wp m Q w"
  by (auto simp: wp_def)

lemma wp_ret [wp_simps]: "wp (ret x) Q w = Q (Ok x) w"
  by (simp add: wp_def ret_def)

lemma wp_failed [wp_simps]: "wp failed Q w = Q Fail w"
  by (simp add: wp_def failed_def)

lemma wp_complain [wp_simps]: "wp (complain d) Q w = Q (Ok ()) (w\<lparr>err := err w @ [d]\<rparr>)"
  by (simp add: wp_def complain_def)

lemma wp_die [wp_simps]: "wp (die d) Q w = Q Fail (w\<lparr>err := err w @ [d]\<rparr>)"
  by (simp add: wp_def die_def)

lemma wp_print [wp_simps]: "wp (print m) Q w = Q (Ok ()) (w\<lparr>out := out w @ [m]\<rparr>)"
  by (simp add: wp_def print_def)

lemma wp_access [wp_simps]: "wp (access (Some x)) Q w = Q (Ok x) w"
  by (simp add: wp_def access_def)

lemma wp_attempt [wp_simps]:
  "wp (attempt m f g) Q w =
     wp m (\<lambda>r w'. case r of Ok x \<Rightarrow> wp (f x) Q w' | Fail \<Rightarrow> wp g Q w' | Undef \<Rightarrow> Q Undef w') w"
  by (auto simp: wp_def attempt_def split: outcome.splits prod.splits)

lemma andthen_assoc: "andthen (andthen m f) g = andthen m (\<lambda>x. andthen (f x) g)"
  by (auto simp: andthen_def attempt_def failed_def fun_eq_iff split: outcome.split prod.split)

lemma wp_andthen [wp_simps]:
  "wp (andthen m f) Q w =
     wp m (\<lambda>r w'. case r of Ok x \<Rightarrow> wp (f x) Q w' | Fail \<Rightarrow> Q Fail w' | Undef \<Rightarrow> Q Undef w') w"
  by (auto simp: wp_def andthen_def attempt_def failed_def split: outcome.splits prod.splits)

lemma wp_stat [wp_simps]: "wp (stat p) Q w = Q (Ok (node_at (fs w) p)) w"
  by (simp add: wp_def stat_def)

lemma wp_if: "(b \<Longrightarrow> wp m Q w) \<Longrightarrow> (\<not> b \<Longrightarrow> wp m' Q w) \<Longrightarrow> wp (if b then m else m') Q w"
  by simp

section \<open>Rules for the calls that may fail\<close>

text \<open>The fault script is the only part of the world that a fault changes.\<close>

lemma next_fault_cases:
  obtains f where "next_fault w = (NoFault, w\<lparr>faults := f\<rparr>)"
  | k f where "next_fault w = (Fault k, w\<lparr>faults := f\<rparr>)"
proof (cases "faults w")
  case Nil
  then have "next_fault w = (NoFault, w\<lparr>faults := []\<rparr>)" by (simp add: next_fault_def)
  then show ?thesis by (rule that(1))
next
  case (Cons a f)
  then show ?thesis using that by (cases a) (simp_all add: next_fault_def)
qed

lemma wp_malloc:
  assumes "\<And>f. Q (Ok True) (w\<lparr>faults := f, allocs := Suc (allocs w)\<rparr>)"
    and "\<And>f. Q (Ok False) (w\<lparr>faults := f\<rparr>)"
  shows "wp malloc Q w"
  by (cases w rule: next_fault_cases) (simp_all add: wp_def malloc_def assms)

lemma wp_free_None [wp_simps]: "wp (free None) Q w = Q (Ok ()) w"
  by (simp add: wp_def free_def)

lemma wp_free_Some [wp_simps]:
  "allocs w = Suc n \<Longrightarrow> wp (free (Some p)) Q w = Q (Ok ()) (w\<lparr>allocs := n\<rparr>)"
  by (simp add: wp_def free_def)

lemma wp_fopen_out:
  assumes "\<And>f. Q (Ok None) (w\<lparr>faults := f\<rparr>)"
    and "\<And>f c. creatable (fs w) p \<Longrightarrow>
      c = (if app then contents (fs w) (resolve p) else []) \<Longrightarrow>
      Q (Ok (Some \<lparr>of_path = resolve p, of_base = length c\<rparr>))
        (w\<lparr>faults := f, fs := AList.update (resolve p) (File c) (fs w), open_files := Suc (open_files w)\<rparr>)"
  shows "wp (fopen_out p app) Q w"
  by (cases w rule: next_fault_cases) (simp_all add: wp_def fopen_out_def Let_def assms)

lemma wp_fwrite:
  assumes "\<And>f n. n \<le> length bs \<Longrightarrow>
      Q (Ok n) (w\<lparr>faults := f,
        fs := AList.update (of_path h) (File (contents (fs w) (of_path h) @ take n bs)) (fs w)\<rparr>)"
  shows "wp (fwrite h bs) Q w"
proof (cases w rule: next_fault_cases)
  case (1 f)
  then show ?thesis using assms [of "length bs" f] by (simp add: wp_def fwrite_def)
next
  case (2 k f)
  moreover have "take (min k (length bs)) bs = take k bs"
    by (cases "k \<le> length bs") (simp_all add: min_def)
  ultimately show ?thesis using assms [of "min k (length bs)" f]
    by (simp add: wp_def fwrite_def)
qed

lemma wp_fclose_out:
  assumes "open_files w = Suc n"
    and "\<And>f. Q (Ok True) (w\<lparr>open_files := n, faults := f\<rparr>)"
    and "\<And>f m c. c = contents (fs w) (of_path h) \<Longrightarrow> of_base h \<le> m \<Longrightarrow>
      Q (Ok False) (w\<lparr>open_files := n, faults := f, fs := AList.update (of_path h) (File (take m c)) (fs w)\<rparr>)"
  shows "wp (fclose_out h) Q w"
proof (cases "w\<lparr>open_files := n\<rparr>" rule: next_fault_cases)
  case (1 f)
  then show ?thesis using assms(1) assms(2) [of f]
    by (simp add: wp_def fclose_out_def)
next
  case (2 k f)
  have "Q (Ok False) (w\<lparr>open_files := n, faults := f, fs := AList.update (of_path h)
      (File (take (max (of_base h) (length (contents (fs w) (of_path h)) - k)) (contents (fs w) (of_path h)))) (fs w)\<rparr>)"
    by (rule assms(3)) simp_all
  then show ?thesis using 2 assms(1)
    by (simp add: wp_def fclose_out_def Let_def)
qed

lemma wp_fopen_in:
  assumes "\<And>f. Q (Ok None) (w\<lparr>faults := f\<rparr>)"
    and "\<And>f n. node_at (fs w) p = Some n \<Longrightarrow>
      Q (Ok (Some \<lparr>if_path = resolve p, if_pos = 0, if_error = False\<rparr>))
        (w\<lparr>faults := f, open_files := Suc (open_files w)\<rparr>)"
  shows "wp (fopen_in p) Q w"
  by (cases w rule: next_fault_cases)
    (simp_all add: wp_def fopen_in_def assms split: option.split)

lemma wp_fclose_in [wp_simps]:
  "open_files w = Suc n \<Longrightarrow> wp (fclose_in h) Q w = Q (Ok ()) (w\<lparr>open_files := n\<rparr>)"
  by (simp add: wp_def fclose_in_def)

lemma wp_closedir [wp_simps]:
  "open_files w = Suc n \<Longrightarrow> wp closedir Q w = Q (Ok ()) (w\<lparr>open_files := n\<rparr>)"
  by (simp add: wp_def closedir_def)

lemma wp_opendir:
  assumes "\<And>f. Q (Ok None) (w\<lparr>faults := f\<rparr>)"
    and "\<And>f. is_dir (fs w) (resolve p) \<Longrightarrow>
      Q (Ok (Some (entries (fs w) (resolve p)))) (w\<lparr>faults := f, open_files := Suc (open_files w)\<rparr>)"
  shows "wp (opendir p) Q w"
  by (cases w rule: next_fault_cases) (simp_all add: wp_def opendir_def assms)

lemma wp_remove:
  assumes "\<And>f. Q (Ok ()) (w\<lparr>faults := f\<rparr>)"
    and "\<And>f n. node_at (fs w) p = Some n \<Longrightarrow>
      Q (Ok ()) (w\<lparr>faults := f, fs := AList.delete (resolve p) (fs w)\<rparr>)"
  shows "wp (remove p) Q w"
  by (cases w rule: next_fault_cases)
    (simp_all add: wp_def remove_def assms split: option.split node.split)

lemma wp_rename:
  assumes "\<And>f. Q (Ok False) (w\<lparr>faults := f\<rparr>)"
    and "\<And>f c. node_at (fs w) a = Some (File c) \<Longrightarrow> creatable (fs w) b \<Longrightarrow>
      Q (Ok True) (w\<lparr>faults := f,
        fs := AList.update (resolve b) (File c) (AList.delete (resolve a) (fs w))\<rparr>)"
  shows "wp (rename a b) Q w"
  by (cases w rule: next_fault_cases)
    (simp_all add: wp_def rename_def assms split: option.split node.split)

section \<open>Undisturbed runs\<close>

text \<open>With an empty fault script a call fails only for a reason that the file system shows.\<close>

lemma next_fault_none [simp]: "faults w = [] \<Longrightarrow> next_fault w = (NoFault, w)"
  by (simp add: next_fault_def)

named_theorems undisturbed "calls when nothing fails for outside reasons"

lemma wp_malloc_calm [undisturbed]:
  "faults w = [] \<Longrightarrow> wp malloc Q w = Q (Ok True) (w\<lparr>allocs := Suc (allocs w)\<rparr>)"
  by (simp add: wp_def malloc_def)

lemma wp_fopen_out_calm [undisturbed]:
  "faults w = [] \<Longrightarrow> creatable (fs w) p \<Longrightarrow> c = (if app then contents (fs w) (resolve p) else []) \<Longrightarrow>
   wp (fopen_out p app) Q w =
     Q (Ok (Some \<lparr>of_path = resolve p, of_base = length c\<rparr>))
       (w\<lparr>fs := AList.update (resolve p) (File c) (fs w), open_files := Suc (open_files w)\<rparr>)"
  by (simp add: wp_def fopen_out_def Let_def)

lemma wp_fwrite_calm [undisturbed]:
  "faults w = [] \<Longrightarrow> wp (fwrite h bs) Q w =
     Q (Ok (length bs))
       (w\<lparr>fs := AList.update (of_path h) (File (contents (fs w) (of_path h) @ bs)) (fs w)\<rparr>)"
  by (simp add: wp_def fwrite_def)

lemma wp_fclose_out_calm [undisturbed]:
  "faults w = [] \<Longrightarrow> open_files w = Suc n \<Longrightarrow> wp (fclose_out h) Q w = Q (Ok True) (w\<lparr>open_files := n\<rparr>)"
  by (simp add: wp_def fclose_out_def)

lemma wp_fopen_in_calm [undisturbed]:
  "faults w = [] \<Longrightarrow> node_at (fs w) p = Some n \<Longrightarrow> wp (fopen_in p) Q w =
     Q (Ok (Some \<lparr>if_path = resolve p, if_pos = 0, if_error = False\<rparr>)) (w\<lparr>open_files := Suc (open_files w)\<rparr>)"
  by (simp add: wp_def fopen_in_def)

lemma wp_fseek_calm [undisturbed]:
  "faults w = [] \<Longrightarrow> wp (fseek h n) Q w = Q (Ok (Some (h\<lparr>if_pos := n\<rparr>))) w"
  by (simp add: wp_def fseek_def)

lemma wp_rename_calm [undisturbed]:
  "faults w = [] \<Longrightarrow> node_at (fs w) a = Some (File c) \<Longrightarrow> creatable (fs w) b \<Longrightarrow>
   wp (rename a b) Q w =
     Q (Ok True) (w\<lparr>fs := AList.update (resolve b) (File c) (AList.delete (resolve a) (fs w))\<rparr>)"
  by (simp add: wp_def rename_def)

lemma wp_remove_calm:
  assumes "faults w = []" and "Q (Ok ()) w"
    and "\<And>n. node_at (fs w) p = Some n \<Longrightarrow> Q (Ok ()) (w\<lparr>fs := AList.delete (resolve p) (fs w)\<rparr>)"
  shows "wp (remove p) Q w"
  using assms by (simp add: wp_def remove_def split: option.split node.split)

lemma opendir_calm:
  "faults w = [] \<Longrightarrow> opendir p w =
     (if p \<noteq> [] \<and> is_dir (fs w) (resolve p)
      then (Ok (Some (entries (fs w) (resolve p))), w\<lparr>open_files := Suc (open_files w)\<rparr>) else (Ok None, w))"
  by (simp add: opendir_def)

section \<open>The contract of a keyed store\<close>

text \<open>
  What the transfer code relies on when it creates, removes and renames files: a lookup after an
  insertion or a deletion. \<open>same_except S\<close> is the frame condition of an operation on the keys \<open>S\<close>.
\<close>

locale keyed_store =
  fixes look :: "'s \<Rightarrow> 'k \<Rightarrow> 'v option"
    and put :: "'k \<Rightarrow> 'v \<Rightarrow> 's \<Rightarrow> 's"
    and del :: "'k \<Rightarrow> 's \<Rightarrow> 's"
  assumes look_put: "look (put k v s) k' = (if k' = k then Some v else look s k')"
    and look_del: "look (del k s) k' = (if k' = k then None else look s k')"
begin

definition same_except :: "'k set \<Rightarrow> 's \<Rightarrow> 's \<Rightarrow> bool" where
  "same_except S s s' \<longleftrightarrow> (\<forall>k. k \<notin> S \<longrightarrow> look s' k = look s k)"

lemma same_except_refl [intro, simp]: "same_except S s s"
  by (simp add: same_except_def)

lemma same_except_trans: "same_except S s s' \<Longrightarrow> same_except S s' s'' \<Longrightarrow> same_except S s s''"
  by (simp add: same_except_def)

lemma same_except_mono: "same_except S s s' \<Longrightarrow> S \<subseteq> T \<Longrightarrow> same_except T s s'"
  by (auto simp: same_except_def)

lemma same_except_put: "same_except S s s' \<Longrightarrow> k \<in> S \<Longrightarrow> same_except S s (put k v s')"
  by (auto simp: same_except_def look_put)

lemma same_except_del: "same_except S s s' \<Longrightarrow> k \<in> S \<Longrightarrow> same_except S s (del k s')"
  by (auto simp: same_except_def look_del)

lemma same_exceptD: "same_except S s s' \<Longrightarrow> k \<notin> S \<Longrightarrow> look s' k = look s k"
  by (simp add: same_except_def)

text \<open>Publishing: moving what is stored at one key to another.\<close>

lemma publish:
  "look (put b v (del a s)) b = Some v"
  "a \<noteq> b \<Longrightarrow> look (put b v (del a s)) a = None"
  "same_except {a, b} s (put b v (del a s))"
  by (auto simp: same_except_def look_put look_del)

end

interpretation files: keyed_store map_of AList.update AList.delete
  by unfold_locales (simp_all add: update_conv' delete_conv')

end
