(* ===== verification/Rtrv_Hash_File.thy ===== *)
theory Rtrv_Hash_File
  imports Rtrv_Sha256 Rtrv_Posix
begin

text \<open>
  \<open>sha256_file\<close> of \<open>src/c/sha256.c\<close>: a file read in pieces of 64 KiB and fed to the streaming hash.
\<close>

text \<open>The context on the stack before \<open>sha256_init\<close>; its contents do not matter.\<close>

definition stack_ctx :: sha256_ctx where
  "stack_ctx = \<lparr>state = [], bit_count = 0, buffer = replicate SHA256_BLOCK_SIZE 0, buffered = 0\<rparr>"

lemma fread_cases:
  obtains (ok) g bs where "\<not> is_dir (fs w) (if_path h)"
      "bs = take n (drop (if_pos h) (contents (fs w) (if_path h)))"
      "fread h n w = (Ok (bs, h\<lparr>if_pos := if_pos h + length bs\<rparr>), w\<lparr>faults := g\<rparr>)"
      "faults w = [] \<Longrightarrow> g = []"
  | (broken) g bs k where "bs = take k (drop (if_pos h) (contents (fs w) (if_path h)))"
      "fread h n w = (Ok (bs, h\<lparr>if_pos := if_pos h + length bs, if_error := True\<rparr>), w\<lparr>faults := g\<rparr>)"
      "k \<le> n" "is_dir (fs w) (if_path h) \<or> faults w \<noteq> []" "faults w = [] \<Longrightarrow> g = []"
proof (cases "is_dir (fs w) (if_path h)")
  case True
  then have "fread h n w = (Ok ([], h\<lparr>if_pos := if_pos h + length [], if_error := True\<rparr>), w\<lparr>faults := faults w\<rparr>)"
    by (simp add: fread_def)
  then show ?thesis using True by (intro broken [of "[]" 0 "faults w"]) simp_all
next
  case False
  show ?thesis
  proof (cases rule: next_fault_cases [of w])
    case (1 f)
    have "f = []" if "faults w = []"
    proof -
      have "w = w\<lparr>faults := f\<rparr>" using 1 that by simp
      then have "faults w = faults (w\<lparr>faults := f\<rparr>)" by (rule arg_cong)
      with that show ?thesis by simp
    qed
    then show ?thesis by (intro ok [OF False refl]) (simp add: fread_def Let_def False 1)
  next
    case (2 k f)
    then have "faults w \<noteq> []" by auto
    then show ?thesis
      by (intro broken [of "take (min k n) (drop (if_pos h) (contents (fs w) (if_path h)))" "min k n"])
        (simp_all add: fread_def Let_def False 2)
  qed
qed

lemma fread_progress:
  assumes "fread h n w = (Ok (bs, h'), w')" and "bs \<noteq> []"
  shows "length (contents (fs w') (if_path h')) - if_pos h' < length (contents (fs w) (if_path h)) - if_pos h"
  using assms by (cases rule: fread_cases [of w h n]) auto

function hash_loop :: "sha256_ctx \<Rightarrow> ifile \<Rightarrow> (sha256_ctx \<times> ifile) cmd" where
  "hash_loop ctx f w =
     (case fread f 65536 w of
        (Ok (buf, f), w) \<Rightarrow>
          if buf = [] then (Ok (ctx, f), w)
          else (case sha256_update ctx buf of
                  None \<Rightarrow> (Undef, w)
                | Some ctx \<Rightarrow> hash_loop ctx f w)
      | (Fail, w) \<Rightarrow> (Fail, w)
      | (Undef, w) \<Rightarrow> (Undef, w))"
  by pat_completeness auto
termination
  by (relation "measure (\<lambda>(ctx, f, w). length (contents (fs w) (if_path f)) - if_pos f)")
    (auto dest!: fread_progress [OF sym])

declare hash_loop.simps [simp del]

definition sha256_file :: "string \<Rightarrow> bytes cmd" where
  "sha256_file path =
     andthen (fopen_in path) (\<lambda>f. case f of
        None \<Rightarrow> failed
      | Some f \<Rightarrow>
          andthen (hash_loop (sha256_init stack_ctx) f) (\<lambda>(ctx, f).
          andthen (fclose_in f) (\<lambda>_.
          if if_error f then failed
          else andthen (access (sha256_final ctx)) (\<lambda>(ctx, digest). ret digest))))"

section \<open>The loop reads the whole file\<close>

text \<open>
  With the error indicator clear, the context has been fed everything from the position to the end
  of the file; once set, the indicator stays set.
\<close>

lemma hash_loop_spec:
  assumes "sha_fed ctx m"
  shows "\<exists>g ctx' h' m'. hash_loop ctx h w = (Ok (ctx', h'), w\<lparr>faults := g\<rparr>) \<and> sha_fed ctx' m' \<and>
    (if_error h \<longrightarrow> if_error h') \<and>
    (\<not> if_error h' \<longrightarrow> \<not> is_dir (fs w) (if_path h) \<and>
       m' = m @ drop (if_pos h) (contents (fs w) (if_path h)))"
  using assms
proof (induction ctx h w arbitrary: m rule: hash_loop.induct)
  case (1 ctx h w)
  note unfold = hash_loop.simps [of ctx h w]
  show ?case
  proof (cases rule: fread_cases [of w h 65536])
    case (ok g bs)
    show ?thesis
    proof (cases "bs = []")
      case True
      then have "drop (if_pos h) (contents (fs w) (if_path h)) = []" using ok(2) by simp
      with True ok "1.prems" show ?thesis by (auto simp: unfold)
    next
      case False
      obtain c where c: "sha256_update ctx bs = Some c" "sha_fed c (m @ bs)"
        using sha.fed_upd [OF "1.prems"] by blast
      have "drop (if_pos h) (contents (fs w) (if_path h))
          = bs @ drop (if_pos h + length bs) (contents (fs w) (if_path h))"
        using drop_by_piece [OF ok(2)] by simp
      then show ?thesis
        using "1.IH" [OF ok(3) [symmetric] refl refl False c(1) c(2)] False c(1) ok(1,3)
        by (simp add: unfold)
    qed
  next
    case (broken g bs k)
    show ?thesis
    proof (cases "bs = []")
      case True
      with broken "1.prems" show ?thesis by (auto simp: unfold)
    next
      case False
      obtain c where c: "sha256_update ctx bs = Some c" "sha_fed c (m @ bs)"
        using sha.fed_upd [OF "1.prems"] by blast
      show ?thesis
        using "1.IH" [OF broken(2) [symmetric] refl refl False c(1) c(2)] False c(1) broken(2)
        by (simp add: unfold) blast
    qed
  qed
qed

lemma fed_stack_ctx: "sha_fed (sha256_init stack_ctx) []"
  by (rule sha.fed_ini) (simp add: ctx_valid_def stack_ctx_def)

lemma node_at_regular:
  assumes "node_at f p = Some n" and "\<not> is_dir f (resolve p)"
  shows "n = File (contents f (resolve p))"
  using assms by (auto simp: node_at_def is_dir_def contents_def split: if_splits option.splits node.splits)

text \<open>
  \<open>sha256_file\<close> answers with the hash of the whole file or fails; it leaves everything but the
  fault script as it was, and closes the stream on every path.
\<close>

lemma wp_sha256_file:
  assumes "\<And>g c. node_at (fs w) p = Some (File c) \<Longrightarrow> Q (Ok (sha256 c)) (w\<lparr>faults := g\<rparr>)"
    and "\<And>g. Q Fail (w\<lparr>faults := g\<rparr>)"
  shows "wp (sha256_file p) Q w"
  unfolding sha256_file_def wp_simps
proof (rule wp_fopen_in, goal_cases)
  case (1 f)
  then show ?case using assms(2) by (simp add: wp_simps)
next
  case (2 f n)
  let ?h = "\<lparr>if_path = resolve p, if_pos = 0, if_error = False\<rparr>"
  let ?w = "w\<lparr>faults := f, open_files := Suc (open_files w)\<rparr>"
  obtain g ctx h m where loop: "hash_loop (sha256_init stack_ctx) ?h ?w = (Ok (ctx, h), ?w\<lparr>faults := g\<rparr>)"
    "sha_fed ctx m" "\<not> if_error h \<longrightarrow> \<not> is_dir (fs w) (resolve p) \<and> m = contents (fs w) (resolve p)"
    using hash_loop_spec [OF fed_stack_ctx, of ?h ?w] by auto
  obtain c' where fin: "sha256_final ctx = Some (c', sha256 m)"
    using sha.fin_hash [OF loop(2)] by blast
  have "wp (hash_loop (sha256_init stack_ctx) ?h) R ?w = R (Ok (ctx, h)) (?w\<lparr>faults := g\<rparr>)" for R
    by (simp add: wp_def loop(1))
  moreover have "if_error h \<or> n = File m"
    using node_at_regular [OF 2] loop(3) by auto
  ultimately show ?case
    using fin 2 assms(1) [of m g] assms(2) [of g] by (auto simp: wp_simps)
qed

text \<open>Without faults it does answer.\<close>

lemma hash_loop_no_faults:
  assumes "sha_fed ctx m" and "faults w = []" and "\<not> if_error h" and "\<not> is_dir (fs w) (if_path h)"
  shows "\<exists>ctx' h'. hash_loop ctx h w = (Ok (ctx', h'), w) \<and> \<not> if_error h' \<and>
    sha_fed ctx' (m @ drop (if_pos h) (contents (fs w) (if_path h)))"
proof -
  have "\<exists>ctx' h' w'. hash_loop ctx h w = (Ok (ctx', h'), w') \<and> \<not> if_error h' \<and> w' = w"
    using assms
  proof (induction ctx h w arbitrary: m rule: hash_loop.induct)
    case (1 ctx h w)
    let ?bs = "take 65536 (drop (if_pos h) (contents (fs w) (if_path h)))"
    let ?h = "h\<lparr>if_pos := if_pos h + length ?bs\<rparr>"
    have fread: "fread h 65536 w = (Ok (?bs, ?h), w)"
      using "1.prems" by (simp add: fread_def next_fault_def Let_def)
    obtain c where c: "sha256_update ctx ?bs = Some c" "sha_fed c (m @ ?bs)"
      using sha.fed_upd [OF "1.prems"(1)] by blast
    show ?case
    proof (cases "?bs = []")
      case True
      with fread "1.prems" show ?thesis by (subst hash_loop.simps) simp
    next
      case False
      have "hash_loop ctx h w = hash_loop c ?h w"
        using fread False c(1) by (subst hash_loop.simps) simp
      with "1.IH" [OF fread [symmetric] refl refl False c(1) c(2)] "1.prems" show ?thesis
        by simp
    qed
  qed
  then show ?thesis
    using hash_loop_spec [OF assms(1), of h w] by auto
qed

lemma sha256_file_no_faults:
  assumes "faults w = []" and "node_at (fs w) p = Some (File c)"
  shows "sha256_file p w = (Ok (sha256 c), w)"
proof -
  let ?h = "\<lparr>if_path = resolve p, if_pos = 0, if_error = False\<rparr>"
  let ?w = "w\<lparr>open_files := Suc (open_files w)\<rparr>"
  have reg: "\<not> is_dir (fs w) (resolve p)" "contents (fs w) (resolve p) = c"
    using assms(2) by (auto simp: node_at_def is_dir_def contents_def split: if_splits option.splits node.splits)
  have "fopen_in p w = (Ok (Some ?h), ?w)"
    using assms by (simp add: fopen_in_def next_fault_def)
  moreover obtain ctx h where "hash_loop (sha256_init stack_ctx) ?h ?w = (Ok (ctx, h), ?w)"
    "\<not> if_error h" "sha_fed ctx c"
    using hash_loop_no_faults [OF fed_stack_ctx, of ?w ?h] assms(1) reg by auto
  moreover obtain c' where "sha256_final ctx = Some (c', sha256 c)"
    using sha.fin_hash [OF \<open>sha_fed ctx c\<close>] by blast
  ultimately show ?thesis
    by (simp add: sha256_file_def andthen_def attempt_def fclose_in_def access_def ret_def)
qed

end
