(* ===== verification/Rtrv_Sha_Vectors.thy ===== *)
theory Rtrv_Sha_Vectors
  imports Rtrv_Hash_File
begin

text \<open>
  A test vector of the standard, evaluated in the kernel on the model of \<open>src/c/sha256.c\<close>: it ties
  both the model and the reference definition to a published digest.
\<close>

text \<open>
  The digest of the three bytes \<open>abc\<close> is the one that the standard publishes, computed by the C
  routines and by the reference definition alike.
\<close>

theorem sha256_vector_abc:
  "map_option snd (Option.bind (sha256_update (sha256_init stack_ctx) [0x61, 0x62, 0x63]) sha256_final) =
     Some (concat (map (be_bytes 4) [0xba7816bf, 0x8f01cfea, 0x414140de, 0x5dae2223,
       0xb00361a3, 0x96177a9c, 0xb410ff61, 0xf20015ad :: u32])) \<and>
   sha256 [0x61, 0x62, 0x63] = concat (map (be_bytes 4) [0xba7816bf, 0x8f01cfea, 0x414140de, 0x5dae2223,
       0xb00361a3, 0x96177a9c, 0xb410ff61, 0xf20015ad :: u32])"
proof -
  have "map_option snd (Option.bind (sha256_update (sha256_init stack_ctx) [0x61, 0x62, 0x63]) sha256_final) =
     Some (concat (map (be_bytes 4) [0xba7816bf, 0x8f01cfea, 0x414140de, 0x5dae2223,
       0xb00361a3, 0x96177a9c, 0xb410ff61, 0xf20015ad :: u32]))"
    by code_simp
  moreover obtain c c' where "sha256_update (sha256_init stack_ctx) [0x61, 0x62, 0x63] = Some c"
      "sha256_final c = Some (c', sha256 [0x61, 0x62, 0x63])"
    using sha.fed_upd [OF fed_stack_ctx, of "[0x61, 0x62, 0x63]"] sha.fin_hash by fastforce
  ultimately show ?thesis by simp
qed

end
