(* ===== verification/Rtrv_Frame.thy ===== *)
theory Rtrv_Frame
  imports Rtrv_Bytes Rtrv_Posix
begin

text \<open>
  The socket helpers and the frame layer of \<open>src/c/frame.c\<close> with the constants of
  \<open>src/c/retriever.h\<close>: exact reads and complete writes over a socket that delivers and accepts
  pieces of any size, frame headers, whole frames, and the report of an ERROR frame.
  Arrays are passed with their contents and handed back with what was written into them.
\<close>

section \<open>Protocol constants\<close>

definition RTRV_MAGIC :: bytes where "RTRV_MAGIC = map of_char ''RTRV''"
definition RTRV_MAGIC_LEN :: nat where "RTRV_MAGIC_LEN = 4"
definition RTRV_VERSION :: byte where "RTRV_VERSION = 3"
definition RTRV_HEADER_SIZE :: nat where "RTRV_HEADER_SIZE = 14"

definition RTRV_T_LIST :: byte where "RTRV_T_LIST = 0x00"
definition RTRV_T_GET :: byte where "RTRV_T_GET = 0x01"
definition RTRV_T_PUT :: byte where "RTRV_T_PUT = 0x02"
definition RTRV_T_HELLO :: byte where "RTRV_T_HELLO = 0x10"
definition RTRV_T_QUIT :: byte where "RTRV_T_QUIT = 0x11"
definition RTRV_T_OK :: byte where "RTRV_T_OK = 0x80"
definition RTRV_T_ERROR :: byte where "RTRV_T_ERROR = 0x81"

definition RTRV_E_BAD_NAME :: byte where "RTRV_E_BAD_NAME = 1"
definition RTRV_E_NOT_FOUND :: byte where "RTRV_E_NOT_FOUND = 2"
definition RTRV_E_ALREADY_EXISTS :: byte where "RTRV_E_ALREADY_EXISTS = 3"
definition RTRV_E_MALFORMED :: byte where "RTRV_E_MALFORMED = 4"
definition RTRV_E_UNSUPPORTED_VERSION :: byte where "RTRV_E_UNSUPPORTED_VERSION = 5"
definition RTRV_E_INTERNAL :: byte where "RTRV_E_INTERNAL = 6"
definition RTRV_E_TOO_LARGE :: byte where "RTRV_E_TOO_LARGE = 7"
definition RTRV_E_CORRUPT :: byte where "RTRV_E_CORRUPT = 8"

definition RTRV_PAYLOAD_CAP :: nat where "RTRV_PAYLOAD_CAP = 64 * 1024"
definition RTRV_TOKEN_SIZE :: nat where "RTRV_TOKEN_SIZE = 8"
definition RTRV_GET_META :: nat where "RTRV_GET_META = 48"
definition RTRV_MAX_NAME :: nat where "RTRV_MAX_NAME = 255"
definition RTRV_DIR_MAX :: nat where "RTRV_DIR_MAX = 512"
definition RTRV_PATH_MAX :: nat where "RTRV_PATH_MAX = 1024"

lemmas header_consts = RTRV_MAGIC_def RTRV_MAGIC_LEN_def RTRV_VERSION_def RTRV_HEADER_SIZE_def
lemmas frame_types = RTRV_T_LIST_def RTRV_T_GET_def RTRV_T_PUT_def RTRV_T_HELLO_def
  RTRV_T_QUIT_def RTRV_T_OK_def RTRV_T_ERROR_def
lemmas error_codes = RTRV_E_BAD_NAME_def RTRV_E_NOT_FOUND_def RTRV_E_ALREADY_EXISTS_def RTRV_E_MALFORMED_def
  RTRV_E_UNSUPPORTED_VERSION_def RTRV_E_INTERNAL_def RTRV_E_TOO_LARGE_def RTRV_E_CORRUPT_def
lemmas size_consts = RTRV_PAYLOAD_CAP_def RTRV_TOKEN_SIZE_def RTRV_GET_META_def
  RTRV_MAX_NAME_def RTRV_DIR_MAX_def RTRV_PATH_MAX_def

section \<open>Exact reads and complete writes\<close>

fun rx_weight :: "rx_event list \<Rightarrow> nat" where
  "rx_weight [] = 0"
| "rx_weight (RxData bs # r) = length bs + 1 + rx_weight r"
| "rx_weight (_ # r) = 1 + rx_weight r"

lemma recv_weight:
  "recv n w = (res, w') \<Longrightarrow> res \<noteq> RecvBytes [] \<Longrightarrow> rx_weight (rx w') < rx_weight (rx w)"
  by (auto simp: recv_def split: list.splits rx_event.splits if_splits)

function read_exact_loop :: "bytes \<Rightarrow> nat \<Rightarrow> nat \<Rightarrow> bytes cmd" where
  "read_exact_loop p n got w =
     (if got < n then
        (case recv (n - got) w of
           (RecvEintr, w) \<Rightarrow> read_exact_loop p n got w
         | (RecvError, w) \<Rightarrow> die ReadFailed w
         | (RecvBytes r, w) \<Rightarrow>
             if r = [] then die ClosedEarly w
             else (case mem_put p got r of
                     None \<Rightarrow> (Undef, w)
                   | Some p \<Rightarrow> read_exact_loop p n (got + length r) w))
      else (Ok p, w))"
  by pat_completeness auto
termination
  by (relation "measure (\<lambda>(p, n, got, w). rx_weight (rx w))")
    (auto dest: recv_weight sym)

declare read_exact_loop.simps [simp del]

definition rtrv_read_exact :: "bytes \<Rightarrow> nat \<Rightarrow> bytes cmd" where
  "rtrv_read_exact buf n = read_exact_loop buf n 0"

text \<open>How far a write can go: an accepted piece makes progress, the rest shortens the plan.\<close>

lemma send_progress:
  "send bs w = (res, w') \<Longrightarrow> tx_plan w \<noteq> [] \<Longrightarrow> length (tx_plan w') < length (tx_plan w)"
  by (auto simp: send_def split: list.splits tx_event.splits)

lemma send_unplanned:
  "send bs w = (res, w') \<Longrightarrow> tx_plan w = [] \<Longrightarrow> res = SentBytes (length bs) \<and> tx_plan w' = []"
  by (auto simp: send_def)

function write_all_loop :: "bytes \<Rightarrow> nat \<Rightarrow> nat \<Rightarrow> unit cmd" where
  "write_all_loop p n sent w =
     (if sent < n then
        (case mem_get p sent (n - sent) of
           None \<Rightarrow> (Undef, w)
         | Some rest \<Rightarrow>
             (case send rest w of
                (SendEintr, w) \<Rightarrow> write_all_loop p n sent w
              | (SendError, w) \<Rightarrow> die WriteFailed w
              | (SentBytes k, w) \<Rightarrow> write_all_loop p n (sent + k) w))
      else (Ok (), w))"
  by pat_completeness auto
termination
proof (relation "measures [\<lambda>(p, n, sent, w). length (tx_plan w), \<lambda>(p, n, sent, w). n - sent]",
    goal_cases)
  case 1
  then show ?case by simp
next
  case (2 p n sent w rest x xa y)
  then have s: "send rest w = (SentBytes y, xa)" by simp
  have "length rest = n - sent"
    using 2 by (auto simp: mem_get_def split: if_splits)
  then show ?case
    using 2(1) send_progress [OF s] send_unplanned [OF s] by (cases "tx_plan w = []") auto
next
  case (3 p n sent w rest x xa)
  then have s: "send rest w = (SendEintr, xa)" by simp
  then show ?case
    using send_progress [OF s] send_unplanned [OF s] by (cases "tx_plan w = []") auto
qed

declare write_all_loop.simps [simp del]

definition rtrv_write_all :: "bytes \<Rightarrow> nat \<Rightarrow> unit cmd" where
  "rtrv_write_all buf n = write_all_loop buf n 0"

section \<open>Frames\<close>

text \<open>The 14-byte header, built in the stack array that starts as \<open>header\<close>.\<close>

definition build_header :: "bytes \<Rightarrow> byte \<Rightarrow> u64 \<Rightarrow> bytes option" where
  "build_header header typ payload_len =
     Option.bind (mem_put header 0 (take RTRV_MAGIC_LEN RTRV_MAGIC)) (\<lambda>header.
     Option.bind (store header 4 RTRV_VERSION) (\<lambda>header.
     Option.bind (store header 5 typ) (\<lambda>header.
     rtrv_put_u64 header 6 payload_len)))"

text \<open>A null payload is \<open>None\<close>; sending from it is undefined unless the length is 0.\<close>

definition rtrv_write_frame :: "byte \<Rightarrow> bytes option \<Rightarrow> u64 \<Rightarrow> unit cmd" where
  "rtrv_write_frame typ payload payload_len =
     andthen (access (build_header (replicate RTRV_HEADER_SIZE 0) typ payload_len)) (\<lambda>header.
     andthen (rtrv_write_all header RTRV_HEADER_SIZE) (\<lambda>_.
     if payload_len > 0
     then andthen (access payload) (\<lambda>p. rtrv_write_all p (unat payload_len))
     else ret ()))"

definition rtrv_read_frame_header :: "(byte \<times> u64) cmd" where
  "rtrv_read_frame_header =
     andthen (rtrv_read_exact (replicate RTRV_HEADER_SIZE 0) RTRV_HEADER_SIZE) (\<lambda>header.
     if take RTRV_MAGIC_LEN header \<noteq> RTRV_MAGIC then die BadMagic
     else if header ! 4 \<noteq> RTRV_VERSION then die (WrongVersion (header ! 4))
     else andthen (access (rtrv_get_u64 header 6)) (\<lambda>payload_len.
          ret (header ! 5, payload_len)))"

text \<open>Returns the type, the payload (\<open>None\<close> is the null pointer) and its length.\<close>

definition rtrv_read_frame :: "(byte \<times> bytes option \<times> u64) cmd" where
  "rtrv_read_frame =
     andthen rtrv_read_frame_header (\<lambda>(typ, payload_len).
     if unat payload_len > RTRV_PAYLOAD_CAP then die (OversizedPayload payload_len)
     else if payload_len = 0 then ret (typ, None, payload_len)
     else andthen malloc (\<lambda>got.
       if \<not> got then die OutOfMemory
       else attempt (rtrv_read_exact (replicate (unat payload_len) 0) (unat payload_len))
              (\<lambda>buf. ret (typ, Some buf, payload_len))
              (andthen (free (Some ())) (\<lambda>_. failed))))"

text \<open>\<open>printf\<close> with precision: at most that many bytes, and none from a zero byte on.\<close>

definition printed :: "bytes \<Rightarrow> bytes" where
  "printed bs = takeWhile (\<lambda>b. b \<noteq> 0) bs"

definition rtrv_report_error :: "bytes option \<Rightarrow> u64 \<Rightarrow> unit cmd" where
  "rtrv_report_error payload payload_len =
     (case payload of
        None \<Rightarrow> complain MalformedError
      | Some p \<Rightarrow>
          if payload_len < 3 then complain MalformedError
          else andthen (access (mem_get p 0 1)) (\<lambda>reason.
               andthen (access (rtrv_get_u16 p 1)) (\<lambda>message_len.
               if (ucast message_len :: u64) + 3 > payload_len then complain WrongErrorLength
               else andthen (access (mem_get p 3 (unat message_len))) (\<lambda>message.
                    complain (ServerError (printed message) (reason ! 0))))))"

section \<open>The incoming stream\<close>

text \<open>
  The bytes that reads can still obtain, however they are cut into pieces: everything up to the
  peer closing or the first error.
\<close>

fun rx_bytes :: "rx_event list \<Rightarrow> bytes" where
  "rx_bytes [] = []"
| "rx_bytes (RxData bs # r) = (if bs = [] then [] else bs @ rx_bytes r)"
| "rx_bytes (RxEintr # r) = rx_bytes r"
| "rx_bytes (RxErr # r) = []"

definition avail :: "world \<Rightarrow> bytes" where
  "avail w = rx_bytes (rx w)"

lemma avail_rx [simp]: "avail (w\<lparr>rx := r\<rparr>) = rx_bytes r"
  by (simp add: avail_def)

lemma avail_other [simp]:
  "avail (w\<lparr>tx := t\<rparr>) = avail w" "avail (w\<lparr>tx_plan := q\<rparr>) = avail w"
  "avail (w\<lparr>fs := f\<rparr>) = avail w" "avail (w\<lparr>faults := g\<rparr>) = avail w"
  "avail (w\<lparr>allocs := n\<rparr>) = avail w" "avail (w\<lparr>open_files := n\<rparr>) = avail w"
  "avail (w\<lparr>out := m\<rparr>) = avail w" "avail (w\<lparr>err := d\<rparr>) = avail w"
  by (simp_all add: avail_def)

lemma recv_cases:
  assumes "0 < n"
  obtains (closed) r where "recv n w = (RecvBytes [], w\<lparr>rx := r\<rparr>)" "avail w = []"
  | (intr) r where "recv n w = (RecvEintr, w\<lparr>rx := r\<rparr>)" "rx_bytes r = avail w"
  | (broken) r where "recv n w = (RecvError, w\<lparr>rx := r\<rparr>)" "avail w = []"
  | (piece) bs r where "recv n w = (RecvBytes bs, w\<lparr>rx := r\<rparr>)" "bs \<noteq> []" "length bs \<le> n"
      "avail w = bs @ rx_bytes r"
proof (cases "rx w")
  case Nil
  then have "w\<lparr>rx := []\<rparr> = w" by simp
  with Nil show ?thesis by (intro closed [of "[]"]) (simp_all add: recv_def avail_def)
next
  case (Cons e r)
  show ?thesis
  proof (cases e)
    case (RxData bs)
    show ?thesis
    proof (cases "bs = []")
      case True
      with Cons RxData show ?thesis by (intro closed [of r]) (simp_all add: recv_def avail_def)
    next
      case False
      with Cons RxData assms show ?thesis
        by (intro piece [of "take n bs" "if length bs \<le> n then r else RxData (drop n bs) # r"])
          (simp_all add: recv_def avail_def)
    qed
  qed (use Cons intr broken in \<open>auto simp: recv_def avail_def\<close>)
qed

text \<open>
  What a read of the bytes from \<open>got\<close> up to \<open>n\<close> can end with: they were all to come and are in the array,
  or too few were to come.
\<close>

definition read_outcome :: "bytes \<Rightarrow> nat \<Rightarrow> nat \<Rightarrow> world \<Rightarrow> bytes outcome \<times> world \<Rightarrow> bool" where
  "read_outcome p n got w x \<longleftrightarrow>
     n - got \<le> length (avail w) \<and>
       (\<exists>r. x = (Ok (take got p @ take (n - got) (avail w) @ drop n p), w\<lparr>rx := r\<rparr>) \<and>
            rx_bytes r = drop (n - got) (avail w)) \<or>
     length (avail w) < n - got \<and> (\<exists>r d. x = (Fail, w\<lparr>rx := r, err := err w @ [d]\<rparr>))"

lemma read_outcome_piece:
  assumes piece: "avail w = bs @ rx_bytes r" "length bs \<le> n - got" and bounds: "got \<le> n" "n \<le> length p"
    and rest: "read_outcome (take got p @ bs @ drop (got + length bs) p) n (got + length bs) (w\<lparr>rx := r\<rparr>) x"
  shows "read_outcome p n got w x"
proof -
  let ?p = "take got p @ bs @ drop (got + length bs) p"
  have m: "n - got = length bs + (n - (got + length bs))" using piece(2) by simp
  have "drop n ?p = drop n p" using bounds piece(2) by simp
  then show ?thesis using rest bounds piece unfolding read_outcome_def m by auto
qed

lemma read_exact_loop_spec:
  assumes "got \<le> n" and "n \<le> length p"
  shows "read_outcome p n got w (read_exact_loop p n got w)"
  using assms
proof (induction p n got w rule: read_exact_loop.induct)
  case (1 p n got w)
  note unfold = read_exact_loop.simps [of p n got w]
  show ?case
  proof (cases "got < n")
    case False
    then have "read_exact_loop p n got w = (Ok p, w\<lparr>rx := rx w\<rparr>)" "rx_bytes (rx w) = avail w"
      by (simp_all add: unfold avail_def)
    then show ?thesis
      using False "1.prems" unfolding read_outcome_def by (intro disjI1 conjI exI [of _ "rx w"]) auto
  next
    case True
    then have "0 < n - got" by simp
    then show ?thesis
    proof (cases rule: recv_cases [where w = w])
      case (closed r)
      then have "read_exact_loop p n got w = (Fail, w\<lparr>rx := r, err := err w @ [ClosedEarly]\<rparr>)"
        using True by (simp add: unfold die_def)
      then show ?thesis using True closed(2) by (auto simp: read_outcome_def)
    next
      case (broken r)
      then have "read_exact_loop p n got w = (Fail, w\<lparr>rx := r, err := err w @ [ReadFailed]\<rparr>)"
        using True by (simp add: unfold die_def)
      then show ?thesis using True broken(2) by (auto simp: read_outcome_def)
    next
      case (intr r)
      then have "read_exact_loop p n got w = read_exact_loop p n got (w\<lparr>rx := r\<rparr>)" using True by (simp add: unfold)
      then show ?thesis
        using "1.IH"(2) [OF True intr(1) [symmetric] refl] "1.prems" intr(2) by (simp add: read_outcome_def)
    next
      case (piece bs r)
      let ?p = "take got p @ bs @ drop (got + length bs) p"
      have put: "mem_put p got bs = Some ?p" using piece(3) "1.prems" True by (simp add: mem_put_Some)
      have "read_exact_loop p n got w = read_exact_loop ?p n (got + length bs) (w\<lparr>rx := r\<rparr>)"
        using True piece(1,2) put by (simp add: unfold)
      moreover have "got + length bs \<le> n" "n \<le> length ?p" using piece(3) True "1.prems" by auto
      ultimately show ?thesis
        using "1.IH"(1) [OF True piece(1) [symmetric] refl piece(2) put] "1.prems"
          read_outcome_piece [OF piece(4,3)] by simp
    qed
  qed
qed

text \<open>Into an array that may be longer than what is read.\<close>

lemma wp_read_exact_into:
  assumes "n \<le> length buf"
    and "\<And>r. n \<le> length (avail w) \<Longrightarrow> rx_bytes r = drop n (avail w) \<Longrightarrow>
      Q (Ok (take n (avail w) @ drop n buf)) (w\<lparr>rx := r\<rparr>)"
    and "\<And>r d. length (avail w) < n \<Longrightarrow> Q Fail (w\<lparr>rx := r, err := err w @ [d]\<rparr>)"
  shows "wp (rtrv_read_exact buf n) Q w"
  using read_exact_loop_spec [of 0 n buf w] assms by (auto simp: wp_def rtrv_read_exact_def read_outcome_def)

lemma wp_read_exact:
  assumes "length buf = n"
    and "\<And>r. n \<le> length (avail w) \<Longrightarrow> rx_bytes r = drop n (avail w) \<Longrightarrow>
      Q (Ok (take n (avail w))) (w\<lparr>rx := r\<rparr>)"
    and "\<And>r d. length (avail w) < n \<Longrightarrow> Q Fail (w\<lparr>rx := r, err := err w @ [d]\<rparr>)"
  shows "wp (rtrv_read_exact buf n) Q w"
  by (rule wp_read_exact_into) (use assms in simp_all)

section \<open>The contract of a byte source\<close>

text \<open>
  What the layers above rely on: a read of \<open>n\<close> bytes takes exactly the next \<open>n\<close> bytes of the
  stream, or fails because there are not that many.
\<close>

locale byte_source =
  fixes stream :: "'w \<Rightarrow> bytes"
    and read :: "nat \<Rightarrow> 'w \<Rightarrow> bytes outcome \<times> 'w"
  assumes read_enough: "n \<le> length (stream w) \<Longrightarrow>
      \<exists>w'. read n w = (Ok (take n (stream w)), w') \<and> stream w' = drop n (stream w)"
    and read_short: "length (stream w) < n \<Longrightarrow> \<exists>w'. read n w = (Fail, w')"
begin

lemma read_Ok: "read n w = (Ok bs, w') \<Longrightarrow> length bs = n \<and> stream w = bs @ stream w'"
  using read_enough [of n w] read_short [of w n] by (cases "n \<le> length (stream w)") auto

lemma read_never_Undef: "fst (read n w) \<noteq> Undef"
  using read_enough [of n w] read_short [of w n] by (cases "n \<le> length (stream w)") auto

text \<open>How the stream is cut into pieces never shows.\<close>

lemma read_pieces_agree: "stream w1 = stream w2 \<Longrightarrow> fst (read n w1) = fst (read n w2)"
  using read_enough [of n w1] read_enough [of n w2] read_short [of w1 n] read_short [of w2 n]
  by (cases "n \<le> length (stream w1)") auto

text \<open>Two reads in a row are one longer read.\<close>

lemma read_twice:
  assumes "read n w = (Ok xs, w1)" and "read m w1 = (Ok ys, w2)"
  shows "fst (read (n + m) w) = Ok (xs @ ys)"
proof -
  from assms have "stream w = xs @ ys @ stream w2" "length xs = n" "length ys = m"
    using read_Ok [OF assms(1)] read_Ok [OF assms(2)] by simp_all
  then show ?thesis using read_enough [of "n + m" w] by auto
qed

end

interpretation sock: byte_source avail "\<lambda>n. rtrv_read_exact (replicate n 0) n"
proof
  fix n w
  show "\<exists>w'. rtrv_read_exact (replicate n 0) n w = (Ok (take n (avail w)), w') \<and> avail w' = drop n (avail w)"
    if "n \<le> length (avail w)"
    using read_exact_loop_spec [of 0 n "replicate n 0" w] that by (auto simp: rtrv_read_exact_def read_outcome_def)
  show "\<exists>w'. rtrv_read_exact (replicate n 0) n w = (Fail, w')" if "length (avail w) < n"
    using read_exact_loop_spec [of 0 n "replicate n 0" w] that by (auto simp: rtrv_read_exact_def read_outcome_def)
qed

section \<open>The outgoing stream\<close>

lemma send_cases:
  obtains (intr) q where "send bs w = (SendEintr, w\<lparr>tx_plan := q\<rparr>)" "set q \<subseteq> set (tx_plan w)"
  | (broken) q where "send bs w = (SendError, w\<lparr>tx_plan := q\<rparr>)" "TxErr \<in> set (tx_plan w)"
  | (piece) k q where "send bs w = (SentBytes k, w\<lparr>tx := tx w @ take k bs, tx_plan := q\<rparr>)" "k \<le> length bs"
      "set q \<subseteq> set (tx_plan w)"
proof (cases "tx_plan w")
  case Nil
  then have "send bs w = (SentBytes (length bs), w\<lparr>tx := tx w @ take (length bs) bs, tx_plan := []\<rparr>)"
    by (simp add: send_def)
  then show ?thesis by (rule piece) simp_all
next
  case (Cons e q)
  show ?thesis
  proof (cases e)
    case (TxAccept k)
    have "take k bs = take (min k (length bs)) bs"
      by (cases "k \<le> length bs") (simp_all add: min_def)
    with Cons TxAccept show ?thesis
      by (intro piece [of "min k (length bs)" q]) (auto simp: send_def)
  qed (use Cons intr broken in \<open>auto simp: send_def\<close>)
qed

text \<open>
  A complete write sends exactly the buffer; a failed one has sent a proper part of it and only
  happens when \<open>send\<close> reports an error.
\<close>

definition write_outcome :: "bytes \<Rightarrow> nat \<Rightarrow> nat \<Rightarrow> world \<Rightarrow> unit outcome \<times> world \<Rightarrow> bool" where
  "write_outcome p n sent w x \<longleftrightarrow>
     (\<exists>q. set q \<subseteq> set (tx_plan w) \<and>
        x = (Ok (), w\<lparr>tx := tx w @ take (n - sent) (drop sent p), tx_plan := q\<rparr>)) \<or>
     (\<exists>k q. k < n - sent \<and> TxErr \<in> set (tx_plan w) \<and>
        x = (Fail, w\<lparr>tx := tx w @ take k (drop sent p), tx_plan := q, err := err w @ [WriteFailed]\<rparr>))"

lemma write_outcome_piece:
  assumes k: "k \<le> n - sent" "sent < n" and q: "set q \<subseteq> set (tx_plan w)"
    and rest: "write_outcome p n (sent + k) (w\<lparr>tx := tx w @ take k (take (n - sent) (drop sent p)), tx_plan := q\<rparr>) x"
  shows "write_outcome p n sent w x"
proof -
  have cat: "take k (take (n - sent) (drop sent p)) @ take j (drop (sent + k) p) = take (k + j) (drop sent p)" for j
    using k(1) by (simp add: take_add) (simp add: add.commute)
  have all: "k + (n - (sent + k)) = n - sent" using k by simp
  from rest [unfolded write_outcome_def] show ?thesis
  proof (elim disjE exE conjE, goal_cases)
    case (1 q')
    then show ?case
      using cat [of "n - (sent + k)"] q unfolding write_outcome_def all by (intro disjI1 exI [of _ q']) auto
  next
    case (2 j q')
    then show ?case
      using cat [of j] q unfolding write_outcome_def by (intro disjI2 exI [of _ "k + j"] exI [of _ q']) auto
  qed
qed

lemma write_all_loop_spec:
  assumes "sent \<le> n" and "n \<le> length p"
  shows "write_outcome p n sent w (write_all_loop p n sent w)"
  using assms
proof (induction p n sent w rule: write_all_loop.induct)
  case (1 p n sent w)
  note unfold = write_all_loop.simps [of p n sent w]
  show ?case
  proof (cases "sent < n")
    case False
    then have "write_all_loop p n sent w
        = (Ok (), w\<lparr>tx := tx w @ take (n - sent) (drop sent p), tx_plan := tx_plan w\<rparr>)"
      by (simp add: unfold)
    then show ?thesis unfolding write_outcome_def by blast
  next
    case True
    let ?rest = "take (n - sent) (drop sent p)"
    have get: "mem_get p sent (n - sent) = Some ?rest" using True "1.prems" by (simp add: mem_get_Some)
    show ?thesis
    proof (cases rule: send_cases [of ?rest w])
      case (intr q)
      then have "write_all_loop p n sent w = write_all_loop p n sent (w\<lparr>tx_plan := q\<rparr>)"
        using True get by (simp add: unfold)
      then show ?thesis
        using "1.IH"(2) [OF True get intr(1) [symmetric] refl "1.prems"] intr(2)
        by (simp add: write_outcome_def subset_iff) blast
    next
      case (broken q)
      then have "write_all_loop p n sent w
          = (Fail, w\<lparr>tx := tx w @ take 0 (drop sent p), tx_plan := q, err := err w @ [WriteFailed]\<rparr>)"
        using True get by (simp add: unfold die_def)
      then show ?thesis using True broken(2) unfolding write_outcome_def by (metis zero_less_diff)
    next
      case (piece k q)
      then have k: "k \<le> n - sent" by simp
      have "write_all_loop p n sent w = write_all_loop p n (sent + k) (w\<lparr>tx := tx w @ take k ?rest, tx_plan := q\<rparr>)"
        using True get piece(1) by (simp add: unfold)
      then show ?thesis
        using "1.IH"(1) [OF True get piece(1) [symmetric] refl _ "1.prems"(2)] k True
          write_outcome_piece [OF k True piece(3)] by simp
    qed
  qed
qed

lemma wp_write_all:
  assumes "n \<le> length buf"
    and "\<And>q. set q \<subseteq> set (tx_plan w) \<Longrightarrow> Q (Ok ()) (w\<lparr>tx := tx w @ take n buf, tx_plan := q\<rparr>)"
    and "\<And>k q. k < n \<Longrightarrow> TxErr \<in> set (tx_plan w) \<Longrightarrow> Q Fail (w\<lparr>tx := tx w @ take k buf, tx_plan := q, err := err w @ [WriteFailed]\<rparr>)"
  shows "wp (rtrv_write_all buf n) Q w"
  using write_all_loop_spec [of 0 n buf w] assms by (auto simp: wp_def rtrv_write_all_def write_outcome_def)

section \<open>Frames on the wire\<close>

definition frame_header :: "byte \<Rightarrow> u64 \<Rightarrow> bytes" where
  "frame_header typ len = RTRV_MAGIC @ [RTRV_VERSION, typ] @ be_bytes 8 len"

definition frame :: "byte \<Rightarrow> bytes \<Rightarrow> bytes" where
  "frame typ payload = frame_header typ (word_of_nat (length payload)) @ payload"

lemma length_RTRV_MAGIC [simp]: "length RTRV_MAGIC = 4"
  by (simp add: RTRV_MAGIC_def)

lemma length_frame_header [simp]: "length (frame_header typ len) = 14"
  by (simp add: frame_header_def)

lemma build_header_eq:
  assumes "length header = RTRV_HEADER_SIZE"
  shows "build_header header typ len = Some (frame_header typ len)"
proof -
  from assms obtain h0 h1 h2 h3 h4 h5 t where h: "header = h0 # h1 # h2 # h3 # h4 # h5 # t" "length t = 8"
    by (auto simp: RTRV_HEADER_SIZE_def length_Suc_conv numeral_eq_Suc)
  have "mem_put header 0 (take RTRV_MAGIC_LEN RTRV_MAGIC) = Some (RTRV_MAGIC @ h4 # h5 # t)"
    by (simp add: h mem_put_def RTRV_MAGIC_LEN_def numeral_eq_Suc)
  moreover have "store (RTRV_MAGIC @ h4 # h5 # t) 4 v = Some (RTRV_MAGIC @ v # h5 # t)" for v
    by (simp add: store_def h(2) list_update_append)
  moreover have "store (RTRV_MAGIC @ v # h5 # t) 5 v' = Some (RTRV_MAGIC @ v # v' # t)" for v v'
    by (simp add: store_def h(2) list_update_append)
  moreover have "rtrv_put_u64 (RTRV_MAGIC @ v # v' # t) 6 len = Some (RTRV_MAGIC @ v # v' # be_bytes 8 len)"
    for v v'
    using u64_field.put_Some [of 6 "RTRV_MAGIC @ v # v' # t" len] h(2) by simp
  ultimately show ?thesis by (simp add: build_header_def frame_header_def)
qed

text \<open>\<open>rtrv_write_frame\<close> puts exactly the frame on the wire, or fails with a part of it sent.\<close>

lemma wp_write_frame:
  assumes "payload = Some p \<or> payload = None \<and> p = []"
    and "unat len \<le> length p"
    and "\<And>q. set q \<subseteq> set (tx_plan w) \<Longrightarrow> Q (Ok ()) (w\<lparr>tx := tx w @ frame_header typ len @ take (unat len) p, tx_plan := q\<rparr>)"
    and "\<And>k q. k < 14 + unat len \<Longrightarrow> TxErr \<in> set (tx_plan w) \<Longrightarrow>
      Q Fail (w\<lparr>tx := tx w @ take k (frame_header typ len @ take (unat len) p), tx_plan := q,
                err := err w @ [WriteFailed]\<rparr>)"
  shows "wp (rtrv_write_frame typ payload len) Q w"
proof -
  have hdr: "build_header (replicate RTRV_HEADER_SIZE 0) typ len = Some (frame_header typ len)"
    by (simp add: build_header_eq)
  have zero: "len > 0 \<longleftrightarrow> unat len \<noteq> 0"
    by (simp add: unat_eq_zero word_neq_0_conv)
  show ?thesis
    unfolding rtrv_write_frame_def wp_simps hdr outcome.case
  proof (rule wp_write_all, simp add: RTRV_HEADER_SIZE_def, goal_cases)
    case (1 q)
    note q = 1
    show ?case
    proof (cases "unat len = 0")
      case True
      with zero assms(3) [of q] q show ?thesis by (simp add: RTRV_HEADER_SIZE_def wp_simps)
    next
      case False
      with assms(1,2) have p: "payload = Some p" by auto
      have "wp (rtrv_write_all p (unat len)) Q (w\<lparr>tx := tx w @ frame_header typ len, tx_plan := q\<rparr>)"
      proof (rule wp_write_all [OF assms(2)], goal_cases)
        case (1 q')
        then show ?case using assms(3) [of q'] q by simp
      next
        case (2 k q')
        then show ?case using assms(4) [of "14 + k" q'] q by auto
      qed
      then show ?thesis
        using False zero unfolding p
        by (simp add: RTRV_HEADER_SIZE_def wp_simps del: unat_eq_zero)
    qed
  next
    case (2 k q)
    then show ?case using assms(4) [of k q] by (simp add: RTRV_HEADER_SIZE_def)
  qed
qed

section \<open>Reading frames\<close>

lemma frame_header_iff:
  assumes "length bs = 14"
  shows "bs = frame_header ty len \<longleftrightarrow>
    take 4 bs = RTRV_MAGIC \<and> bs ! 4 = RTRV_VERSION \<and> bs ! 5 = ty \<and> rtrv_get_u64 bs 6 = Some len"
proof -
  from assms obtain m v t l where bs: "bs = m @ v # t # l" "length m = 4" "length l = 8"
    by (auto simp: length_Suc_conv numeral_eq_Suc)
      (metis append_Cons append_Nil length_Cons list.size(3))
  obtain x where x: "rtrv_get_u64 bs 6 = Some x" "be_bytes 8 x = l"
    using u64_field.get_at [of 6 bs] bs by auto
  have "l = be_bytes 8 len \<longleftrightarrow> x = len"
    using x(2) u64_field.enc_inject by metis
  then show ?thesis
    using bs x(1) by (auto simp: frame_header_def nth_append)
qed

text \<open>What reading a reply may change: the incoming stream, the fault script, messages, the heap.\<close>

definition unmoved :: "world \<Rightarrow> world \<Rightarrow> bool" where
  "unmoved w w' \<longleftrightarrow> tx w' = tx w \<and> tx_plan w' = tx_plan w \<and> fs w' = fs w \<and>
     open_files w' = open_files w \<and> out w' = out w"

lemma wp_read_frame_header:
  assumes "\<And>ty len r. avail w = frame_header ty len @ rx_bytes r \<Longrightarrow> Q (Ok (ty, len)) (w\<lparr>rx := r\<rparr>)"
    and "\<And>r d. \<forall>ty len rest. avail w \<noteq> frame_header ty len @ rest \<Longrightarrow>
      Q Fail (w\<lparr>rx := r, err := err w @ [d]\<rparr>)"
  shows "wp rtrv_read_frame_header Q w"
  unfolding rtrv_read_frame_header_def wp_simps
proof (rule wp_read_exact, goal_cases)
  case 1
  show ?case by (simp add: RTRV_HEADER_SIZE_def)
next
  case (2 r)
  let ?h = "take 14 (avail w)"
  have len: "length ?h = 14" using 2(1) by (simp add: RTRV_HEADER_SIZE_def)
  obtain x where x: "rtrv_get_u64 ?h 6 = Some x"
    using u64_field.get_at [of 6 ?h] 2(1) by (auto simp: RTRV_HEADER_SIZE_def)
  have split: "avail w = ?h @ rx_bytes r"
    using 2(2) by (simp add: RTRV_HEADER_SIZE_def)
  have no: "\<forall>ty l rest. avail w \<noteq> frame_header ty l @ rest"
    if "take 4 ?h \<noteq> RTRV_MAGIC \<or> ?h ! 4 \<noteq> RTRV_VERSION"
  proof (intro allI notI)
    fix ty l rest
    assume "avail w = frame_header ty l @ rest"
    then have "?h = frame_header ty l" by simp
    with that frame_header_iff [OF len, of ty l] show False by blast
  qed
  show ?case
  proof (cases "take 4 ?h = RTRV_MAGIC \<and> ?h ! 4 = RTRV_VERSION")
    case True
    with x have "?h = frame_header (?h ! 5) x" using frame_header_iff [OF len] by blast
    then have "avail w = frame_header (?h ! 5) x @ rx_bytes r" using split by metis
    from assms(1) [OF this] True x show ?thesis
      by (simp add: RTRV_HEADER_SIZE_def RTRV_MAGIC_LEN_def wp_simps)
  next
    case False
    with assms(2) [OF no] show ?thesis
      by (auto simp: RTRV_HEADER_SIZE_def RTRV_MAGIC_LEN_def wp_simps)
  qed
next
  case (3 r d)
  have "\<forall>ty l rest. avail w \<noteq> frame_header ty l @ rest"
    using 3 by (auto simp: RTRV_HEADER_SIZE_def)
  from assms(2) [OF this] show ?case by simp
qed

text \<open>A payload read into memory from \<open>malloc\<close>, which is given back if too few bytes come.\<close>

lemma wp_read_heap:
  assumes ok: "\<And>bs r f. avail w = bs @ rx_bytes r \<Longrightarrow> length bs = n \<Longrightarrow>
      wp (k bs) Q (w\<lparr>faults := f, allocs := Suc (allocs w), rx := r\<rparr>)"
    and bad: "\<And>w' d. unmoved w w' \<Longrightarrow> allocs w' = allocs w \<Longrightarrow> err w' = err w @ [d] \<Longrightarrow> Q Fail w'"
  shows "wp (andthen malloc (\<lambda>got. if \<not> got then die OutOfMemory
     else attempt (rtrv_read_exact (replicate n 0) n) k (andthen (free (Some ())) (\<lambda>_. failed)))) Q w"
  unfolding wp_simps
proof (rule wp_malloc, goal_cases)
  case (1 f)
  have "wp (attempt (rtrv_read_exact (replicate n 0) n) k (andthen (free (Some ())) (\<lambda>_. failed))) Q
      (w\<lparr>faults := f, allocs := Suc (allocs w)\<rparr>)"
    unfolding wp_simps
  proof (rule wp_read_exact, goal_cases)
    case (2 r)
    then have "wp (k (take n (avail w))) Q (w\<lparr>faults := f, allocs := Suc (allocs w), rx := r\<rparr>)"
      by (intro ok) simp_all
    then show ?case by simp
  next
    case (3 r d)
    show ?case by (simp add: wp_simps) (rule bad, simp_all add: unmoved_def)
  qed simp
  then show ?case by simp
next
  case (2 f)
  show ?case by (simp add: wp_simps) (rule bad, simp_all add: unmoved_def)
qed

lemma wp_read_frame:
  assumes "\<And>ty len p w'. avail w = frame_header ty len @ p @ avail w' \<Longrightarrow> length p = unat len \<Longrightarrow>
      unat len \<le> RTRV_PAYLOAD_CAP \<Longrightarrow> unmoved w w' \<Longrightarrow> err w' = err w \<Longrightarrow>
      allocs w' = (if len = 0 then allocs w else Suc (allocs w)) \<Longrightarrow>
      Q (Ok (ty, if len = 0 then None else Some p, len)) w'"
    and "\<And>w' d. unmoved w w' \<Longrightarrow> allocs w' = allocs w \<Longrightarrow> err w' = err w @ [d] \<Longrightarrow> Q Fail w'"
  shows "wp rtrv_read_frame Q w"
  unfolding rtrv_read_frame_def wp_andthen [of rtrv_read_frame_header]
proof (rule wp_read_frame_header, goal_cases)
  case (1 ty len r)
  note start = 1
  consider (big) "RTRV_PAYLOAD_CAP < unat len" | (none) "len = 0" | (some) "\<not> RTRV_PAYLOAD_CAP < unat len" "len \<noteq> 0"
    by auto
  then show ?case
  proof cases
    case big
    have "Q Fail (w\<lparr>rx := r, err := err w @ [d]\<rparr>)" for d by (rule assms(2)) (simp_all add: unmoved_def)
    then show ?thesis using big by (simp add: wp_simps)
  next
    case none
    have "Q (Ok (ty, if len = 0 then None else Some [], len)) (w\<lparr>rx := r\<rparr>)"
      by (rule assms(1)) (use none start in \<open>simp_all add: unmoved_def\<close>)
    with none show ?thesis by (simp add: wp_simps)
  next
    case some
    have "wp (andthen malloc (\<lambda>got. if \<not> got then die OutOfMemory
       else attempt (rtrv_read_exact (replicate (unat len) 0) (unat len))
              (\<lambda>buf. ret (ty, Some buf, len)) (andthen (free (Some ())) (\<lambda>_. failed)))) Q (w\<lparr>rx := r\<rparr>)"
    proof (rule wp_read_heap, goal_cases)
      case (1 bs r' f)
      have "Q (Ok (ty, if len = 0 then None else Some bs, len)) (w\<lparr>rx := r, faults := f, allocs := Suc (allocs w), rx := r'\<rparr>)"
        by (rule assms(1)) (use start 1 some in \<open>simp_all add: unmoved_def\<close>)
      then show ?case using some by (simp add: wp_simps)
    qed (rule assms(2), simp_all add: unmoved_def)
    with some show ?thesis by simp
  qed
next
  case (2 r d)
  show ?case by simp (rule assms(2), simp_all add: unmoved_def)
qed

lemma frame_header_inject: "frame_header ty l @ xs = frame_header ty' l' @ ys \<longleftrightarrow> ty = ty' \<and> l = l' \<and> xs = ys"
  by (auto simp: frame_header_def u64_field.enc_append_inject)

text \<open>Undisturbed, a frame that is there and fits is read, whatever pieces it arrives in.\<close>

lemma wp_read_frame_calm:
  assumes calm: "faults w = []" and frame: "avail w = frame_header ty len @ p @ rest" "length p = unat len"
      "unat len \<le> RTRV_PAYLOAD_CAP"
    and Q: "\<And>w'. avail w' = rest \<Longrightarrow> unmoved w w' \<Longrightarrow> faults w' = [] \<Longrightarrow>
      allocs w' = (if len = 0 then allocs w else Suc (allocs w)) \<Longrightarrow>
      Q (Ok (ty, if len = 0 then None else Some p, len)) w'"
  shows "wp rtrv_read_frame Q w"
  unfolding rtrv_read_frame_def wp_andthen [of rtrv_read_frame_header]
proof (rule wp_read_frame_header, goal_cases)
  case (1 ty' len' r)
  then have r: "ty' = ty" "len' = len" "rx_bytes r = p @ rest"
    using frame(1) by (simp_all add: frame_header_inject)
  show ?case
  proof (cases "len = 0")
    case True
    then have "Q (Ok (ty, None, len)) (w\<lparr>rx := r\<rparr>)"
      using Q [of "w\<lparr>rx := r\<rparr>"] r frame(2) calm by (simp add: unmoved_def)
    then show ?thesis using True r by (simp add: wp_simps)
  next
    case False
    let ?w = "w\<lparr>rx := r, allocs := Suc (allocs w)\<rparr>"
    have "wp (attempt (rtrv_read_exact (replicate (unat len) 0) (unat len))
        (\<lambda>buf. ret (ty, Some buf, len)) (andthen (free (Some ())) (\<lambda>_. failed))) Q ?w"
      unfolding wp_attempt
    proof (rule wp_read_exact, goal_cases)
      case (2 r')
      then show ?case
        using Q [of "?w\<lparr>rx := r'\<rparr>"] r frame(2) calm False by (simp add: wp_simps unmoved_def)
    qed (use r frame(2) in simp_all)
    then show ?thesis using False r frame(3) calm by (simp add: wp_simps undisturbed)
  qed
next
  case (2 r d)
  then show ?case using frame(1) by blast
qed

section \<open>Error frames\<close>

text \<open>
  The report reads inside the payload only. The message bound is computed in 64 bits, so the sum
  cannot wrap.
\<close>

lemma ucast_u16_u64_add_3: "unat ((ucast (m :: u16) :: u64) + 3) = unat m + 3"
proof -
  have "unat m < 2 ^ 16" using unsigned_less [of m] by simp
  then show ?thesis by (simp add: unat_word_ariths unsigned_ucast_eq take_bit_nat_eq_self)
qed

lemma report_error_eq:
  assumes len: "length p = unat len"
  shows "rtrv_report_error (Some p) len w = (Ok (), w\<lparr>err := err w @
    [if length p < 3 then MalformedError
     else let m = unat (be_val (take 2 (drop 1 p)) :: u16)
          in if length p < m + 3 then WrongErrorLength else ServerError (printed (take m (drop 3 p))) (p ! 0)]\<rparr>)"
proof (cases "length p < 3")
  case True
  then have "len < 3" using len by (simp add: word_less_nat_alt)
  with True show ?thesis by (simp add: rtrv_report_error_def complain_def)
next
  case False
  let ?m = "be_val (take 2 (drop 1 p)) :: u16"
  have get: "rtrv_get_u16 p 1 = Some ?m" "mem_get p 0 1 = Some (take 1 p)"
    using False by (simp_all add: rtrv_get_u16_eq mem_get_def)
  have "\<not> len < 3" using False len by (simp add: word_less_nat_alt)
  moreover have "len < ucast ?m + 3 \<longleftrightarrow> length p < unat ?m + 3"
    using len ucast_u16_u64_add_3 [of ?m] by (simp add: word_less_nat_alt)
  ultimately show ?thesis
    using False get
    by (auto simp: rtrv_report_error_def complain_def andthen_def attempt_def access_def mem_get_def Let_def)
qed

lemma wp_report_error:
  assumes "payload = None \<or> (\<exists>p. payload = Some p \<and> length p = unat len)"
    and "\<And>d. Q (Ok ()) (w\<lparr>err := err w @ [d]\<rparr>)"
  shows "wp (rtrv_report_error payload len) Q w"
proof (cases payload)
  case None
  then show ?thesis using assms(2) by (simp add: rtrv_report_error_def wp_simps)
next
  case (Some p)
  then have "length p = unat len" using assms(1) by auto
  from report_error_eq [OF this, of w] show ?thesis using Some assms(2) by (simp add: wp_def)
qed

end
