(* ===== verification/Rtrv_Paths.thy ===== *)
theory Rtrv_Paths
  imports Rtrv_Hash_File Rtrv_Frame
begin

text \<open>
  Paths and partial files (\<open>src/c/transfer.c\<close>): \<open>rtrv_split_path\<close>, \<open>rtrv_partial_name\<close>,
  \<open>rtrv_find_partial\<close> and \<open>file_exists\<close>. A C string is the list of its characters before the
  terminating zero; copying it into an array that has no room for it and the zero is undefined.
\<close>

section \<open>C strings\<close>

definition cstr_put :: "nat \<Rightarrow> string \<Rightarrow> string option" where
  "cstr_put n s = (if length s + 1 \<le> n then Some s else None)"

text \<open>\<open>snprintf\<close> keeps what fits before the terminating zero and returns the full length.\<close>

definition snprintf :: "nat \<Rightarrow> string \<Rightarrow> string \<times> nat" where
  "snprintf n s = (take (n - 1) s, length s)"

text \<open>\<open>strrchr\<close> for a slash: the position of the last one.\<close>

fun last_slash :: "string \<Rightarrow> nat option" where
  "last_slash [] = None"
| "last_slash (c # s) =
     (case last_slash s of
        Some i \<Rightarrow> Some (Suc i)
      | None \<Rightarrow> (if c = CHR ''/'' then Some 0 else None))"

section \<open>Splitting a path and naming its partial\<close>

definition rtrv_split_path :: "string \<Rightarrow> nat \<Rightarrow> nat \<Rightarrow> (string \<times> string) cmd" where
  "rtrv_split_path path dir_size base_size =
     (let slash = last_slash path;
          name = (case slash of Some i \<Rightarrow> drop (Suc i) path | None \<Rightarrow> path)
      in if length name \<ge> base_size then failed
         else andthen (access (cstr_put base_size name)) (\<lambda>base.
           case slash of
             None \<Rightarrow>
               if dir_size < 2 then failed
               else andthen (access (cstr_put dir_size ''.'')) (\<lambda>dir. ret (dir, base))
           | Some i \<Rightarrow>
               (let dir_len = (if i = 0 then 1 else i)
                in if dir_len \<ge> dir_size then failed
                   else andthen (access (cstr_put dir_size (take dir_len path))) (\<lambda>dir. ret (dir, base)))))"

definition rtrv_partial_name :: "string \<Rightarrow> bytes \<Rightarrow> nat \<Rightarrow> string cmd" where
  "rtrv_partial_name dest digest out_size =
     attempt (rtrv_split_path dest RTRV_DIR_MAX (RTRV_MAX_NAME + 1))
       (\<lambda>(dir, base).
          andthen (access (Option.bind (sha256_hex digest RTRV_TOKEN_SIZE)
                                       (cstr_put (RTRV_TOKEN_SIZE * 2 + 1)))) (\<lambda>token.
          let (out, written) =
            (if CHR ''/'' \<notin> set dest
             then snprintf out_size (''.'' @ base @ ''.'' @ token @ ''.part'')
             else snprintf out_size (dir @ ''/.'' @ base @ ''.'' @ token @ ''.part''))
          in if written \<ge> out_size then die (PathTooLong dest) else ret out))
       (die (PathTooLong dest))"

section \<open>Finding a partial\<close>

text \<open>
  \<open>sscanf\<close> with \<open>%2x\<close>: white space is skipped, then at most two characters are taken: a sign and a
  digit, one digit or two. A lone \<open>0x\<close> is a prefix without digits and does not convert. The value
  is an \<open>unsigned\<close>; a minus sign negates it modulo its width.
\<close>

definition isspace :: "char \<Rightarrow> bool" where
  "isspace c \<longleftrightarrow> c = CHR '' '' \<or> (9 \<le> (of_char c :: nat) \<and> (of_char c :: nat) \<le> 13)"

definition hex_value :: "char \<Rightarrow> u32 option" where
  "hex_value c =
     (let n = (of_char c :: nat) in
      if 48 \<le> n \<and> n \<le> 57 then Some (word_of_nat (n - 48))
      else if 97 \<le> n \<and> n \<le> 102 then Some (word_of_nat (n - 87))
      else if 65 \<le> n \<and> n \<le> 70 then Some (word_of_nat (n - 55))
      else None)"

definition sscanf_2x :: "string \<Rightarrow> u32 option" where
  "sscanf_2x s =
     (case take 2 (dropWhile isspace s) of
        [c] \<Rightarrow> hex_value c
      | [c, d] \<Rightarrow>
          if c = CHR ''+'' then hex_value d
          else if c = CHR ''-'' then map_option uminus (hex_value d)
          else if c = CHR ''0'' \<and> (d = CHR ''x'' \<or> d = CHR ''X'') then None
          else (case hex_value c of
                  None \<Rightarrow> None
                | Some x \<Rightarrow> (case hex_value d of None \<Rightarrow> Some x | Some y \<Rightarrow> Some (16 * x + y)))
      | _ \<Rightarrow> None)"

text \<open>The tests of the \<open>readdir\<close> loop: the length, the prefix, the suffix.\<close>

definition is_partial_entry :: "string \<Rightarrow> string \<Rightarrow> bool" where
  "is_partial_entry prefix d_name \<longleftrightarrow>
     length d_name = length prefix + RTRV_TOKEN_SIZE * 2 + 5 \<and>
     take (length prefix) d_name = prefix \<and>
     drop (length d_name - 5) d_name = ''.part''"

text \<open>The loop counts the matches and keeps the last one in \<open>match\<close>.\<close>

fun scan_entries :: "string \<Rightarrow> string list \<Rightarrow> nat \<Rightarrow> string \<Rightarrow> nat \<times> string" where
  "scan_entries prefix [] found match = (found, match)"
| "scan_entries prefix (d_name # es) found match =
     (if is_partial_entry prefix d_name
      then scan_entries prefix es (Suc found) (fst (snprintf RTRV_PATH_MAX d_name))
      else scan_entries prefix es found match)"

text \<open>The token: eight pairs of hexadecimal characters before the suffix.\<close>

fun scan_token :: "nat \<Rightarrow> string \<Rightarrow> bytes option" where
  "scan_token 0 hex = Some []"
| "scan_token (Suc n) hex =
     (case sscanf_2x hex of
        None \<Rightarrow> None
      | Some value \<Rightarrow> map_option ((#) (ucast value)) (scan_token n (drop 2 hex)))"

text \<open>Returns -1 (\<open>Fail\<close>), 0 (\<open>None\<close>) or 1 with the path, the size and the token.\<close>

definition rtrv_find_partial :: "string \<Rightarrow> nat \<Rightarrow> (string \<times> u64 \<times> bytes) option cmd" where
  "rtrv_find_partial dest path_size =
     andthen (rtrv_split_path dest RTRV_DIR_MAX (RTRV_MAX_NAME + 1)) (\<lambda>(dir, base).
     andthen (opendir dir) (\<lambda>d. case d of
        None \<Rightarrow> failed
      | Some es \<Rightarrow>
          (let prefix = fst (snprintf (RTRV_MAX_NAME + 8) (''.'' @ base @ ''.''));
               (found, match) = scan_entries prefix es 0 []
           in andthen closedir (\<lambda>_.
              if found \<noteq> 1 then ret None
              else
                let path_out = fst (snprintf path_size
                      (if dir = ''.'' \<and> CHR ''/'' \<notin> set dest then match else dir @ ''/'' @ match))
                in andthen (stat path_out) (\<lambda>st. case st of
                     None \<Rightarrow> ret None
                   | Some n \<Rightarrow>
                       (case scan_token RTRV_TOKEN_SIZE
                               (drop (length match - 5 - RTRV_TOKEN_SIZE * 2) match) of
                          None \<Rightarrow> ret None
                        | Some token \<Rightarrow> ret (Some (path_out, word_of_nat (st_size n), token))))))))"

definition file_exists :: "string \<Rightarrow> bool cmd" where
  "file_exists path = andthen (stat path) (\<lambda>st. ret (st \<noteq> None))"

section \<open>Splitting\<close>

lemma last_slash_None: "last_slash s = None \<longleftrightarrow> CHR ''/'' \<notin> set s"
  by (induction s) (auto split: option.splits)

lemma last_slash_Some:
  "last_slash s = Some i \<Longrightarrow>
     i < length s \<and> s = take i s @ CHR ''/'' # drop (Suc i) s \<and> CHR ''/'' \<notin> set (drop (Suc i) s)"
proof (induction s arbitrary: i)
  case Nil
  then show ?case by simp
next
  case (Cons c s)
  then show ?case
    by (cases "last_slash s") (auto simp: last_slash_None split: if_splits)
qed

text \<open>The directory and the last component of a path, as \<open>rtrv_split_path\<close> means them.\<close>

definition path_base :: "string \<Rightarrow> string" where
  "path_base p = (case last_slash p of Some i \<Rightarrow> drop (Suc i) p | None \<Rightarrow> p)"

definition path_dir :: "string \<Rightarrow> string" where
  "path_dir p = (case last_slash p of None \<Rightarrow> ''.'' | Some i \<Rightarrow> (if i = 0 then ''/'' else take i p))"

text \<open>A path that \<open>rtrv_split_path\<close> accepts for arrays of these sizes.\<close>

definition splittable :: "string \<Rightarrow> nat \<Rightarrow> nat \<Rightarrow> bool" where
  "splittable p dir_size base_size \<longleftrightarrow>
     length (path_base p) < base_size \<and> length (path_dir p) < dir_size"

lemma rtrv_split_path_eq:
  "rtrv_split_path p dir_size base_size w =
     (if splittable p dir_size base_size then (Ok (path_dir p, path_base p), w) else (Fail, w))"
proof (cases "last_slash p")
  case None
  then show ?thesis
    by (auto simp: rtrv_split_path_def splittable_def path_base_def path_dir_def Let_def cstr_put_def
        andthen_def attempt_def access_def ret_def failed_def)
next
  case (Some i)
  then have "i < length p" "i = 0 \<Longrightarrow> take 1 p = ''/''"
    using last_slash_Some [OF Some] by (auto simp: take_Suc) (metis list.sel(1))
  with Some show ?thesis
    by (auto simp: rtrv_split_path_def splittable_def path_base_def path_dir_def Let_def cstr_put_def
        andthen_def attempt_def access_def ret_def failed_def)
qed

lemma wp_split_path [wp_simps]:
  "wp (rtrv_split_path p ds bs) Q w =
     (if splittable p ds bs then Q (Ok (path_dir p, path_base p)) w else Q Fail w)"
  by (simp add: wp_def rtrv_split_path_eq)

section \<open>Tokens in hexadecimal\<close>

definition hex_pair :: "byte \<Rightarrow> string" where
  "hex_pair b = [hex_digits ! unat (drop_bit 4 b AND 0x0F), hex_digits ! unat (b AND 0x0F)]"

definition hex_of :: "bytes \<Rightarrow> string" where
  "hex_of bs = concat (map hex_pair bs)"

lemma sha256_hex_eq: "n \<le> length d \<Longrightarrow> sha256_hex d n = Some (hex_of (take n d))"
proof -
  assume n: "n \<le> length d"
  then have "take n d = map ((!) d) [0..<n]"
    by (intro nth_equalityI) simp_all
  then have "hex_of (take n d) = concat (map (\<lambda>i. hex_pair (d ! i)) [0..<n])"
    by (simp add: hex_of_def comp_def)
  with n show ?thesis by (simp add: sha256_hex_def hex_pair_def)
qed

lemma length_hex_of [simp]: "length (hex_of bs) = 2 * length bs"
  by (induction bs) (simp_all add: hex_of_def hex_pair_def)

lemma nibble_less_16: "unat (x AND 0x0F :: byte) < 16"
proof -
  have "unat (x AND 0x0F) \<le> unat (0x0F :: byte)"
    by (rule word_and_le1 [THEN word_le_nat_alt [THEN iffD1]])
  then show ?thesis by simp
qed

lemma hex_digit_value:
  "n < 16 \<Longrightarrow> hex_value (hex_digits ! n) = Some (word_of_nat n) \<and>
     \<not> isspace (hex_digits ! n) \<and> hex_digits ! n \<notin> {CHR ''+'', CHR ''-'', CHR ''x'', CHR ''X'', CHR ''/''}"
proof -
  have "list_all (\<lambda>n. hex_value (hex_digits ! n) = Some (word_of_nat n) \<and> \<not> isspace (hex_digits ! n) \<and>
      hex_digits ! n \<notin> {CHR ''+'', CHR ''-'', CHR ''x'', CHR ''X'', CHR ''/''}) [0..<16]"
    by (simp add: upt_rec hex_digits_def hex_value_def isspace_def)
  then show "n < 16 \<Longrightarrow> ?thesis" by (simp add: list_all_iff del: upt_rec_numeral)
qed

lemma nibbles_join:
  "16 * word_of_nat (unat (drop_bit 4 b AND 0x0F)) + word_of_nat (unat (b AND 0x0F)) = (ucast b :: u32)"
  for b :: byte
proof -
  have m: "x AND 0x0F = take_bit 4 x" for x :: byte
    by (simp add: take_bit_eq_mask mask_eq_exp_minus_1)
  have b: "unat b < 256" using unsigned_less [of b] by simp
  have lo: "unat (b AND 0x0F) = unat b mod 16"
    unfolding m unsigned_take_bit_eq by (simp add: take_bit_eq_mod)
  have hi: "unat (drop_bit 4 b AND 0x0F) = unat b div 16"
    unfolding m unsigned_take_bit_eq unat_drop_bit_eq using b
    by (simp add: take_bit_eq_mod drop_bit_eq_div)
  have "(16 * word_of_nat (unat b div 16) + word_of_nat (unat b mod 16) :: u32)
      = word_of_nat (16 * (unat b div 16) + unat b mod 16)"
    by (simp only: of_nat_add of_nat_mult of_nat_numeral)
  also have "\<dots> = ucast b" by simp
  finally show ?thesis unfolding lo hi .
qed

lemma length_hex_pair [simp]: "length (hex_pair b) = 2"
  by (simp add: hex_pair_def)

lemma ucast_byte_u32: "ucast (ucast b :: u32) = (b :: byte)"
  by (rule bit_word_eqI) (simp add: bit_simps)

lemma sscanf_hex_pair: "sscanf_2x (hex_pair b @ s) = Some (ucast b)"
proof -
  let ?hi = "hex_digits ! unat (drop_bit 4 b AND 0x0F)" and ?lo = "hex_digits ! unat (b AND 0x0F)"
  have "hex_pair b @ s = ?hi # ?lo # s" by (simp add: hex_pair_def)
  with hex_digit_value [OF nibble_less_16 [of "drop_bit 4 b"]] hex_digit_value [OF nibble_less_16 [of b]]
    nibbles_join [of b]
  show ?thesis by (simp add: sscanf_2x_def numeral_2_eq_2)
qed

text \<open>The token that \<open>sha256_hex\<close> prints is the token that the scan reads back.\<close>

lemma scan_token_hex: "scan_token (length bs) (hex_of bs @ s) = Some bs"
proof (induction bs)
  case Nil
  then show ?case by simp
next
  case (Cons b bs)
  with Cons show ?case
    by (simp add: hex_of_def sscanf_hex_pair ucast_byte_u32)
qed

lemma hex_of_no_slash: "CHR ''/'' \<notin> set (hex_of bs)"
proof -
  have "CHR ''/'' \<notin> set (hex_pair b)" for b
    using hex_digit_value [OF nibble_less_16 [of "drop_bit 4 b"]] hex_digit_value [OF nibble_less_16 [of b]]
    by (auto simp: hex_pair_def)
  then show ?thesis by (auto simp: hex_of_def)
qed

lemma hex_of_inject: "length xs = length ys \<Longrightarrow> hex_of xs = hex_of ys \<longleftrightarrow> xs = ys"
  using scan_token_hex [of xs "[]"] scan_token_hex [of ys "[]"] by (metis append_Nil2 option.inject)

lemma scan_token_length: "scan_token n s = Some t \<Longrightarrow> length t = n"
  by (induction n s arbitrary: t rule: scan_token.induct) (auto split: option.splits)

section \<open>Where a partial lives\<close>

text \<open>The partial of \<open>dest\<close> with the token text \<open>t\<close>, in the directory of \<open>dest\<close>.\<close>

definition partial_entry :: "string \<Rightarrow> string \<Rightarrow> string" where
  "partial_entry dest t = ''.'' @ path_base dest @ ''.'' @ t @ ''.part''"

definition partial_with :: "string \<Rightarrow> string \<Rightarrow> string" where
  "partial_with dest t =
     (if CHR ''/'' \<notin> set dest then partial_entry dest t
      else path_dir dest @ ''/'' @ partial_entry dest t)"

definition partial_path :: "string \<Rightarrow> bytes \<Rightarrow> string" where
  "partial_path dest digest = partial_with dest (hex_of (take RTRV_TOKEN_SIZE digest))"

abbreviation "good_dest dest \<equiv> splittable dest RTRV_DIR_MAX (RTRV_MAX_NAME + 1)"

text \<open>The array of \<open>RTRV_PATH_MAX\<close> characters always has room, whatever the path that was split.\<close>

lemma length_partial_with:
  "good_dest dest \<Longrightarrow> length t = 16 \<Longrightarrow> length (partial_with dest t) < RTRV_PATH_MAX"
  by (auto simp: partial_with_def partial_entry_def splittable_def size_consts)

lemma wp_partial_name:
  assumes "RTRV_TOKEN_SIZE \<le> length digest"
  shows "wp (rtrv_partial_name dest digest RTRV_PATH_MAX) Q w =
    (if good_dest dest then Q (Ok (partial_path dest digest)) w
     else Q Fail (w\<lparr>err := err w @ [PathTooLong dest]\<rparr>))"
proof (cases "good_dest dest")
  case True
  let ?t = "hex_of (take RTRV_TOKEN_SIZE digest)"
  have t: "Option.bind (sha256_hex digest RTRV_TOKEN_SIZE) (cstr_put (RTRV_TOKEN_SIZE * 2 + 1)) = Some ?t"
    and len: "length ?t = 16"
    using assms by (simp_all add: sha256_hex_eq cstr_put_def RTRV_TOKEN_SIZE_def)
  note room = length_partial_with [OF True len]
  show ?thesis
  proof (cases "CHR ''/'' \<in> set dest")
    case False
    with True t room show ?thesis
      by (auto simp: rtrv_partial_name_def wp_simps snprintf_def partial_path_def partial_with_def
          partial_entry_def)
  next
    case slash: True
    with True t room show ?thesis
      by (auto simp: rtrv_partial_name_def wp_simps snprintf_def partial_path_def partial_with_def
          partial_entry_def)
  qed
next
  case False
  then show ?thesis by (simp add: rtrv_partial_name_def wp_simps)
qed

definition comps :: "string \<Rightarrow> string list" where
  "comps s = filter (\<lambda>c. c \<noteq> [] \<and> c \<noteq> ''.'') (split_slash s)"

lemma resolve_comps: "resolve p = (p \<noteq> [] \<and> hd p = CHR ''/'', comps p)"
  by (simp add: resolve_def comps_def)

lemma split_slash_nonempty: "split_slash s \<noteq> []"
  by (induction s) (auto split: list.splits)

lemma split_slash_slash: "split_slash (a @ CHR ''/'' # b) = split_slash a @ split_slash b"
  using split_slash_nonempty by (induction a) (auto split: list.splits)

lemma split_slash_plain: "CHR ''/'' \<notin> set a \<Longrightarrow> split_slash (a @ b) = (a @ hd (split_slash b)) # tl (split_slash b)"
  using split_slash_nonempty by (induction a) (auto split: list.splits)

lemma comps_slash: "comps (a @ CHR ''/'' # b) = comps a @ comps b"
  by (simp add: comps_def split_slash_slash)

lemma comps_plain: "CHR ''/'' \<notin> set a \<Longrightarrow> comps a = (if a = [] \<or> a = ''.'' then [] else [a])"
  using split_slash_plain [of a "[]"] by (simp add: comps_def)

lemma path_base_no_slash: "CHR ''/'' \<notin> set (path_base p)"
proof (cases "last_slash p")
  case None
  then have "CHR ''/'' \<notin> set p" by (simp add: last_slash_None)
  with None show ?thesis by (simp add: path_base_def)
next
  case (Some i)
  with last_slash_Some [OF Some] show ?thesis by (simp add: path_base_def)
qed

text \<open>Where the path and a sibling of its last component resolve to.\<close>

lemma resolve_dest: "resolve dest = (fst (resolve dest), comps (path_dir dest) @ comps (path_base dest))"
proof (cases "last_slash dest")
  case None
  then show ?thesis by (simp add: resolve_comps path_dir_def path_base_def comps_def)
next
  case (Some i)
  then have "dest = take i dest @ CHR ''/'' # path_base dest"
    using last_slash_Some [OF Some] by (simp add: path_base_def)
  then have "comps dest = comps (take i dest) @ comps (path_base dest)"
    by (metis comps_slash)
  moreover have "comps (take i dest) = comps (path_dir dest)"
    using Some by (simp add: path_dir_def comps_def)
  ultimately show ?thesis by (simp add: resolve_comps)
qed

lemma resolve_sibling:
  assumes "name \<noteq> []" "hd name \<noteq> CHR ''/''"
  shows "resolve (if CHR ''/'' \<notin> set dest then name else path_dir dest @ ''/'' @ name)
    = (fst (resolve dest), comps (path_dir dest) @ comps name)"
proof (cases "last_slash dest")
  case None
  then have "CHR ''/'' \<notin> set dest" by (simp add: last_slash_None)
  then have "fst (resolve dest) = False" by (cases dest) (auto simp: resolve_comps)
  moreover have "comps (path_dir dest) = []" using None by (simp add: path_dir_def comps_def)
  ultimately show ?thesis
    using \<open>CHR ''/'' \<notin> set dest\<close> assms by (simp add: resolve_comps)
next
  case (Some i)
  then have "CHR ''/'' \<in> set dest" by (metis last_slash_None option.distinct(1))
  moreover have "path_dir dest \<noteq> [] \<and> (hd (path_dir dest) = CHR ''/'' \<longleftrightarrow> fst (resolve dest))"
    using Some last_slash_Some [OF Some] by (cases dest) (auto simp: path_dir_def resolve_comps)
  ultimately show ?thesis
    by (simp add: resolve_comps comps_slash)
qed

lemma comps_partial_entry:
  obtains x xs where "comps (partial_entry dest t) = (CHR ''.'' # path_base dest @ x) # xs" "x \<noteq> []"
proof -
  let ?e = "partial_entry dest t"
  have "?e = (''.'' @ path_base dest) @ ''.'' @ t @ ''.part''" by (simp add: partial_entry_def)
  then have "split_slash ?e = ((''.'' @ path_base dest) @ hd (split_slash (''.'' @ t @ ''.part'')))
      # tl (split_slash (''.'' @ t @ ''.part''))"
    using path_base_no_slash [of dest] split_slash_plain [of "''.'' @ path_base dest"] by simp
  moreover have "hd (split_slash (''.'' @ t @ ''.part'')) \<noteq> []"
    using split_slash_plain [of "''.''" "t @ ''.part''"] by simp
  ultimately show ?thesis using that by (auto simp: comps_def)
qed

lemma resolve_partial_with:
  "resolve (partial_with dest t) = (fst (resolve dest), comps (path_dir dest) @ comps (partial_entry dest t))"
  using resolve_sibling [of "partial_entry dest t" dest] by (simp add: partial_with_def partial_entry_def)

text \<open>A partial is never the destination itself, whatever characters follow its prefix.\<close>

lemma partial_not_dest: "resolve (partial_with dest t) \<noteq> resolve dest"
proof
  assume "resolve (partial_with dest t) = resolve dest"
  then have "comps (partial_entry dest t) = comps (path_base dest)"
    using resolve_partial_with [of dest t] resolve_dest [of dest] by (metis same_append_eq snd_conv)
  moreover obtain x xs where "comps (partial_entry dest t) = (CHR ''.'' # path_base dest @ x) # xs" "x \<noteq> []"
    by (rule comps_partial_entry)
  ultimately show False
    using comps_plain [OF path_base_no_slash [of dest]] by (auto split: if_splits)
qed

text \<open>Nor is it the directory of the destination or of another partial.\<close>

lemma partial_not_parent:
  "resolve (partial_with dest t) \<noteq> parent (resolve dest)"
  "CHR ''/'' \<notin> set t' \<Longrightarrow> resolve (partial_with dest t) \<noteq> parent (resolve (partial_with dest t'))"
proof -
  have long: "length (comps (path_dir dest)) < length (snd (resolve (partial_with dest t)))"
    by (rule comps_partial_entry [of dest t]) (simp add: resolve_partial_with)
  have "length (snd (parent (resolve dest))) \<le> length (comps (path_dir dest))"
    by (subst resolve_dest) (simp add: parent_def comps_plain [OF path_base_no_slash])
  with long show "resolve (partial_with dest t) \<noteq> parent (resolve dest)" by auto
  assume t': "CHR ''/'' \<notin> set t'"
  then have "CHR ''/'' \<notin> set (partial_entry dest t')"
    using path_base_no_slash [of dest] by (simp add: partial_entry_def)
  then have "comps (partial_entry dest t') = [partial_entry dest t']"
    by (simp add: comps_plain) (simp add: partial_entry_def)
  with long show "resolve (partial_with dest t) \<noteq> parent (resolve (partial_with dest t'))"
    by (auto simp: resolve_partial_with [of dest t'] parent_def)
qed

text \<open>Without a slash in its token, a partial is an entry of the directory of the destination.\<close>

lemma resolve_path_dir: "resolve (path_dir dest) = (fst (resolve dest), comps (path_dir dest))"
proof (cases "last_slash dest")
  case None
  then have "CHR ''/'' \<notin> set dest" by (simp add: last_slash_None)
  then show ?thesis using None by (cases dest) (auto simp: resolve_comps path_dir_def)
next
  case (Some i)
  then show ?thesis
    using last_slash_Some [OF Some] by (cases dest) (auto simp: path_dir_def resolve_comps)
qed

lemma resolve_partial_plain:
  assumes "CHR ''/'' \<notin> set t"
  shows "resolve (partial_with dest t) = (fst (resolve dest), comps (path_dir dest) @ [partial_entry dest t])"
    "parent (resolve (partial_with dest t)) = resolve (path_dir dest)"
proof -
  have "CHR ''/'' \<notin> set (partial_entry dest t)"
    using path_base_no_slash [of dest] assms by (simp add: partial_entry_def)
  then have "comps (partial_entry dest t) = [partial_entry dest t]"
    by (simp add: comps_plain) (simp add: partial_entry_def)
  then show r: "resolve (partial_with dest t) = (fst (resolve dest), comps (path_dir dest) @ [partial_entry dest t])"
    by (simp add: resolve_partial_with)
  show "parent (resolve (partial_with dest t)) = resolve (path_dir dest)"
    by (simp add: r parent_def resolve_path_dir)
qed

section \<open>Finding the partial\<close>

lemma is_partial_entry_iff:
  "is_partial_entry prefix e \<longleftrightarrow> (\<exists>t. length t = 16 \<and> e = prefix @ t @ ''.part'')"
proof
  assume *: "is_partial_entry prefix e"
  define t where "t = take 16 (drop (length prefix) e)"
  have len: "length e = length prefix + 21" and pre: "take (length prefix) e = prefix"
    and suf: "drop (length prefix + 16) e = ''.part''"
    using * by (auto simp: is_partial_entry_def RTRV_TOKEN_SIZE_def add.commute)
  have "e = take (length prefix) e @ t @ drop (length prefix + 16) e"
    by (simp add: t_def take_append_drop_mid)
  then have "e = prefix @ t @ ''.part''" using pre suf by simp
  moreover have "length t = 16" using len by (simp add: t_def)
  ultimately show "\<exists>t. length t = 16 \<and> e = prefix @ t @ ''.part''" by blast
next
  assume "\<exists>t. length t = 16 \<and> e = prefix @ t @ ''.part''"
  then show "is_partial_entry prefix e"
    by (auto simp: is_partial_entry_def RTRV_TOKEN_SIZE_def)
qed

text \<open>The partials of \<open>dest\<close> among the entries of its directory.\<close>

definition partials_of :: "string \<Rightarrow> string list \<Rightarrow> string list" where
  "partials_of dest es = filter (is_partial_entry (''.'' @ path_base dest @ ''.'')) es"

lemma scan_entries_eq:
  "scan_entries prefix es n m =
     (n + length (filter (is_partial_entry prefix) es),
      if filter (is_partial_entry prefix) es = [] then m
      else take (RTRV_PATH_MAX - 1) (last (filter (is_partial_entry prefix) es)))"
  by (induction es arbitrary: n m) (simp_all add: snprintf_def)

text \<open>The part after \<open>opendir\<close>, which cannot fail.\<close>

definition find_opened :: "string \<Rightarrow> string list \<Rightarrow> (string \<times> u64 \<times> bytes) option cmd" where
  "find_opened dest es =
     (let (found, match) = scan_entries (''.'' @ path_base dest @ ''.'') es 0 [] in andthen closedir (\<lambda>_.
      if found \<noteq> 1 then ret None
      else let path_out = fst (snprintf RTRV_PATH_MAX
             (if path_dir dest = ''.'' \<and> CHR ''/'' \<notin> set dest then match else path_dir dest @ ''/'' @ match))
           in andthen (stat path_out) (\<lambda>st. case st of None \<Rightarrow> ret None
                   | Some n \<Rightarrow> (case scan_token RTRV_TOKEN_SIZE
                               (drop (length match - 5 - RTRV_TOKEN_SIZE * 2) match) of
                          None \<Rightarrow> ret None
                        | Some token \<Rightarrow> ret (Some (path_out, word_of_nat (st_size n), token))))))"

lemma partial_entry_inject [simp]: "partial_entry dest t = partial_entry dest t' \<longleftrightarrow> t = t'"
  by (simp add: partial_entry_def)

lemma andthen_split_path:
  "splittable p ds bs \<Longrightarrow> andthen (rtrv_split_path p ds bs) f = f (path_dir p, path_base p)"
  by (rule ext) (simp add: andthen_def attempt_def rtrv_split_path_eq)

lemma find_partial_opened:
  assumes "good_dest dest"
  shows "rtrv_find_partial dest RTRV_PATH_MAX =
    andthen (opendir (path_dir dest)) (\<lambda>d. case d of None \<Rightarrow> failed | Some es \<Rightarrow> find_opened dest es)"
proof -
  have "length (path_base dest) < 256" using assms by (simp add: splittable_def RTRV_MAX_NAME_def)
  then have "fst (snprintf (RTRV_MAX_NAME + 8) (''.'' @ path_base dest @ ''.'')) = ''.'' @ path_base dest @ ''.''"
    by (simp add: RTRV_MAX_NAME_def snprintf_def)
  then show ?thesis
    unfolding rtrv_find_partial_def andthen_split_path [OF assms] prod.case
    by (simp only: find_opened_def Let_def)
qed

lemma wp_find_opened:
  assumes opened: "open_files w = Suc n" and dest: "good_dest dest"
    and none: "\<not> (\<exists>t m token. length t = 16 \<and> partials_of dest es = [partial_entry dest t] \<and>
        node_at (fs w) (partial_with dest t) = Some m \<and>
        scan_token RTRV_TOKEN_SIZE (t @ ''.part'') = Some token) \<Longrightarrow> Q (Ok None) (w\<lparr>open_files := n\<rparr>)"
    and some: "\<And>t m token. length t = 16 \<Longrightarrow> partials_of dest es = [partial_entry dest t] \<Longrightarrow>
      node_at (fs w) (partial_with dest t) = Some m \<Longrightarrow>
      scan_token RTRV_TOKEN_SIZE (t @ ''.part'') = Some token \<Longrightarrow>
      Q (Ok (Some (partial_with dest t, word_of_nat (st_size m), token))) (w\<lparr>open_files := n\<rparr>)"
  shows "wp (find_opened dest es) Q w"
proof (cases "\<exists>e. partials_of dest es = [e]")
  case False
  then have "length (partials_of dest es) \<noteq> 1" by (auto simp: length_Suc_conv)
  then obtain k m where "scan_entries (''.'' @ path_base dest @ ''.'') es 0 [] = (k, m)" "k \<noteq> 1"
    by (metis partials_of_def scan_entries_eq add_0)
  then show ?thesis using none False opened by (auto simp: find_opened_def wp_simps)
next
  case True
  then obtain e where e: "partials_of dest es = [e]" by blast
  then have "is_partial_entry (''.'' @ path_base dest @ ''.'') e"
    by (auto simp: partials_of_def filter_eq_Cons_iff)
  then obtain t where t: "length t = 16" "e = partial_entry dest t"
    by (auto simp: is_partial_entry_iff partial_entry_def)
  have "length e < RTRV_PATH_MAX"
    using dest t by (simp add: partial_entry_def RTRV_PATH_MAX_def splittable_def RTRV_MAX_NAME_def)
  then have scan: "scan_entries (''.'' @ path_base dest @ ''.'') es 0 [] = (1, e)"
    using e unfolding partials_of_def scan_entries_eq by simp
  have "CHR ''/'' \<notin> set dest \<Longrightarrow> path_dir dest = ''.''"
    by (simp add: path_dir_def flip: last_slash_None)
  then have path: "(if path_dir dest = ''.'' \<and> CHR ''/'' \<notin> set dest then e else path_dir dest @ ''/'' @ e)
      = partial_with dest t"
    using t by (simp add: partial_with_def)
  have tok: "drop (length e - 5 - RTRV_TOKEN_SIZE * 2) e = t @ ''.part''"
    using t by (simp add: partial_entry_def RTRV_TOKEN_SIZE_def)
  have room: "fst (snprintf RTRV_PATH_MAX (partial_with dest t)) = partial_with dest t"
    using length_partial_with [OF dest t(1)] by (simp add: snprintf_def)
  show ?thesis
    unfolding find_opened_def scan Let_def prod.case path tok room
    using opened some [OF t(1)] e t(2) none
    by (auto simp: wp_simps split: option.split)
qed

lemma wp_find_partial:
  assumes "\<And>f. Q Fail (w\<lparr>faults := f\<rparr>)" and "\<And>f. Q (Ok None) (w\<lparr>faults := f\<rparr>)"
    and "\<And>f t n token. good_dest dest \<Longrightarrow> length t = 16 \<Longrightarrow>
      partials_of dest (entries (fs w) (resolve (path_dir dest))) = [partial_entry dest t] \<Longrightarrow>
      node_at (fs w) (partial_with dest t) = Some n \<Longrightarrow>
      scan_token RTRV_TOKEN_SIZE (t @ ''.part'') = Some token \<Longrightarrow>
      Q (Ok (Some (partial_with dest t, word_of_nat (st_size n), token))) (w\<lparr>faults := f\<rparr>)"
  shows "wp (rtrv_find_partial dest RTRV_PATH_MAX) Q w"
proof (cases "good_dest dest")
  case False
  then show ?thesis using assms(1) [of "faults w"] by (simp add: rtrv_find_partial_def wp_simps)
next
  case good: True
  show ?thesis
    unfolding find_partial_opened [OF good] wp_andthen
  proof (rule wp_opendir, goal_cases)
    case (1 f)
    then show ?case using assms(1) by (simp add: wp_simps)
  next
    case (2 f)
    show ?case
      unfolding outcome.case option.case
      by (rule wp_find_opened [where n = "open_files w"]) (use good assms in simp_all)
  qed
qed

text \<open>When nothing is disturbed, the one partial of a destination is found.\<close>

lemma path_dir_nonempty: "path_dir dest \<noteq> []"
  using last_slash_Some [of dest] by (cases "last_slash dest") (auto simp: path_dir_def)

lemma find_partial_calm:
  assumes "faults w = []" and dest: "good_dest dest" and dir: "is_dir (fs w) (resolve (path_dir dest))"
    and es: "es = partials_of dest (entries (fs w) (resolve (path_dir dest)))"
  shows "es = [] \<Longrightarrow> rtrv_find_partial dest RTRV_PATH_MAX w = (Ok None, w)"
    and "8 \<le> length digest \<Longrightarrow> es = [partial_entry dest (hex_of (take 8 digest))] \<Longrightarrow>
      node_at (fs w) (partial_path dest digest) = Some n \<Longrightarrow>
      rtrv_find_partial dest RTRV_PATH_MAX w =
        (Ok (Some (partial_path dest digest, word_of_nat (st_size n), take 8 digest)), w)"
proof -
  let ?w = "w\<lparr>open_files := Suc (open_files w)\<rparr>" and ?es = "entries (fs w) (resolve (path_dir dest))"
  have eq: "wp (rtrv_find_partial dest RTRV_PATH_MAX) Q w = wp (find_opened dest ?es) Q ?w" for Q
    unfolding find_partial_opened [OF dest] wp_andthen
    using assms(1) dir path_dir_nonempty [of dest] by (simp add: wp_def opendir_calm split: outcome.splits prod.splits)
  note run = wp_find_opened [of ?w "open_files w", OF _ dest]
  {
    assume "es = []"
    then have "wp (rtrv_find_partial dest RTRV_PATH_MAX) (\<lambda>r w'. r = Ok None \<and> w' = w) w"
      unfolding eq by (intro run) (simp_all add: es)
    then show "rtrv_find_partial dest RTRV_PATH_MAX w = (Ok None, w)"
      by (auto simp: wp_def split: prod.splits)
  }
  assume d: "8 \<le> length digest" and one: "es = [partial_entry dest (hex_of (take 8 digest))]"
    and node: "node_at (fs w) (partial_path dest digest) = Some n"
  have "length (hex_of (take 8 digest)) = 16" using d by simp
  moreover have "scan_token RTRV_TOKEN_SIZE (hex_of (take 8 digest) @ ''.part'') = Some (take 8 digest)"
    using scan_token_hex [of "take 8 digest"] d by (simp add: RTRV_TOKEN_SIZE_def)
  ultimately have "wp (rtrv_find_partial dest RTRV_PATH_MAX) (\<lambda>r w'.
      r = Ok (Some (partial_path dest digest, word_of_nat (st_size n), take 8 digest)) \<and> w' = w) w"
    unfolding eq using one node
    by (intro run) (auto simp: es partial_path_def RTRV_TOKEN_SIZE_def)
  then show "rtrv_find_partial dest RTRV_PATH_MAX w =
      (Ok (Some (partial_path dest digest, word_of_nat (st_size n), take 8 digest)), w)"
    by (auto simp: wp_def split: prod.splits)
qed

lemma wp_file_exists [wp_simps]: "wp (file_exists p) Q w = Q (Ok (node_at (fs w) p \<noteq> None)) w"
  by (simp add: file_exists_def wp_simps)

end
