(* ===== verification/Rtrv_Py.thy ===== *)
theory Rtrv_Py
  imports Rtrv_Paths
begin

text \<open>
  What the server uses of Python and of the operating system. A Python function is a program, a tree of
  system calls with the continuation for every answer, so that the calls of several threads can be
  interleaved; exceptions are leaves. The served directory has inodes, because publication makes a
  hard link. The choices of the environment (what arrives, which calls fail) are explicit.
\<close>

section \<open>Programs\<close>

text \<open>
  The exceptions that the server distinguishes. \<open>FrameError\<close> carries a reason code and a text;
  \<open>ConnectionErr\<close>, \<open>TimeoutErr\<close>, \<open>FileExistsErr\<close> and \<open>OsErr\<close> are the kinds of \<open>OSError\<close> that occur, and
  \<open>OtherErr\<close> is any other exception.
\<close>

datatype exc = FrameError byte string | ConnectionErr | TimeoutErr | FileExistsErr | OsErr | OtherErr

datatype action =
    Recv nat | SendAll bytes
  | ListDir | IsFile string | Exists string | GetSize string | Sha256File string
  | OpenRead string | ReadAt nat nat nat | OpenAppend string | Append nat bytes | Close nat
  | Remove string | Link string string
  | Lock | Unlock | InFlight string | FlightAdd string | FlightDiscard string

datatype answer = Done | Yes (yes: bool) | Num (num: nat) | Data (data: bytes) | Names (listed: "string list") | Err exc

datatype 'a proc = Return 'a | Raise exc | Act action "answer \<Rightarrow> 'a proc"

primrec bind :: "'a proc \<Rightarrow> ('a \<Rightarrow> 'b proc) \<Rightarrow> 'b proc" where
  "bind (Return x) f = f x"
| "bind (Raise e) f = Raise e"
| "bind (Act a k) f = Act a (\<lambda>r. bind (k r) f)"

text \<open>\<open>try: p except e: h e\<close>, and \<open>try: p finally: q\<close>.\<close>

primrec catch :: "'a proc \<Rightarrow> (exc \<Rightarrow> 'a proc) \<Rightarrow> 'a proc" where
  "catch (Return x) h = Return x"
| "catch (Raise e) h = h e"
| "catch (Act a k) h = Act a (\<lambda>r. catch (k r) h)"

primrec finally_do :: "'a proc \<Rightarrow> unit proc \<Rightarrow> 'a proc" where
  "finally_do (Return x) q = bind q (\<lambda>_. Return x)"
| "finally_do (Raise e) q = bind q (\<lambda>_. Raise e)"
| "finally_do (Act a k) q = Act a (\<lambda>r. finally_do (k r) q)"

text \<open>A system call, with its answer read by \<open>f\<close>; an error is raised.\<close>

definition call :: "action \<Rightarrow> (answer \<Rightarrow> 'a) \<Rightarrow> 'a proc" where
  "call a f = Act a (\<lambda>r. case r of Err e \<Rightarrow> Raise e | _ \<Rightarrow> Return (f r))"

abbreviation perform_call :: "action \<Rightarrow> unit proc" where
  "perform_call a \<equiv> call a (\<lambda>_. ())"

lemma bind_cong [fundef_cong]: "p = p' \<Longrightarrow> (\<And>x. f x = f' x) \<Longrightarrow> bind p f = bind p' f'"
  by (metis ext)

lemma bind_assoc: "bind (bind p f) g = bind p (\<lambda>x. bind (f x) g)"
  by (induction p) simp_all

section \<open>Integers\<close>

text \<open>\<open>int.from_bytes(bs, "big")\<close> and \<open>v.to_bytes(n, "big")\<close>, which raises when the value does not fit.\<close>

definition from_bytes :: "bytes \<Rightarrow> nat" where
  "from_bytes bs = foldl (\<lambda>v b. v * 256 + unat b) 0 bs"

definition int_bytes :: "nat \<Rightarrow> nat \<Rightarrow> bytes" where
  "int_bytes n v = map (\<lambda>i. word_of_nat (v div 256 ^ (n - Suc i))) [0..<n]"

definition to_bytes :: "nat \<Rightarrow> nat \<Rightarrow> bytes proc" where
  "to_bytes n v = (if v < 256 ^ n then Return (int_bytes n v) else Raise OtherErr)"

text \<open>Decimal digits (an f-string with an integer) and two upper-case hexadecimal digits (\<open>:02X\<close>).\<close>

fun decimal :: "nat \<Rightarrow> string" where
  "decimal n = (if n < 10 then [char_of (48 + n)] else decimal (n div 10) @ [char_of (48 + n mod 10)])"

declare decimal.simps [simp del]

definition hex_02X :: "byte \<Rightarrow> string" where
  "hex_02X b = [''0123456789ABCDEF'' ! (unat b div 16), ''0123456789ABCDEF'' ! (unat b mod 16)]"

text \<open>The bytes of a string: a Python string is represented by the characters of its UTF-8 encoding.\<close>

abbreviation encode :: "string \<Rightarrow> bytes" where
  "encode s \<equiv> map of_char s"

section \<open>Text\<close>

definition tail_byte :: "byte \<Rightarrow> bool" where
  "tail_byte b \<longleftrightarrow> 0x80 \<le> b \<and> b \<le> 0xBF"

text \<open>Well-formed UTF-8: no overlong forms, no surrogates, nothing above \<open>0x10FFFF\<close>.\<close>

fun utf8 :: "bytes \<Rightarrow> bool" where
  "utf8 [] = True"
| "utf8 (a # s) =
     (if a < 0x80 then utf8 s
      else if 0xC2 \<le> a \<and> a \<le> 0xDF then (case s of b # s \<Rightarrow> tail_byte b \<and> utf8 s | _ \<Rightarrow> False)
      else if 0xE0 \<le> a \<and> a \<le> 0xEF then
        (case s of
           b # c # s \<Rightarrow> tail_byte b \<and> (a = 0xE0 \<longrightarrow> 0xA0 \<le> b) \<and> (a = 0xED \<longrightarrow> b \<le> 0x9F) \<and> tail_byte c \<and> utf8 s
         | _ \<Rightarrow> False)
      else if 0xF0 \<le> a \<and> a \<le> 0xF4 then
        (case s of
           b # c # d # s \<Rightarrow> tail_byte b \<and> (a = 0xF0 \<longrightarrow> 0x90 \<le> b) \<and> (a = 0xF4 \<longrightarrow> b \<le> 0x8F) \<and>
             tail_byte c \<and> tail_byte d \<and> utf8 s
         | _ \<Rightarrow> False)
      else False)"

text \<open>
  \<open>bs.decode("utf-8")\<close> and \<open>s.encode("utf-8")\<close>. Neither accepts what is not UTF-8: a file name whose bytes
  are not UTF-8 is a string with surrogates in Python, here the characters of its bytes, and \<open>encode\<close>
  raises a \<open>UnicodeEncodeError\<close> for it.
\<close>

definition decode_utf8 :: "bytes \<Rightarrow> string proc" where
  "decode_utf8 bs = (if utf8 bs then Return (map (\<lambda>b. char_of (unat b)) bs) else Raise OtherErr)"

definition encode_utf8 :: "string \<Rightarrow> bytes proc" where
  "encode_utf8 s = (if utf8 (encode s) then Return (encode s) else Raise OtherErr)"

section \<open>The served directory\<close>

text \<open>An entry is a name for an inode, or a subdirectory with the size that \<open>stat\<close> gives for it.\<close>

datatype dirent = Ino nat | Subdir nat

record shared =
  dirents :: "(string \<times> dirent) list"
  inode :: "nat \<Rightarrow> bytes"
  next_ino :: nat
  in_flight :: "string set"
  lock :: "nat option"

text \<open>A name without slashes: the directory itself answers to a dot.\<close>

definition entry :: "shared \<Rightarrow> string \<Rightarrow> dirent option" where
  "entry S p = (if p = ''.'' then Some (Subdir 0) else map_of (dirents S) p)"

definition file_of :: "shared \<Rightarrow> string \<Rightarrow> bytes option" where
  "file_of S p = (case entry S p of Some (Ino i) \<Rightarrow> Some (inode S i) | _ \<Rightarrow> None)"

text \<open>No two names share an inode, and new inodes are new.\<close>

definition tidy :: "shared \<Rightarrow> bool" where
  "tidy S \<longleftrightarrow> (\<forall>n n' i. entry S n = Some (Ino i) \<and> entry S n' = Some (Ino i) \<longrightarrow> n = n') \<and>
     (\<forall>n i. entry S n = Some (Ino i) \<longrightarrow> i < next_ino S)"

lemma entry_simps [simp]:
  "entry (S\<lparr>inode := x\<rparr>) = entry S" "entry (S\<lparr>next_ino := n\<rparr>) = entry S"
  "entry (S\<lparr>in_flight := fl\<rparr>) = entry S" "entry (S\<lparr>lock := l\<rparr>) = entry S"
  by (simp_all add: entry_def fun_eq_iff)

lemma file_of_simps [simp]:
  "file_of (S\<lparr>in_flight := fl\<rparr>) = file_of S" "file_of (S\<lparr>lock := l\<rparr>) = file_of S"
  by (simp_all add: file_of_def fun_eq_iff split: option.split dirent.split)

lemma entry_add:
  "entry (S\<lparr>dirents := dirents S @ [(q, d)]\<rparr>) p = (if entry S p = None \<and> p = q then Some d else entry S p)"
  by (auto simp: entry_def map_add_def split: option.splits)

lemma entry_delete:
  "entry (S\<lparr>dirents := AList.delete q (dirents S)\<rparr>) p = (if p = q \<and> q \<noteq> ''.'' then None else entry S p)"
  by (simp add: entry_def delete_conv')

text \<open>
  What the environment chooses for one call: nothing fails, some bytes arrive (none when the peer has
  closed), the call raises, or it raises after a part of its data was written or sent.
\<close>

datatype choice = Fine | Arrive bytes | Break exc | Short nat exc

text \<open>
  The calls. \<open>None\<close> means that the thread waits (for the lock) or that the choice makes no sense for
  the call. \<open>os.remove\<close> of an existing file and the operations on the set in memory do not fail;
  every other call may.
\<close>

definition attempt_call :: "exc set \<Rightarrow> choice \<Rightarrow> shared \<Rightarrow> answer \<times> shared \<Rightarrow> (answer \<times> shared) option" where
  "attempt_call es c S r =
     (case c of Fine \<Rightarrow> Some r | Break e \<Rightarrow> if e \<in> es then Some (Err e, S) else None | _ \<Rightarrow> None)"

definition net_errors :: "exc set" where
  "net_errors = {ConnectionErr, TimeoutErr, OsErr}"

fun perform :: "nat \<Rightarrow> action \<Rightarrow> choice \<Rightarrow> shared \<Rightarrow> (answer \<times> shared) option" where
  "perform t (Recv n) c S =
     (case c of Arrive bs \<Rightarrow> if length bs \<le> n then Some (Data bs, S) else None
      | Fine \<Rightarrow> None | _ \<Rightarrow> attempt_call net_errors c S (Done, S))"
| "perform t (SendAll bs) c S =
     (case c of
        Short k e \<Rightarrow> if e \<in> net_errors then Some (Err e, S) else None
      | _ \<Rightarrow> attempt_call net_errors c S (Done, S))"
| "perform t ListDir c S = attempt_call {OsErr} c S (Names (map fst (dirents S)), S)"
| "perform t (IsFile p) c S =
     attempt_call {} c S (Yes (case entry S p of Some (Ino _) \<Rightarrow> True | _ \<Rightarrow> False), S)"
| "perform t (Exists p) c S = attempt_call {} c S (Yes (entry S p \<noteq> None), S)"
| "perform t (GetSize p) c S =
     attempt_call {OsErr} c S
       (case entry S p of
          Some (Ino i) \<Rightarrow> Num (length (inode S i)) | Some (Subdir n) \<Rightarrow> Num n | None \<Rightarrow> Err OsErr, S)"
| "perform t (Sha256File p) c S =
     attempt_call {OsErr} c S (case file_of S p of Some b \<Rightarrow> Data (sha256 b) | None \<Rightarrow> Err OsErr, S)"
| "perform t (OpenRead p) c S =
     attempt_call {OsErr} c S (case entry S p of Some (Ino i) \<Rightarrow> Num i | _ \<Rightarrow> Err OsErr, S)"
| "perform t (ReadAt i pos n) c S = attempt_call {OsErr} c S (Data (take n (drop pos (inode S i))), S)"
| "perform t (OpenAppend p) c S =
     attempt_call {OsErr} c S
       (case entry S p of
          Some (Ino i) \<Rightarrow> (Num i, S)
        | Some (Subdir _) \<Rightarrow> (Err OsErr, S)
        | None \<Rightarrow> (Num (next_ino S),
            S\<lparr>dirents := dirents S @ [(p, Ino (next_ino S))], inode := (inode S)(next_ino S := []),
              next_ino := Suc (next_ino S)\<rparr>))"
| "perform t (Append i bs) c S =
     (case c of
        Short k e \<Rightarrow>
          if e = OsErr then Some (Err OsErr, S\<lparr>inode := (inode S)(i := inode S i @ take k bs)\<rparr>) else None
      | _ \<Rightarrow> attempt_call {} c S (Done, S\<lparr>inode := (inode S)(i := inode S i @ bs)\<rparr>))"
| "perform t (Close i) c S = attempt_call {OsErr} c S (Done, S)"
| "perform t (Remove p) c S =
     attempt_call {} c S
       (case entry S p of
          Some (Ino _) \<Rightarrow> (Done, S\<lparr>dirents := AList.delete p (dirents S)\<rparr>)
        | _ \<Rightarrow> (Err OsErr, S))"
| "perform t (Link p q) c S =
     attempt_call {OsErr} c S
       (case entry S p of
          Some (Ino i) \<Rightarrow>
            if entry S q \<noteq> None then (Err FileExistsErr, S)
            else (Done, S\<lparr>dirents := dirents S @ [(q, Ino i)]\<rparr>)
        | _ \<Rightarrow> (Err OsErr, S))"
| "perform t Lock c S = (if lock S = None then attempt_call {} c S (Done, S\<lparr>lock := Some t\<rparr>) else None)"
| "perform t Unlock c S =
     attempt_call {} c S (if lock S = None then (Err OtherErr, S) else (Done, S\<lparr>lock := None\<rparr>))"
| "perform t (InFlight p) c S = attempt_call {} c S (Yes (p \<in> in_flight S), S)"
| "perform t (FlightAdd p) c S = attempt_call {} c S (Done, S\<lparr>in_flight := insert p (in_flight S)\<rparr>)"
| "perform t (FlightDiscard p) c S = attempt_call {} c S (Done, S\<lparr>in_flight := in_flight S - {p}\<rparr>)"

section \<open>Running one thread\<close>

text \<open>
  A thread that runs alone in a calm environment: the pieces of the input arrive as they are asked
  for (an empty answer is the end of the stream), and no call fails unless the directory makes it
  fail. The result is \<open>None\<close> if the thread waits for the lock for ever.
\<close>

record conn =
  inbox :: "bytes list"
  sent :: bytes
  disk :: shared

fun calm_step :: "action \<Rightarrow> conn \<Rightarrow> (answer \<times> conn) option" where
  "calm_step (Recv n) w =
     (case inbox w of
        [] \<Rightarrow> Some (Data [], w)
      | b # bs \<Rightarrow> Some (Data (take n b), w\<lparr>inbox := (if length b \<le> n then bs else drop n b # bs)\<rparr>))"
| "calm_step (SendAll b) w = Some (Done, w\<lparr>sent := sent w @ b\<rparr>)"
| "calm_step a w =
     (case perform 0 a Fine (disk w) of None \<Rightarrow> None | Some (r, S) \<Rightarrow> Some (r, w\<lparr>disk := S\<rparr>))"

primrec run :: "'a proc \<Rightarrow> conn \<Rightarrow> ((exc + 'a) \<times> conn) option" where
  "run (Return x) w = Some (Inr x, w)"
| "run (Raise e) w = Some (Inl e, w)"
| "run (Act a k) w = (case calm_step a w of None \<Rightarrow> None | Some (r, w') \<Rightarrow> run (k r) w')"

end
