(* ===== verification/Rtrv_Server.thy ===== *)
theory Rtrv_Server
  imports Rtrv_Py
begin

text \<open>
  The server of \<open>src/retriever/server.py\<close> with the parts of \<open>src/retriever/protocol.py\<close> that it uses:
  frames, error payloads, file names, partial names, the handlers of LIST, GET and PUT, and the
  session with its exception handlers. Names are those of the source; log messages are left out.
\<close>

section \<open>Frames\<close>

definition MAGIC :: bytes where "MAGIC = [0x52, 0x54, 0x52, 0x56]"
definition VERSION :: byte where "VERSION = 3"
definition HEADER_SIZE :: nat where "HEADER_SIZE = 14"
definition HASH_SIZE :: nat where "HASH_SIZE = 32"
definition TOKEN_SIZE :: nat where "TOKEN_SIZE = 8"
definition GET_PREFIX :: nat where "GET_PREFIX = 8 + TOKEN_SIZE + 2"
definition GET_META :: nat where "GET_META = 8 + 8 + HASH_SIZE"
definition PUT_PREFIX :: nat where "PUT_PREFIX = 8 + HASH_SIZE + 2"
definition MAX_FILE_SIZE :: nat where "MAX_FILE_SIZE = 1024 ^ 3"
definition PARTIAL_MAX_AGE :: int where "PARTIAL_MAX_AGE = 24 * 3600"

definition T_LIST :: byte where "T_LIST = 0x00"
definition T_GET :: byte where "T_GET = 0x01"
definition T_PUT :: byte where "T_PUT = 0x02"
definition T_HELLO :: byte where "T_HELLO = 0x10"
definition T_QUIT :: byte where "T_QUIT = 0x11"
definition T_OK :: byte where "T_OK = 0x80"
definition T_ERROR :: byte where "T_ERROR = 0x81"

definition E_BAD_NAME :: byte where "E_BAD_NAME = 1"
definition E_NOT_FOUND :: byte where "E_NOT_FOUND = 2"
definition E_ALREADY_EXISTS :: byte where "E_ALREADY_EXISTS = 3"
definition E_MALFORMED :: byte where "E_MALFORMED = 4"
definition E_UNSUPPORTED_VERSION :: byte where "E_UNSUPPORTED_VERSION = 5"
definition E_INTERNAL :: byte where "E_INTERNAL = 6"
definition E_TOO_LARGE :: byte where "E_TOO_LARGE = 7"
definition E_CORRUPT :: byte where "E_CORRUPT = 8"

definition PAYLOAD_CAPS :: "byte \<Rightarrow> nat option" where
  "PAYLOAD_CAPS = map_of
     [(T_HELLO, 0), (T_QUIT, 0), (T_LIST, 0), (T_GET, 64 * 1024), (T_PUT, 64 * 1024), (T_OK, 64 * 1024),
      (T_ERROR, 64 * 1024)]"

definition write_frame_header :: "byte \<Rightarrow> nat \<Rightarrow> unit proc" where
  "write_frame_header frame_type payload_len =
     bind (to_bytes 8 payload_len) (\<lambda>l. perform_call (SendAll (MAGIC @ [VERSION, frame_type] @ l)))"

definition write_frame :: "byte \<Rightarrow> bytes \<Rightarrow> unit proc" where
  "write_frame frame_type payload =
     bind (to_bytes 8 (length payload)) (\<lambda>l.
     perform_call (SendAll ((MAGIC @ [VERSION, frame_type] @ l) @ payload)))"

function read_exact_more :: "nat \<Rightarrow> bytes \<Rightarrow> bytes proc" where
  "read_exact_more n acc =
     (if length acc < n then
        bind (call (Recv (n - length acc)) data) (\<lambda>chunk.
        if chunk = [] then Raise ConnectionErr else read_exact_more n (acc @ chunk))
      else Return acc)"
  by pat_completeness auto
termination
  by (relation "measure (\<lambda>(n, acc). n - length acc)") (auto intro!: diff_less_mono2)

declare read_exact_more.simps [simp del]

definition read_exact_bytes :: "nat \<Rightarrow> bytes proc" where
  "read_exact_bytes n = read_exact_more n []"

definition read_frame_header :: "(byte \<times> nat) proc" where
  "read_frame_header =
     bind (read_exact_bytes HEADER_SIZE) (\<lambda>header.
     if take 4 header \<noteq> MAGIC
     then Raise (FrameError E_UNSUPPORTED_VERSION ''bad magic: not a retriever v2 peer'')
     else if header ! 4 \<noteq> VERSION
     then Raise (FrameError E_UNSUPPORTED_VERSION (''unsupported version '' @ decimal (unat (header ! 4))))
     else let frame_type = header ! 5 in
       if PAYLOAD_CAPS frame_type = None
       then Raise (FrameError E_MALFORMED (''unknown frame type 0x'' @ hex_02X frame_type))
       else Return (frame_type, from_bytes (take 8 (drop 6 header))))"

definition read_frame :: "(byte \<times> bytes) proc" where
  "read_frame =
     bind read_frame_header (\<lambda>(frame_type, payload_len).
     if payload_len > the (PAYLOAD_CAPS frame_type)
     then Raise (FrameError E_MALFORMED (''payload of '' @ decimal payload_len @
            '' bytes exceeds cap for type 0x'' @ hex_02X frame_type))
     else bind (if payload_len \<noteq> 0 then read_exact_bytes payload_len else Return []) (\<lambda>payload.
       Return (frame_type, payload)))"

definition pack_error :: "byte \<Rightarrow> string \<Rightarrow> bytes proc" where
  "pack_error reason message =
     bind (to_bytes 2 (length (encode message))) (\<lambda>l. Return ([reason] @ l @ encode message))"

definition send_error :: "byte \<Rightarrow> string \<Rightarrow> unit proc" where
  "send_error reason message = bind (pack_error reason message) (write_frame T_ERROR)"

section \<open>Names\<close>

text \<open>
  \<open>decode("utf-8", errors="replace")\<close>: bytes below 128 stand for themselves; a sequence with higher
  bytes becomes characters above 127, here one per byte. Such a name is refused by \<open>check_filename\<close>
  whatever these characters are and however many.
\<close>

definition decode_replace :: "bytes \<Rightarrow> string" where
  "decode_replace = map (\<lambda>b. if b < 128 then char_of (unat b) else char_of (255 :: nat))"

definition parse_name :: "bytes \<Rightarrow> (string \<times> bytes) proc" where
  "parse_name payload =
     (if length payload < 2
      then Raise (FrameError E_MALFORMED ''payload too short for a name length'')
      else let name_len = from_bytes (take 2 payload) in
        if length payload < 2 + name_len
        then Raise (FrameError E_MALFORMED ''payload shorter than its name_len claims'')
        else Return (decode_replace (take name_len (drop 2 payload)), drop (2 + name_len) payload))"

fun has_dotdot :: "string \<Rightarrow> bool" where
  "has_dotdot (c # d # s) = (c = CHR ''.'' \<and> d = CHR ''.'' \<or> has_dotdot (d # s))"
| "has_dotdot _ = False"

definition check_filename :: "string \<Rightarrow> bool" where
  "check_filename name =
     (if name = [] \<or> length name > 255 then False
      else if CHR ''/'' \<in> set name \<or> CHR 0x5C \<in> set name \<or> has_dotdot name then False
      else list_all (\<lambda>ch. 32 \<le> (of_char ch :: nat) \<and> (of_char ch :: nat) < 127) name)"

definition os_path_split :: "string \<Rightarrow> string \<times> string" where
  "os_path_split p =
     (let i = (case last_slash p of Some i \<Rightarrow> Suc i | None \<Rightarrow> 0); head = take i p in
      (if list_all (\<lambda>c. c = CHR ''/'') head then head else rev (dropWhile (\<lambda>c. c = CHR ''/'') (rev head)),
       drop i p))"

definition os_path_join :: "string \<Rightarrow> string \<Rightarrow> string" where
  "os_path_join a b =
     (if take 1 b = ''/'' then b else if a = [] \<or> last a = CHR ''/'' then a @ b else a @ ''/'' @ b)"

definition partial_name :: "string \<Rightarrow> bytes \<Rightarrow> string" where
  "partial_name name digest =
     (let (directory, base) = os_path_split name in
      os_path_join directory (''.'' @ base @ ''.'' @ hex_of (take TOKEN_SIZE digest) @ ''.part''))"

text \<open>The names that \<open>glob(".*.part")\<close> finds.\<close>

definition glob_partial :: "string \<Rightarrow> bool" where
  "glob_partial p \<longleftrightarrow> 6 \<le> length p \<and> take 1 p = ''.'' \<and> drop (length p - 5) p = ''.part''"

text \<open>
  \<open>mtime path\<close> is the answer of \<open>getmtime\<close>, in seconds; \<open>None\<close> stands for an \<open>OSError\<close> of \<open>getmtime\<close> or of the
  removal, which both leave the file where it is.
\<close>

definition outdated :: "int \<Rightarrow> (string \<Rightarrow> int option) \<Rightarrow> string \<Rightarrow> bool" where
  "outdated now mtime path = (case mtime path of Some t \<Rightarrow> now - t > PARTIAL_MAX_AGE | None \<Rightarrow> False)"

definition sweep_one :: "int \<Rightarrow> (string \<Rightarrow> int option) \<Rightarrow> string \<Rightarrow> shared \<times> nat \<Rightarrow> shared \<times> nat" where
  "sweep_one now mtime path = (\<lambda>(S, removed).
     if outdated now mtime path then
       (case perform 0 (Remove path) Fine S of
          Some (Done, S') \<Rightarrow> (S', removed + 1)
        | _ \<Rightarrow> (S, removed))
     else (S, removed))"

definition sweep_partials :: "int \<Rightarrow> (string \<Rightarrow> int option) \<Rightarrow> shared \<Rightarrow> shared \<times> nat" where
  "sweep_partials now mtime S = fold (sweep_one now mtime) (filter glob_partial (map fst (dirents S))) (S, 0)"

section \<open>The handlers\<close>

fun join_names :: "bytes list \<Rightarrow> bytes" where
  "join_names [] = []"
| "join_names [n] = n"
| "join_names (n # ns) = n @ [0] @ join_names ns"

text \<open>The names are encoded one after the other; the first that cannot be encoded ends the handler.\<close>

fun encode_names :: "string list \<Rightarrow> bytes list proc" where
  "encode_names [] = Return []"
| "encode_names (n # ns) = bind (encode_utf8 n) (\<lambda>b. bind (encode_names ns) (\<lambda>bs. Return (b # bs)))"

definition handle_list :: "unit proc" where
  "handle_list =
     bind (call ListDir listed) (\<lambda>ns. bind (encode_names ns) (\<lambda>bs. write_frame T_OK (join_names bs)))"

lemma encode_names_eq:
  "encode_names ns = (if \<forall>n \<in> set ns. utf8 (encode n) then Return (map encode ns) else Raise OtherErr)"
  by (induction ns) (simp_all add: encode_utf8_def)

text \<open>The loop that streams a file from a position: at most 64 KiB at a time.\<close>

function send_file_loop :: "nat \<Rightarrow> nat \<Rightarrow> nat \<Rightarrow> unit proc" where
  "send_file_loop f pos remaining =
     (if remaining > 0 then
        bind (call (ReadAt f pos (min 65536 remaining)) data) (\<lambda>chunk.
        if chunk = [] then Return ()
        else bind (perform_call (SendAll chunk)) (\<lambda>_.
             send_file_loop f (pos + length chunk) (remaining - length chunk)))
      else Return ())"
  by pat_completeness auto
termination
  by (relation "measure (\<lambda>(f, pos, remaining). remaining)") auto

declare send_file_loop.simps [simp del]

definition handle_get :: "bytes \<Rightarrow> unit proc" where
  "handle_get payload =
     (if length payload < GET_PREFIX
      then Raise (FrameError E_MALFORMED ''GET payload shorter than its fixed fields'')
      else let offset = from_bytes (take 8 payload); token = take 8 (drop 8 payload) in
        bind (parse_name (drop 16 payload)) (\<lambda>(name, rest).
        if rest \<noteq> [] then Raise (FrameError E_MALFORMED ''trailing bytes after GET name'')
        else if \<not> check_filename name then send_error E_BAD_NAME ''invalid filename''
        else bind (call (IsFile name) yes) (\<lambda>found.
        if \<not> found then send_error E_NOT_FOUND ''not found on server''
        else bind (call (GetSize name) num) (\<lambda>size.
        if offset > size then Raise (FrameError E_MALFORMED ''GET offset is past the end of the file'')
        else bind (call (Sha256File name) data) (\<lambda>digest.
        let start = (if offset \<noteq> 0 \<and> token = take TOKEN_SIZE digest then offset else 0);
            body_len = size - start
        in bind (write_frame_header T_OK (GET_META + body_len)) (\<lambda>_.
           bind (to_bytes 8 size) (\<lambda>size_bytes.
           bind (to_bytes 8 start) (\<lambda>start_bytes.
           bind (perform_call (SendAll (size_bytes @ start_bytes @ digest))) (\<lambda>_.
           bind (call (OpenRead name) num) (\<lambda>f.
           finally_do (send_file_loop f start body_len) (perform_call (Close f))))))))))))"

text \<open>The loop that appends what arrives to the partial.\<close>

function upload_loop :: "nat \<Rightarrow> nat \<Rightarrow> nat \<Rightarrow> unit proc" where
  "upload_loop file written file_size =
     (if written < file_size then
        bind (call (Recv (min 65536 (file_size - written))) data) (\<lambda>chunk.
        if chunk = [] then Raise ConnectionErr
        else bind (perform_call (Append file chunk)) (\<lambda>_.
             upload_loop file (written + length chunk) file_size))
      else Return ())"
  by pat_completeness auto
termination
  by (relation "measure (\<lambda>(file, written, file_size). file_size - written)") (auto intro!: diff_less_mono2)

declare upload_loop.simps [simp del]

text \<open>The check of the received bytes, and their publication by a hard link.\<close>

definition publish_upload :: "string \<Rightarrow> string \<Rightarrow> bytes \<Rightarrow> unit proc" where
  "publish_upload name partial digest =
     bind (call (Sha256File partial) data) (\<lambda>actual.
     if actual \<noteq> digest then
       bind (perform_call (Remove partial)) (\<lambda>_. send_error E_CORRUPT ''content did not match the stated hash'')
     else
       bind (call (OpenRead partial) num) (\<lambda>f.
       bind (finally_do (call (ReadAt f 0 8) data) (perform_call (Close f))) (\<lambda>_.
       bind (catch (bind (perform_call (Link partial name)) (\<lambda>_. Return True))
                   (\<lambda>e. if e = FileExistsErr then Return False else Raise e)) (\<lambda>linked.
       if \<not> linked then
         bind (perform_call (Remove partial)) (\<lambda>_. send_error E_ALREADY_EXISTS ''file already exists on server'')
       else
         bind (perform_call (Remove partial)) (\<lambda>_. write_frame T_OK [])))))"

definition receive_upload :: "string \<Rightarrow> string \<Rightarrow> nat \<Rightarrow> bytes \<Rightarrow> unit proc" where
  "receive_upload name partial file_size digest =
     bind (bind (call (Exists partial) yes) (\<lambda>there. if there then call (GetSize partial) num else Return 0)) (\<lambda>have.
     bind (if have > file_size then bind (perform_call (Remove partial)) (\<lambda>_. Return 0) else Return have)
       (\<lambda>resume_offset.
     bind (bind (to_bytes 8 resume_offset) (write_frame T_OK)) (\<lambda>_.
     bind (call (OpenAppend partial) num) (\<lambda>file.
     bind (finally_do (upload_loop file resume_offset file_size) (perform_call (Close file))) (\<lambda>_.
     publish_upload name partial digest)))))"

text \<open>\<open>with _in_flight_lock: \<dots>\<close>: the lock is released on every way out.\<close>

definition with_lock :: "'a proc \<Rightarrow> 'a proc" where
  "with_lock p = bind (perform_call Lock) (\<lambda>_. finally_do p (perform_call Unlock))"

text \<open>One upload per partial: it is put in flight, received, and taken out on every way out.\<close>

definition admit_upload :: "string \<Rightarrow> string \<Rightarrow> nat \<Rightarrow> bytes \<Rightarrow> unit proc" where
  "admit_upload name partial file_size digest =
     bind (with_lock
        (bind (call (InFlight partial) yes) (\<lambda>busy.
         if busy then bind (send_error E_ALREADY_EXISTS ''an upload of this file is in progress'') (\<lambda>_. Return False)
         else bind (perform_call (FlightAdd partial)) (\<lambda>_. Return True)))) (\<lambda>admitted.
     if \<not> admitted then Return ()
     else finally_do (receive_upload name partial file_size digest)
            (with_lock (perform_call (FlightDiscard partial))))"

definition handle_put :: "bytes \<Rightarrow> unit proc" where
  "handle_put payload =
     (if length payload < PUT_PREFIX
      then Raise (FrameError E_MALFORMED ''PUT payload shorter than its fixed fields'')
      else let file_size = from_bytes (take 8 payload); digest = take HASH_SIZE (drop 8 payload) in
        bind (parse_name (drop (8 + HASH_SIZE) payload)) (\<lambda>(name, rest).
        if rest \<noteq> [] then Raise (FrameError E_MALFORMED ''trailing bytes after PUT name'')
        else if \<not> check_filename name then send_error E_BAD_NAME ''invalid filename''
        else if file_size > MAX_FILE_SIZE
        then send_error E_TOO_LARGE (''file exceeds the '' @ decimal MAX_FILE_SIZE @ '' byte limit'')
        else bind (call (Exists name) yes) (\<lambda>taken.
        if taken then send_error E_ALREADY_EXISTS ''file already exists on server''
        else admit_upload name (partial_name name digest) file_size digest)))"

section \<open>The session\<close>

text \<open>
  The body of \<open>handle_client\<close> in two parts, the handshake and one turn of the command loop; the value
  says whether the loop goes on. \<open>guarded\<close> is the exception handling around both.
\<close>

definition quietly :: "unit proc \<Rightarrow> bool proc" where
  "quietly p = catch (bind p (\<lambda>_. Return False))
     (\<lambda>e. if e \<in> {ConnectionErr, TimeoutErr, FileExistsErr, OsErr} then Return False else Raise e)"

definition guarded :: "bool proc \<Rightarrow> bool proc" where
  "guarded p = catch p (\<lambda>e. case e of
       FrameError reason message \<Rightarrow> quietly (send_error reason message)
     | TimeoutErr \<Rightarrow> Return False
     | ConnectionErr \<Rightarrow> Return False
     | _ \<Rightarrow> quietly (send_error E_INTERNAL ''internal server error''))"

definition session_hello :: "bool proc" where
  "session_hello = guarded
     (bind read_frame (\<lambda>(frame_type, _).
      if frame_type \<noteq> T_HELLO then Raise (FrameError E_MALFORMED ''expected HELLO before any command'')
      else bind (write_frame T_OK []) (\<lambda>_. Return True)))"

definition session_turn :: "bool proc" where
  "session_turn = guarded
     (bind (catch (bind read_frame (\<lambda>fr. Return (Some fr)))
              (\<lambda>e. if e = ConnectionErr then Return None else Raise e)) (\<lambda>got.
      case got of
        None \<Rightarrow> Return False
      | Some (frame_type, payload) \<Rightarrow>
          if frame_type = T_QUIT then bind (write_frame T_OK []) (\<lambda>_. Return False)
          else if frame_type = T_LIST then bind handle_list (\<lambda>_. Return True)
          else if frame_type = T_GET then bind (handle_get payload) (\<lambda>_. Return True)
          else if frame_type = T_PUT then bind (handle_put payload) (\<lambda>_. Return True)
          else Raise (FrameError E_MALFORMED ''expected a command frame'')))"

section \<open>Accepted names\<close>

lemma decode_encode:
  assumes "list_all (\<lambda>ch. (of_char ch :: nat) < 128) s"
  shows "decode_replace (encode s) = s"
  using assms
proof (induction s)
  case (Cons c s)
  then have "(of_char c :: nat) < 128" by simp
  moreover have "unat (of_char c :: byte) = of_char c mod 256"
    using unat_of_nat [where 'a = 8, of "of_char c"] by (simp add: of_nat_of_char)
  ultimately show ?case using Cons by (simp add: decode_replace_def word_less_nat_alt)
qed (simp add: decode_replace_def)

lemma check_filename_props:
  assumes "check_filename name"
  shows "name \<noteq> []" "length name \<le> 255" "CHR ''/'' \<notin> set name" "decode_replace (encode name) = name"
proof -
  show "name \<noteq> []" "length name \<le> 255" "CHR ''/'' \<notin> set name"
    using assms by (auto simp: check_filename_def split: if_splits)
  have "list_all (\<lambda>ch. (of_char ch :: nat) < 128) name"
    using assms by (auto simp: check_filename_def list_all_iff split: if_splits)
  then show "decode_replace (encode name) = name" by (rule decode_encode)
qed

lemma partial_name_plain:
  assumes "check_filename name"
  shows "partial_name name digest = ''.'' @ name @ ''.'' @ hex_of (take TOKEN_SIZE digest) @ ''.part''"
proof -
  have "last_slash name = None" using check_filename_props(3) [OF assms] by (simp add: last_slash_None)
  then show ?thesis by (simp add: partial_name_def os_path_split_def os_path_join_def)
qed

lemma glob_partial_name: "check_filename name \<Longrightarrow> glob_partial (partial_name name digest)"
  by (simp add: partial_name_plain glob_partial_def)

end
