(* ===== verification/Rtrv_Get.thy ===== *)
theory Rtrv_Get
  imports Rtrv_Paths
begin

text \<open>
  The download, \<open>rtrv_do_get\<close> of \<open>src/c/transfer.c\<close>, in its phases: offering a partial, the
  request, the reply with its metadata block, the body received into the partial, and the check of
  the hash before the partial is renamed to the destination.
\<close>

section \<open>The phases\<close>

text \<open>What is offered: whether there is one partial, its path, its size and its token.\<close>

definition offer_partial :: "string \<Rightarrow> (bool \<times> string \<times> u64 \<times> bytes) cmd" where
  "offer_partial dest =
     attempt (rtrv_find_partial dest RTRV_PATH_MAX)
       (\<lambda>found. case found of
           Some (existing, offset, token) \<Rightarrow> ret (True, existing, offset, token)
         | None \<Rightarrow> ret (False, [], 0, replicate RTRV_TOKEN_SIZE 0))
       (ret (False, [], 0, replicate RTRV_TOKEN_SIZE 0))"

text \<open>The request in its stack array: offset, token, length of the name, name.\<close>

definition build_get_request :: "bytes \<Rightarrow> u64 \<Rightarrow> bytes \<Rightarrow> string \<Rightarrow> bytes option" where
  "build_get_request request offset token remote_name =
     Option.bind (rtrv_put_u64 request 0 offset) (\<lambda>request.
     Option.bind (mem_put request 8 (take RTRV_TOKEN_SIZE token)) (\<lambda>request.
     Option.bind (rtrv_put_u16 request (8 + RTRV_TOKEN_SIZE) (word_of_nat (length remote_name))) (\<lambda>request.
     mem_put request (8 + RTRV_TOKEN_SIZE + 2) (map of_char remote_name))))"

text \<open>The reply: an ERROR frame is reported, an OK frame starts with the metadata block.\<close>

definition get_reply :: "bytes cmd" where
  "get_reply =
     andthen rtrv_read_frame_header (\<lambda>(typ, payload_len).
     if typ = RTRV_T_ERROR then
       if unat payload_len > RTRV_PAYLOAD_CAP then die OversizedErrorFrame
       else andthen malloc (\<lambda>got.
         if \<not> got then die OutOfMemory
         else attempt (rtrv_read_exact (replicate (unat payload_len) 0) (unat payload_len))
                (\<lambda>payload. andthen (rtrv_report_error (Some payload) payload_len) (\<lambda>_.
                           andthen (free (Some ())) (\<lambda>_. failed)))
                (andthen (free (Some ())) (\<lambda>_. failed)))
     else if typ \<noteq> RTRV_T_OK then die (UnexpectedReply typ ''GET'')
     else rtrv_read_exact (replicate RTRV_GET_META 0) RTRV_GET_META)"

lemma chunk_left:
  assumes "0 < (remaining :: u64)"
  shows "unat (remaining - word_of_nat (if remaining < 65536 then unat remaining else 65536))
    = unat remaining - (if remaining < 65536 then unat remaining else 65536)"
  using assms by (auto simp: unat_sub word_le_nat_alt word_less_nat_alt)

text \<open>The size of the next piece of a transfer.\<close>

lemma chunk_facts:
  assumes "0 < (remaining :: u64)" and "want = (if remaining < 65536 then unat remaining else 65536)"
  shows "0 < want" "want \<le> 65536" "want \<le> unat remaining"
    "unat (remaining - word_of_nat want) = unat remaining - want" "want < unat remaining \<Longrightarrow> want = 65536"
  using assms chunk_left [OF assms(1)] by (auto simp: word_less_nat_alt)

text \<open>
  The receive loop: at most 64 KiB at a time, each piece read completely and then appended to the
  partial. \<open>remaining\<close> is a \<open>uint64_t\<close>.
\<close>

function get_body_loop :: "string \<Rightarrow> ofile \<Rightarrow> bytes \<Rightarrow> u64 \<Rightarrow> unit cmd" where
  "get_body_loop partial file buf remaining =
     (if remaining > 0 then
        let want = (if remaining < 65536 then unat remaining else 65536)
        in attempt (rtrv_read_exact buf want)
             (\<lambda>buf. andthen (access (mem_get buf 0 want)) (\<lambda>piece.
                    andthen (fwrite file piece) (\<lambda>written.
                    if written \<noteq> want
                    then andthen (fclose_out file) (\<lambda>_. die (CannotWriteTo partial))
                    else get_body_loop partial file buf (remaining - word_of_nat want))))
             (andthen (fclose_out file) (\<lambda>_. die DownloadInterrupted))
      else ret ())"
  by pat_completeness auto
termination
proof (relation "measure (\<lambda>(partial, file, buf, remaining). unat remaining)", goal_cases)
  case 1
  then show ?case by simp
next
  case (2 partial h buf remaining want)
  moreover have "0 < unat remaining" using 2(1) by (simp add: word_less_nat_alt)
  ultimately show ?case using chunk_left [OF 2(1)] by auto
qed

declare get_body_loop.simps [simp del]

text \<open>The check and the publication.\<close>

definition get_publish :: "string \<Rightarrow> string \<Rightarrow> string \<Rightarrow> bytes \<Rightarrow> u64 \<Rightarrow> unit cmd" where
  "get_publish remote_name dest partial digest total_size =
     attempt (sha256_file partial)
       (\<lambda>actual.
          if actual \<noteq> take SHA256_DIGEST_SIZE digest
          then andthen (remove partial) (\<lambda>_. die HashMismatch)
          else andthen (rename partial dest) (\<lambda>renamed.
               if \<not> renamed then die (CannotRename partial dest)
               else print (Downloaded remote_name total_size dest)))
       (die (CannotReread partial))"

text \<open>From the metadata block to the published file.\<close>

definition get_receive :: "string \<Rightarrow> string \<Rightarrow> bool \<Rightarrow> string \<Rightarrow> bytes \<Rightarrow> unit cmd" where
  "get_receive remote_name dest has_partial existing meta =
     andthen (access (rtrv_get_u64 meta 0)) (\<lambda>total_size.
     andthen (access (rtrv_get_u64 meta 8)) (\<lambda>start.
     let digest = drop 16 meta
     in andthen (rtrv_partial_name dest digest RTRV_PATH_MAX) (\<lambda>partial.
        andthen (if start > 0 then print (Resuming remote_name start)
                 else if has_partial then remove existing
                 else ret ()) (\<lambda>_.
        andthen (fopen_out partial (start > 0)) (\<lambda>opened. case opened of
          None \<Rightarrow> die (CannotWrite partial)
        | Some file \<Rightarrow>
            andthen (get_body_loop partial file (replicate 65536 0) (total_size - start)) (\<lambda>_.
            andthen (fclose_out file) (\<lambda>flushed.
            if \<not> flushed then die (CannotFlush partial)
            else get_publish remote_name dest partial digest total_size)))))))"

definition rtrv_do_get :: "string \<Rightarrow> string \<Rightarrow> unit cmd" where
  "rtrv_do_get remote_name dest =
     andthen (file_exists dest) (\<lambda>exists.
     if exists then die (ExistsLocally dest)
     else andthen (offer_partial dest) (\<lambda>(has_partial, existing, offset, token).
       if length remote_name > RTRV_MAX_NAME then die NameTooLong
       else andthen (access (build_get_request (replicate (8 + RTRV_TOKEN_SIZE + 2 + RTRV_MAX_NAME) 0)
                               offset token remote_name)) (\<lambda>request.
            andthen (rtrv_write_frame RTRV_T_GET (Some request)
                       (word_of_nat (8 + RTRV_TOKEN_SIZE + 2 + length remote_name))) (\<lambda>_.
            andthen get_reply (\<lambda>meta.
            get_receive remote_name dest has_partial existing meta)))))"

section \<open>The request\<close>

definition get_request :: "u64 \<Rightarrow> bytes \<Rightarrow> string \<Rightarrow> bytes" where
  "get_request offset token name =
     be_bytes 8 offset @ token @ be_bytes 2 (word_of_nat (length name) :: u16) @ map of_char name"

lemma build_get_request_eq:
  assumes "length request = 273" and "length token = 8" and "length name \<le> 255"
  shows "build_get_request request offset token name =
    Some (get_request offset token name @ drop (18 + length name) request)"
proof -
  have "rtrv_put_u64 request 0 offset = Some (be_bytes 8 offset @ drop 8 request)"
    using assms by (simp add: u64_field.put_Some)
  moreover have "mem_put (be_bytes 8 offset @ drop 8 request) 8 token
      = Some (be_bytes 8 offset @ token @ drop 16 request)"
    using assms by (simp add: mem_put_Some)
  moreover have "rtrv_put_u16 (be_bytes 8 offset @ token @ drop 16 request) 16 v
      = Some (be_bytes 8 offset @ token @ be_bytes 2 v @ drop 18 request)" for v
    using assms by (simp add: u16_field.put_Some)
  moreover have "mem_put (be_bytes 8 offset @ token @ be_bytes 2 v @ drop 18 request) 18 (map of_char name)
      = Some (be_bytes 8 offset @ token @ be_bytes 2 v @ map of_char name @ drop (18 + length name) request)"
    for v :: u16
    using assms by (simp add: mem_put_Some add.commute)
  ultimately show ?thesis
    using assms by (simp add: build_get_request_def get_request_def RTRV_TOKEN_SIZE_def)
qed

lemma length_get_request [simp]: "length token = 8 \<Longrightarrow> length (get_request offset token name) = 18 + length name"
  by (simp add: get_request_def)

section \<open>The reply\<close>

lemma wp_get_reply:
  assumes ok: "\<And>len meta w'. avail w = frame_header RTRV_T_OK len @ meta @ avail w' \<Longrightarrow> length meta = 48 \<Longrightarrow>
      unmoved w w' \<Longrightarrow> allocs w' = allocs w \<Longrightarrow> Q (Ok meta) w'"
    and bad: "\<And>w'. unmoved w w' \<Longrightarrow> allocs w' = allocs w \<Longrightarrow> Q Fail w'"
  shows "wp get_reply Q w"
  unfolding get_reply_def wp_andthen [of rtrv_read_frame_header]
proof (rule wp_read_frame_header, goal_cases)
  case (1 ty len r)
  note hdr = 1
  have no: "Q Fail (w\<lparr>rx := r, err := err w @ [d]\<rparr>)" for d
    by (rule bad) (simp_all add: unmoved_def)
  have error: "wp (andthen malloc (\<lambda>got. if \<not> got then die OutOfMemory
       else attempt (rtrv_read_exact (replicate (unat len) 0) (unat len))
              (\<lambda>payload. andthen (rtrv_report_error (Some payload) len) (\<lambda>_.
                         andthen (free (Some ())) (\<lambda>_. failed)))
              (andthen (free (Some ())) (\<lambda>_. failed)))) Q (w\<lparr>rx := r\<rparr>)"
  proof (rule wp_read_heap, goal_cases)
    case (1 bs r' f)
    then show ?case
      unfolding wp_andthen [of "rtrv_report_error (Some bs) len"]
      by (intro wp_report_error) (simp_all add: wp_simps bad unmoved_def)
  qed (simp add: bad unmoved_def)
  have meta: "wp (rtrv_read_exact (replicate RTRV_GET_META 0) RTRV_GET_META) Q (w\<lparr>rx := r\<rparr>)" if "ty = RTRV_T_OK"
  proof (rule wp_read_exact, goal_cases)
    case (2 r')
    show ?case by (rule ok) (use 2 hdr that in \<open>simp_all add: unmoved_def RTRV_GET_META_def\<close>)
  qed (simp_all add: bad unmoved_def)
  show ?case using no error meta by (auto simp: wp_simps)
qed (simp add: bad unmoved_def)

section \<open>The body\<close>

text \<open>What file operations leave alone.\<close>

definition offline :: "world \<Rightarrow> world \<Rightarrow> bool" where
  "offline w w' \<longleftrightarrow> tx w' = tx w \<and> tx_plan w' = tx_plan w \<and> allocs w' = allocs w"

lemma offline_refl [simp]: "offline w w"
  by (simp add: offline_def)

lemma offline_trans: "offline w w' \<Longrightarrow> offline w' w'' \<Longrightarrow> offline w w''"
  by (simp add: offline_def)

lemma offline_simps [simp]:
  "offline w (w'\<lparr>rx := r\<rparr>) = offline w w'" "offline w (w'\<lparr>fs := f\<rparr>) = offline w w'"
  "offline w (w'\<lparr>faults := g\<rparr>) = offline w w'" "offline w (w'\<lparr>open_files := n\<rparr>) = offline w w'"
  "offline w (w'\<lparr>out := m\<rparr>) = offline w w'" "offline w (w'\<lparr>err := d\<rparr>) = offline w w'"
  "offline (w\<lparr>rx := r\<rparr>) w' = offline w w'" "offline (w\<lparr>fs := f\<rparr>) w' = offline w w'"
  "offline (w\<lparr>faults := g\<rparr>) w' = offline w w'" "offline (w\<lparr>open_files := n\<rparr>) w' = offline w w'"
  "offline (w\<lparr>out := m\<rparr>) w' = offline w w'" "offline (w\<lparr>err := d\<rparr>) w' = offline w w'"
  by (simp_all add: offline_def)

lemma contents_update [simp]: "contents (AList.update k (File c) f) k = c"
  by (simp add: contents_def update_conv')

lemma contents_File: "map_of f k = Some (File c) \<Longrightarrow> contents f k = c"
  by (simp add: contents_def)

text \<open>A stream that is closed on an error path: the flush may lose some of the last bytes.\<close>

lemma wp_close_and_die:
  assumes "open_files w = Suc n" and "fs w = AList.update (of_path h) (File c) f"
    and "of_base h \<le> length c"
    and "\<And>w' j. fs w' = AList.update (of_path h) (File (take j c)) f \<Longrightarrow> of_base h \<le> j \<Longrightarrow>
      offline w w' \<Longrightarrow> open_files w' = n \<Longrightarrow> Q Fail w'"
  shows "wp (andthen (fclose_out h) (\<lambda>_. die d)) Q w"
  unfolding wp_simps
proof (rule wp_fclose_out [OF assms(1)], goal_cases)
  case (1 g)
  show ?case
    by (simp add: wp_simps, rule assms(4) [of _ "length c"]) (use assms in simp_all)
next
  case (2 g j c')
  then show ?case
    by (simp add: wp_simps, intro assms(4) [of _ j]) (use assms in \<open>simp_all add: update_last\<close>)
qed

lemma take_piece: "want \<le> n \<Longrightarrow> take want xs @ take (n - want) (drop want xs) = take n xs"
  by (metis le_add_diff_inverse take_add)

lemma take_of_prefix: "m \<le> n \<Longrightarrow> take j (c @ take m xs) = take (min j (length c + m)) (c @ take n xs)"
  by (auto simp: min_def)

text \<open>
  One round of the loop, with \<open>next\<close> for the rounds that follow. When it fails, the partial holds what it
  held before and an initial part of the piece.
\<close>

lemma wp_get_piece:
  assumes buf: "length buf = 65536" "want \<le> 65536" and held: "map_of (fs w) (of_path h) = Some (File c)"
    and base: "of_base h \<le> length c" and opened: "open_files w = Suc n"
    and more: "\<And>w'. want \<le> length (avail w) \<Longrightarrow> fs w' = AList.update (of_path h) (File (c @ take want (avail w))) (fs w) \<Longrightarrow>
      avail w' = drop want (avail w) \<Longrightarrow> offline w w' \<Longrightarrow> open_files w' = Suc n \<Longrightarrow>
      wp (next (take want (avail w) @ drop want buf)) Q w'"
    and bad: "\<And>w' j. fs w' = AList.update (of_path h) (File (take j (c @ take want (avail w)))) (fs w) \<Longrightarrow>
      of_base h \<le> j \<Longrightarrow> offline w w' \<Longrightarrow> open_files w' = n \<Longrightarrow> Q Fail w'"
  shows "wp (attempt (rtrv_read_exact buf want)
     (\<lambda>buf. andthen (access (mem_get buf 0 want)) (\<lambda>piece.
            andthen (fwrite h piece) (\<lambda>written.
            if written \<noteq> want then andthen (fclose_out h) (\<lambda>_. die d) else next buf)))
     (andthen (fclose_out h) (\<lambda>_. die d'))) Q w"
proof -
  have close: "wp (andthen (fclose_out h) (\<lambda>_. die d)) Q w'"
    if "fs w' = AList.update (of_path h) (File (c @ take m (avail w))) (fs w)" and m: "m \<le> want"
      and o: "offline w w'" "open_files w' = Suc n" for w' d m
  proof (rule wp_close_and_die [OF o(2) that(1)], goal_cases)
    case (2 w'' j)
    then show ?case
      using take_of_prefix [OF m, of j c "avail w"] base o(1)
      by (auto intro!: bad [of _ "min j (length c + m)"] intro: offline_trans)
  qed (use base in simp)
  show ?thesis
    unfolding wp_attempt
  proof (rule wp_read_exact_into, goal_cases)
    case (2 r)
    have get: "mem_get (take want (avail w) @ drop want buf) 0 want = Some (take want (avail w))"
      using 2(1) by (simp add: mem_get_def)
    show ?case
      unfolding outcome.case wp_andthen get wp_access
    proof (rule wp_fwrite, goal_cases)
      case (1 g m)
      let ?w = "w\<lparr>rx := r, faults := g, fs := AList.update (of_path h) (File (c @ take m (avail w))) (fs w)\<rparr>"
      show ?case
        using 1 close [of ?w m] more [of ?w] 2 opened contents_File [OF held] by (simp add: min_def split: if_splits)
    qed
  next
    case (3 r d)
    then show ?case using close [of "w\<lparr>rx := r, err := err w @ [d]\<rparr>" 0] opened by (simp add: update_triv held)
  qed (use buf in simp)
qed

text \<open>
  The loop appends the next \<open>remaining\<close> bytes of the stream to the partial. When it fails, the
  partial holds what it held before and an initial part of those bytes.
\<close>

lemma wp_get_body_loop:
  assumes "length buf = 65536" and "map_of (fs w) (of_path h) = Some (File c)"
    and "of_base h \<le> length c" and "open_files w = Suc n"
    and "\<And>w'. unat remaining \<le> length (avail w) \<Longrightarrow>
      fs w' = AList.update (of_path h) (File (c @ take (unat remaining) (avail w))) (fs w) \<Longrightarrow>
      avail w' = drop (unat remaining) (avail w) \<Longrightarrow> offline w w' \<Longrightarrow> open_files w' = Suc n \<Longrightarrow>
      Q (Ok ()) w'"
    and "\<And>w' j. fs w' = AList.update (of_path h) (File (take j (c @ take (unat remaining) (avail w)))) (fs w) \<Longrightarrow>
      of_base h \<le> j \<Longrightarrow> offline w w' \<Longrightarrow> open_files w' = n \<Longrightarrow> Q Fail w'"
  shows "wp (get_body_loop partial h buf remaining) Q w"
  using assms
proof (induction "unat remaining" arbitrary: remaining buf w c rule: less_induct)
  case less
  note buf = less.prems(1) and held = less.prems(2) and base = less.prems(3) and opened = less.prems(4)
    and good = less.prems(5) and bad = less.prems(6)
  show ?case
  proof (cases "remaining = 0")
    case True
    then have "Q (Ok ()) w" by (intro good) (simp_all add: update_triv held opened)
    with True show ?thesis by (simp add: get_body_loop.simps wp_simps)
  next
    case False
    then have pos: "0 < remaining" by (simp add: word_neq_0_conv)
    define want where "want = (if remaining < 65536 then unat remaining else 65536)"
    note want = chunk_facts [OF pos want_def]
    show ?thesis
      unfolding get_body_loop.simps [of partial h buf] if_P [OF pos] want_def [symmetric] Let_def
    proof (rule wp_get_piece [OF buf want(2) held base opened], goal_cases)
      case (1 w1)
      show ?case
      proof (rule less.hyps [where c = "c @ take want (avail w)"], goal_cases)
        case (6 w')
        then show ?case
          by (intro good) (use 1 want in \<open>auto simp: update_last take_piece intro: offline_trans\<close>)
      next
        case (7 w' j)
        then show ?case
          by (intro bad [of _ j]) (use 1 want in \<open>auto simp: update_last take_piece intro: offline_trans\<close>)
      qed (use 1 buf base want in \<open>simp_all add: update_conv'\<close>)
    next
      case (2 w' j)
      then show ?case
        using take_of_prefix [OF want(3), of j c "avail w"] base
        by (auto intro!: bad [of _ "min j (length c + want)"])
    qed
  qed
qed

section \<open>Publication\<close>

lemma node_at_creatable:
  "creatable f p \<Longrightarrow> map_of f' (resolve p) = Some (File c) \<Longrightarrow> node_at f' p = Some (File c)"
  by (simp add: creatable_def node_at_def)

text \<open>Only bytes whose hash is the digest become the destination.\<close>

lemma wp_get_publish:
  assumes "length digest = 32" and held: "node_at (fs w) partial = Some (File c)"
    and bad: "\<And>w'. fs w' = fs w \<or> fs w' = AList.delete (resolve partial) (fs w) \<Longrightarrow> offline w w' \<Longrightarrow>
      open_files w' = open_files w \<Longrightarrow> Q Fail w'"
    and good: "\<And>w'. sha256 c = digest \<Longrightarrow> creatable (fs w) dest \<Longrightarrow> avail w' = avail w \<Longrightarrow>
      fs w' = AList.update (resolve dest) (File c) (AList.delete (resolve partial) (fs w)) \<Longrightarrow>
      offline w w' \<Longrightarrow> open_files w' = open_files w \<Longrightarrow>
      out w' = out w @ [Downloaded name total_size dest] \<Longrightarrow> Q (Ok ()) w'"
  shows "wp (get_publish name dest partial digest total_size) Q w"
  unfolding get_publish_def wp_attempt
proof (rule wp_sha256_file, goal_cases)
  case (1 g c')
  then have c': "c' = c" using held by simp
  show ?case
  proof (cases "sha256 c = digest")
    case False
    have "wp (andthen (remove partial) (\<lambda>_. die HashMismatch)) Q (w\<lparr>faults := g\<rparr>)"
      unfolding wp_simps by (rule wp_remove) (simp_all add: wp_simps bad)
    then show ?thesis using False c' assms(1) by simp
  next
    case True
    have "wp (andthen (rename partial dest) (\<lambda>renamed.
        if \<not> renamed then die (CannotRename partial dest)
        else print (Downloaded name total_size dest))) Q (w\<lparr>faults := g\<rparr>)"
      unfolding wp_andthen
      by (rule wp_rename) (use True held in \<open>simp_all add: wp_simps bad good\<close>)
    then show ?thesis using True c' assms(1) by simp
  qed
next
  case (2 g)
  then show ?case by (simp add: wp_simps bad)
qed

section \<open>From the metadata to the file\<close>

definition get_meta :: "u64 \<Rightarrow> u64 \<Rightarrow> bytes \<Rightarrow> bytes" where
  "get_meta total_size start digest = be_bytes 8 total_size @ be_bytes 8 start @ digest"

lemma get_meta_exists:
  assumes "length meta = 48"
  obtains total_size start digest where "meta = get_meta total_size start digest" "length digest = 32"
proof -
  have "meta = take 8 meta @ take 8 (drop 8 meta) @ drop 16 meta"
    by (simp add: take_append_drop_mid [of 8 8, simplified])
  moreover obtain x y :: u64 where "be_bytes 8 x = take 8 meta" "be_bytes 8 y = take 8 (drop 8 meta)"
    using assms u64_field.enc_onto [of "take 8 meta"] u64_field.enc_onto [of "take 8 (drop 8 meta)"] by auto
  ultimately have "meta = get_meta x y (drop 16 meta)" by (simp add: get_meta_def)
  then show ?thesis using that assms by simp
qed

lemma get_meta_fields [simp]:
  "rtrv_get_u64 (get_meta total_size start digest) 0 = Some total_size"
  "rtrv_get_u64 (get_meta total_size start digest) 8 = Some start"
  "drop 16 (get_meta total_size start digest) = digest"
  using u64_field.get_enc [of "[]" total_size "be_bytes 8 start @ digest"]
    u64_field.get_enc [of "be_bytes 8 total_size" start digest]
  by (simp_all add: get_meta_def)

text \<open>A useless partial is removed before the new one is opened.\<close>

lemma wp_get_clear:
  assumes "\<And>w'. fs w' = fs w \<or> \<not> 0 < start \<and> has_partial \<and> fs w' = AList.delete (resolve existing) (fs w) \<Longrightarrow>
      avail w' = avail w \<Longrightarrow> offline w w' \<Longrightarrow> open_files w' = open_files w \<Longrightarrow> Q (Ok ()) w'"
  shows "wp (if 0 < start then print m else if has_partial then remove existing else ret ()) Q w"
proof (cases "\<not> 0 < start \<and> has_partial")
  case True
  have "wp (remove existing) Q w" by (rule wp_remove; rule assms) (use True in simp_all)
  with True show ?thesis by simp
next
  case False
  then show ?thesis by (auto simp: wp_simps intro!: assms)
qed

text \<open>From the opened partial on: the loop, the flush, the check and the publication.\<close>

lemma wp_get_fill:
  assumes digest: "length digest = 32" and p: "creatable f' p"
    and h: "h = \<lparr>of_path = resolve p, of_base = length base\<rparr>"
    and held: "fs w = AList.update (resolve p) (File base) f" and opened: "open_files w = Suc n"
    and body: "body = take (unat remaining) (avail w)"
    and bad: "\<And>w'. (\<exists>j. length base \<le> j \<and> fs w' = AList.update (resolve p) (File (take j (base @ body))) f) \<or>
        fs w' = AList.delete (resolve p) f \<Longrightarrow>
      offline w w' \<Longrightarrow> open_files w' = n \<Longrightarrow> Q Fail w'"
    and good: "\<And>w' f'. length body = unat remaining \<Longrightarrow> avail w = body @ avail w' \<Longrightarrow>
      sha256 (base @ body) = digest \<Longrightarrow> creatable f' dest \<Longrightarrow>
      fs w' = AList.update (resolve dest) (File (base @ body)) (AList.delete (resolve p) f) \<Longrightarrow>
      offline w w' \<Longrightarrow> open_files w' = n \<Longrightarrow> Downloaded name total_size dest \<in> set (out w') \<Longrightarrow> Q (Ok ()) w'"
  shows "wp (andthen (get_body_loop p h (replicate 65536 0) remaining) (\<lambda>_.
     andthen (fclose_out h) (\<lambda>flushed. if \<not> flushed then die (CannotFlush p)
     else get_publish name dest p digest total_size))) Q w"
  unfolding wp_andthen [of "get_body_loop p h (replicate 65536 0) remaining"]
proof (rule wp_get_body_loop [where c = base and n = n], goal_cases)
  case (5 w1)
  note got = 5
  have fs1: "fs w1 = AList.update (resolve p) (File (base @ body)) f"
    using got(2) by (simp add: h held body update_last)
  show ?case
    unfolding outcome.case wp_andthen
  proof (rule wp_fclose_out [OF got(5)], goal_cases)
    case (1 g)
    have "wp (get_publish name dest p digest total_size) Q (w1\<lparr>open_files := n, faults := g\<rparr>)"
    proof (rule wp_get_publish [OF digest, where c = "base @ body"], goal_cases)
      case 1
      show ?case using node_at_creatable [OF p] by (simp add: fs1 update_conv')
    next
      case (2 w')
      then show ?case
        by (intro bad) (use got(4) fs1 in
          \<open>auto simp: delete_update_same intro!: exI [of _ "length (base @ body)"] intro: offline_trans\<close>)
    next
      case (3 w')
      then show ?case
        by (intro good) (use got(1,3,4,5) fs1 body in \<open>auto simp: delete_update_same intro: offline_trans\<close>)
    qed
    then show ?case by simp
  next
    case (2 g m c)
    then show ?case
      by (simp add: wp_simps, intro bad) (use got(4) fs1 h in \<open>auto simp: update_last\<close>)
  qed
next
  case (6 w1 j)
  then show ?case
    by simp (rule bad, use h held body in \<open>auto simp: update_last\<close>)
qed (use h held opened in \<open>simp_all add: update_conv'\<close>)

text \<open>The bytes a resumed or a fresh download starts from.\<close>

definition resume_base :: "filesys \<Rightarrow> path \<Rightarrow> u64 \<Rightarrow> bytes" where
  "resume_base f k start = (if 0 < start then contents f k else [])"

text \<open>The keys that receiving may touch before the destination exists.\<close>

definition get_keys :: "string \<Rightarrow> bytes \<Rightarrow> u64 \<Rightarrow> bool \<Rightarrow> string \<Rightarrow> path set" where
  "get_keys dest digest start has_partial existing =
     insert (resolve (partial_path dest digest))
       (if \<not> 0 < start \<and> has_partial then {resolve existing} else {})"

text \<open>From the cleared directory on.\<close>

lemma wp_get_store:
  assumes digest: "length digest = 32" and base: "base = resume_base (fs w) (resolve p) start"
    and body: "body = take (unat remaining) (avail w)"
    and bad: "\<And>w'. fs w' = fs w \<or> fs w' = AList.delete (resolve p) (fs w) \<or>
        (\<exists>j. length base \<le> j \<and> fs w' = AList.update (resolve p) (File (take j (base @ body))) (fs w)) \<Longrightarrow>
      offline w w' \<Longrightarrow> open_files w' = open_files w \<Longrightarrow> Q Fail w'"
    and good: "\<And>w' f'. length body = unat remaining \<Longrightarrow> avail w = body @ avail w' \<Longrightarrow>
      sha256 (base @ body) = digest \<Longrightarrow> creatable f' dest \<Longrightarrow>
      fs w' = AList.update (resolve dest) (File (base @ body)) (AList.delete (resolve p) (fs w)) \<Longrightarrow>
      offline w w' \<Longrightarrow> open_files w' = open_files w \<Longrightarrow> Downloaded name total_size dest \<in> set (out w') \<Longrightarrow> Q (Ok ()) w'"
  shows "wp (andthen (fopen_out p (0 < start)) (\<lambda>opened. case opened of
        None \<Rightarrow> die (CannotWrite p)
      | Some file \<Rightarrow>
          andthen (get_body_loop p file (replicate 65536 0) remaining) (\<lambda>_.
          andthen (fclose_out file) (\<lambda>flushed.
          if \<not> flushed then die (CannotFlush p) else get_publish name dest p digest total_size)))) Q w"
  unfolding wp_andthen [of "fopen_out p (0 < start)"]
proof (rule wp_fopen_out, goal_cases)
  case (1 g)
  show ?case by (simp add: wp_simps bad)
next
  case (2 g c)
  then have c: "c = base" using base by (simp add: resume_base_def)
  show ?case
    unfolding outcome.case option.case c
  proof (rule wp_get_fill [OF digest 2(1) refl, where body = body and f = "fs w" and n = "open_files w"], goal_cases)
    case (4 w')
    then show ?case by (intro bad) auto
  next
    case (5 w' f')
    then show ?case by (intro good) auto
  qed (use body in simp_all)
qed

lemma wp_get_receive:
  assumes digest: "length digest = 32"
    and other: "has_partial \<Longrightarrow> resolve existing \<noteq> resolve dest"
    and k: "k = resolve (partial_path dest digest)"
    and S: "S = get_keys dest digest start has_partial existing"
    and base: "base = resume_base (fs w) k start"
    and body: "body = take (unat (total_size - start)) (avail w)"
    and bad: "\<And>w'. files.same_except S (fs w) (fs w') \<Longrightarrow>
      map_of (fs w') k = map_of (fs w) k \<or> map_of (fs w') k = None \<or>
        (\<exists>j. length base \<le> j \<and> map_of (fs w') k = Some (File (take j (base @ body)))) \<Longrightarrow>
      offline w w' \<Longrightarrow> open_files w' = open_files w \<Longrightarrow> Q Fail w'"
    and good: "\<And>w'. length body = unat (total_size - start) \<Longrightarrow> avail w = body @ avail w' \<Longrightarrow>
      sha256 (base @ body) = digest \<Longrightarrow> node_at (fs w') dest = Some (File (base @ body)) \<Longrightarrow>
      map_of (fs w') k = None \<Longrightarrow> files.same_except (insert (resolve dest) S) (fs w) (fs w') \<Longrightarrow>
      offline w w' \<Longrightarrow> open_files w' = open_files w \<Longrightarrow> Downloaded name total_size dest \<in> set (out w') \<Longrightarrow>
      Q (Ok ()) w'"
  shows "wp (get_receive name dest has_partial existing (get_meta total_size start digest)) Q w"
proof (cases "good_dest dest")
  case False
  then show ?thesis using digest
    by (simp add: get_receive_def wp_simps wp_partial_name RTRV_TOKEN_SIZE_def bad)
next
  case True
  let ?p = "partial_path dest digest"
  have kd: "k \<noteq> resolve dest" using partial_not_dest by (simp add: k partial_path_def)
  have kS: "k \<in> S" by (simp add: S get_keys_def k)
  have tok: "RTRV_TOKEN_SIZE \<le> length digest" using digest by (simp add: RTRV_TOKEN_SIZE_def)
  show ?thesis
    unfolding get_receive_def wp_andthen [of "access _"] wp_andthen [of "rtrv_partial_name _ _ _"] get_meta_fields wp_access
      outcome.case Let_def wp_partial_name [OF tok] if_P [OF True] wp_andthen [of "if 0 < start then _ else _"]
  proof (rule wp_get_clear, goal_cases)
    case (1 w1)
    note clear = 1
    have same: "files.same_except S (fs w) (fs w1)" and k1: "map_of (fs w1) k = map_of (fs w) k \<or> map_of (fs w1) k = None"
      using clear(1) by (auto simp: S get_keys_def delete_conv' intro!: files.same_except_del split: if_splits)
    have base1: "base = resume_base (fs w1) (resolve ?p) start"
      using clear(1) by (auto simp: base resume_base_def k)
    show ?case
      unfolding outcome.case
    proof (rule wp_get_store [OF digest base1, where body = body], goal_cases)
      case 1
      show ?case using body clear(2) by simp
    next
      case (2 w')
      have "files.same_except S (fs w) (fs w')"
        using 2(1) same kS k by (auto intro: files.same_except_put files.same_except_del)
      moreover have "map_of (fs w') k = map_of (fs w) k \<or> map_of (fs w') k = None \<or>
          (\<exists>j. length base \<le> j \<and> map_of (fs w') k = Some (File (take j (base @ body))))"
        using 2(1) k1 k by (auto simp: update_conv' delete_conv')
      ultimately show ?case by (rule bad) (use 2 clear in \<open>auto intro: offline_trans\<close>)
    next
      case (3 w' f')
      have "node_at (fs w') dest = Some (File (base @ body))"
        using 3(5) by (intro node_at_creatable [OF 3(4)]) (simp add: update_conv')
      moreover have "map_of (fs w') k = None" using 3(5) kd k by (simp add: update_conv' delete_conv')
      moreover have "files.same_except (insert (resolve dest) S) (fs w) (fs w1)"
        using same by (rule files.same_except_mono) blast
      then have "files.same_except (insert (resolve dest) S) (fs w) (fs w')"
        using 3(5) kS k by (auto intro!: files.same_except_put files.same_except_del)
      ultimately show ?case by (intro good) (use 3 clear in \<open>auto intro: offline_trans\<close>)
    qed
  qed
qed

section \<open>The whole download\<close>

text \<open>
  What a download may offer for a destination: nothing, or the one partial that lies beside it,
  with its size as the offset and the token that its name spells.
\<close>

definition may_offer :: "filesys \<Rightarrow> string \<Rightarrow> bool \<times> string \<times> u64 \<times> bytes \<Rightarrow> bool" where
  "may_offer f dest = (\<lambda>(has_partial, existing, offset, token).
     if has_partial then
       \<exists>t n. length t = 16 \<and> existing = partial_with dest t \<and> node_at f existing = Some n \<and>
         partials_of dest (entries f (resolve (path_dir dest))) = [partial_entry dest t] \<and>
         offset = word_of_nat (st_size n) \<and> scan_token RTRV_TOKEN_SIZE (t @ ''.part'') = Some token
     else offset = 0 \<and> token = replicate RTRV_TOKEN_SIZE 0)"

lemma may_offer_token: "may_offer f dest (has_partial, existing, offset, token) \<Longrightarrow> length token = 8"
  by (auto simp: may_offer_def RTRV_TOKEN_SIZE_def dest: scan_token_length split: if_splits)

lemma may_offer_not_dest:
  "may_offer f dest (True, existing, offset, token) \<Longrightarrow> resolve existing \<noteq> resolve dest"
  using partial_not_dest by (auto simp: may_offer_def)

lemma wp_offer_partial:
  assumes "\<And>g x. may_offer (fs w) dest x \<Longrightarrow> Q (Ok x) (w\<lparr>faults := g\<rparr>)"
  shows "wp (offer_partial dest) Q w"
  unfolding offer_partial_def wp_attempt
  by (rule wp_find_partial) (auto simp: wp_simps intro!: assms, auto simp: may_offer_def)

text \<open>The request frame for an offer.\<close>

definition get_frame :: "bool \<times> string \<times> u64 \<times> bytes \<Rightarrow> string \<Rightarrow> bytes" where
  "get_frame offer name = (case offer of (_, _, offset, token) \<Rightarrow> frame RTRV_T_GET (get_request offset token name))"

definition send_get :: "string \<Rightarrow> u64 \<Rightarrow> bytes \<Rightarrow> unit cmd" where
  "send_get name offset token =
     andthen (access (build_get_request (replicate (8 + RTRV_TOKEN_SIZE + 2 + RTRV_MAX_NAME) 0) offset token name)) (\<lambda>request.
     rtrv_write_frame RTRV_T_GET (Some request) (word_of_nat (8 + RTRV_TOKEN_SIZE + 2 + length name)))"

lemma do_get_eq:
  "rtrv_do_get name dest =
     andthen (file_exists dest) (\<lambda>exists.
     if exists then die (ExistsLocally dest)
     else andthen (offer_partial dest) (\<lambda>(b, e, offset, token).
       if length name > RTRV_MAX_NAME then die NameTooLong
       else andthen (send_get name offset token) (\<lambda>_. andthen get_reply (get_receive name dest b e))))"
  unfolding rtrv_do_get_def send_get_def andthen_assoc ..

lemma wp_send_get:
  assumes "length token = 8" and "length name \<le> 255"
    and "\<And>q. set q \<subseteq> set (tx_plan w) \<Longrightarrow>
      Q (Ok ()) (w\<lparr>tx := tx w @ get_frame (b, e, offset, token) name, tx_plan := q\<rparr>)"
    and "\<And>k q. TxErr \<in> set (tx_plan w) \<Longrightarrow> Q Fail (w\<lparr>tx := tx w @ take k (get_frame (b, e, offset, token) name), tx_plan := q,
                err := err w @ [WriteFailed]\<rparr>)"
  shows "wp (send_get name offset token) Q w"
proof -
  have n: "unat (word_of_nat (18 + length name) :: u64) = 18 + length name"
    using assms(2) by (simp add: unat_of_nat del: of_nat_add)
  let ?arr = "replicate (8 + RTRV_TOKEN_SIZE + 2 + RTRV_MAX_NAME) 0 :: bytes"
  have arr: "length ?arr = 273" "8 + RTRV_TOKEN_SIZE + 2 + length name = 18 + length name"
    by (simp_all add: size_consts)
  have f: "frame_header RTRV_T_GET (word_of_nat (18 + length name)) @ get_request offset token name
      = get_frame (b, e, offset, token) name"
    using assms(1) by (simp add: get_frame_def frame_def)
  show ?thesis
    unfolding send_get_def build_get_request_eq [OF arr(1) assms(1,2)] wp_andthen wp_access outcome.case arr(2)
    by (rule wp_write_frame [where p = "get_request offset token name @ drop (18 + length name) ?arr"])
      (use assms f n arr in \<open>simp_all del: of_nat_add length_replicate\<close>)
qed

text \<open>
  The partial after a failed download: as it was, gone, or the bytes it had at the start followed
  by an initial part of the body. The files after a successful one: the destination holds bytes
  with the announced hash, and the partial is gone.
\<close>

definition partial_kept :: "filesys \<Rightarrow> string \<Rightarrow> bytes \<Rightarrow> u64 \<Rightarrow> bytes \<Rightarrow> filesys \<Rightarrow> bool" where
  "partial_kept f dest digest start body f' \<longleftrightarrow>
     (let k = resolve (partial_path dest digest); base = resume_base f k start in
      map_of f' k = map_of f k \<or> map_of f' k = None \<or>
      (\<exists>j. length base \<le> j \<and> map_of f' k = Some (File (take j (base @ body)))))"

definition published :: "filesys \<Rightarrow> string \<Rightarrow> bytes \<Rightarrow> u64 \<Rightarrow> bytes \<Rightarrow> filesys \<Rightarrow> bool" where
  "published f dest digest start body f' \<longleftrightarrow>
     (let k = resolve (partial_path dest digest); base = resume_base f k start in
      sha256 (base @ body) = digest \<and> node_at f' dest = Some (File (base @ body)) \<and> map_of f' k = None)"

lemma wp_get_answer:
  assumes other: "b \<Longrightarrow> resolve e \<noteq> resolve dest"
    and early: "\<And>w'. unmoved w w' \<Longrightarrow> allocs w' = allocs w \<Longrightarrow> Q Fail w'"
    and late: "\<And>w' len total_size start digest rest. length digest = 32 \<Longrightarrow>
      avail w = frame_header RTRV_T_OK len @ get_meta total_size start digest @ rest \<Longrightarrow>
      partial_kept (fs w) dest digest start (take (unat (total_size - start)) rest) (fs w') \<Longrightarrow>
      files.same_except (get_keys dest digest start b e) (fs w) (fs w') \<Longrightarrow>
      offline w w' \<Longrightarrow> open_files w' = open_files w \<Longrightarrow> Q Fail w'"
    and good: "\<And>w' len total_size start digest body. length digest = 32 \<Longrightarrow>
      avail w = frame_header RTRV_T_OK len @ get_meta total_size start digest @ body @ avail w' \<Longrightarrow>
      length body = unat (total_size - start) \<Longrightarrow> published (fs w) dest digest start body (fs w') \<Longrightarrow>
      files.same_except (insert (resolve dest) (get_keys dest digest start b e)) (fs w) (fs w') \<Longrightarrow>
      Downloaded name total_size dest \<in> set (out w') \<Longrightarrow>
      offline w w' \<Longrightarrow> open_files w' = open_files w \<Longrightarrow> Q (Ok ()) w'"
  shows "wp (andthen get_reply (get_receive name dest b e)) Q w"
  unfolding wp_andthen
proof (rule wp_get_reply, goal_cases)
  case (2 w1)
  then show ?case by (simp add: early)
next
  case (1 len meta w1)
  note reply = 1
  obtain total_size start digest where m: "meta = get_meta total_size start digest" "length digest = 32"
    using get_meta_exists [OF reply(2)] by blast
  have a: "avail w = frame_header RTRV_T_OK len @ get_meta total_size start digest @ avail w1"
    using reply(1) by (simp add: m)
  have same: "fs w1 = fs w" "open_files w1 = open_files w" "offline w w1"
    using reply(3,4) by (simp_all add: unmoved_def offline_def)
  show ?case
    unfolding outcome.case m(1)
  proof (rule wp_get_receive [OF m(2) other refl refl refl refl], goal_cases)
    case 1
    then show ?case by assumption
  next
    case (2 w')
    then show ?case
      by (intro late [OF m(2) a])
        (use same in \<open>auto simp: partial_kept_def Let_def intro: offline_trans\<close>)
  next
    case (3 w')
    then show ?case
      by (intro good [OF m(2), of len total_size start "take (unat (total_size - start)) (avail w1)"])
        (use same a in \<open>auto simp: published_def Let_def intro: offline_trans\<close>)
  qed
qed

text \<open>From the request on, for an offer.\<close>

lemma wp_get_exchange:
  assumes offer: "may_offer (fs w) dest (b, e, offset, token)" and short: "length name \<le> 255"
    and early: "\<And>w' k. fs w' = fs w \<Longrightarrow> tx w' = tx w @ take k (get_frame (b, e, offset, token) name) \<Longrightarrow>
      allocs w' = allocs w \<Longrightarrow> open_files w' = open_files w \<Longrightarrow> Q Fail w'"
    and late: "\<And>w' len total_size start digest rest. length digest = 32 \<Longrightarrow>
      avail w = frame_header RTRV_T_OK len @ get_meta total_size start digest @ rest \<Longrightarrow>
      partial_kept (fs w) dest digest start (take (unat (total_size - start)) rest) (fs w') \<Longrightarrow>
      files.same_except (get_keys dest digest start b e) (fs w) (fs w') \<Longrightarrow>
      tx w' = tx w @ get_frame (b, e, offset, token) name \<Longrightarrow>
      allocs w' = allocs w \<Longrightarrow> open_files w' = open_files w \<Longrightarrow> Q Fail w'"
    and good: "\<And>w' len total_size start digest body. length digest = 32 \<Longrightarrow>
      avail w = frame_header RTRV_T_OK len @ get_meta total_size start digest @ body @ avail w' \<Longrightarrow>
      length body = unat (total_size - start) \<Longrightarrow> published (fs w) dest digest start body (fs w') \<Longrightarrow>
      files.same_except (insert (resolve dest) (get_keys dest digest start b e)) (fs w) (fs w') \<Longrightarrow>
      tx w' = tx w @ get_frame (b, e, offset, token) name \<Longrightarrow>
      Downloaded name total_size dest \<in> set (out w') \<Longrightarrow>
      allocs w' = allocs w \<Longrightarrow> open_files w' = open_files w \<Longrightarrow> Q (Ok ()) w'"
  shows "wp (andthen (send_get name offset token) (\<lambda>_. andthen get_reply (get_receive name dest b e))) Q w"
  unfolding wp_andthen [of "send_get name offset token"]
proof (rule wp_send_get [OF may_offer_token [OF offer] short, of _ _ b e], goal_cases)
  case (1 q)
  show ?case
    unfolding outcome.case
  proof (rule wp_get_answer, goal_cases)
    case 1
    then show ?case using may_offer_not_dest offer by simp
  next
    case (2 w')
    then show ?case
      by (intro early [of _ "length (get_frame (b, e, offset, token) name)"]) (simp_all add: unmoved_def)
  next
    case (3 w' l total_size start digest rest)
    then show ?case by (intro late [OF 3(1)]) (simp_all add: offline_def)
  next
    case (4 w' l total_size start digest body)
    then show ?case by (intro good [OF 4(1)]) (simp_all add: offline_def)
  qed
next
  case (2 k q)
  show ?case by simp (rule early [of _ k], simp_all)
qed

text \<open>
  The download ends in one of three ways: it fails before the metadata block is read and has not
  touched a file; it fails later, and only partials have changed; or it succeeds.
\<close>

lemma wp_do_get:
  assumes early: "\<And>w' offer k. fs w' = fs w \<Longrightarrow> may_offer (fs w) dest offer \<Longrightarrow>
      tx w' = tx w @ take k (get_frame offer name) \<Longrightarrow>
      allocs w' = allocs w \<Longrightarrow> open_files w' = open_files w \<Longrightarrow> Q Fail w'"
    and late: "\<And>w' b e offset token len total_size start digest rest.
      node_at (fs w) dest = None \<Longrightarrow> length name \<le> 255 \<Longrightarrow>
      may_offer (fs w) dest (b, e, offset, token) \<Longrightarrow> length digest = 32 \<Longrightarrow>
      avail w = frame_header RTRV_T_OK len @ get_meta total_size start digest @ rest \<Longrightarrow>
      partial_kept (fs w) dest digest start (take (unat (total_size - start)) rest) (fs w') \<Longrightarrow>
      files.same_except (get_keys dest digest start b e) (fs w) (fs w') \<Longrightarrow>
      tx w' = tx w @ get_frame (b, e, offset, token) name \<Longrightarrow>
      allocs w' = allocs w \<Longrightarrow> open_files w' = open_files w \<Longrightarrow> Q Fail w'"
    and good: "\<And>w' b e offset token len total_size start digest body.
      node_at (fs w) dest = None \<Longrightarrow> length name \<le> 255 \<Longrightarrow>
      may_offer (fs w) dest (b, e, offset, token) \<Longrightarrow> length digest = 32 \<Longrightarrow>
      avail w = frame_header RTRV_T_OK len @ get_meta total_size start digest @ body @ avail w' \<Longrightarrow>
      length body = unat (total_size - start) \<Longrightarrow> published (fs w) dest digest start body (fs w') \<Longrightarrow>
      files.same_except (insert (resolve dest) (get_keys dest digest start b e)) (fs w) (fs w') \<Longrightarrow>
      tx w' = tx w @ get_frame (b, e, offset, token) name \<Longrightarrow>
      Downloaded name total_size dest \<in> set (out w') \<Longrightarrow>
      allocs w' = allocs w \<Longrightarrow> open_files w' = open_files w \<Longrightarrow> Q (Ok ()) w'"
  shows "wp (rtrv_do_get name dest) Q w"
proof (cases "node_at (fs w) dest = None")
  case False
  have "Q Fail (w\<lparr>err := err w @ [ExistsLocally dest]\<rparr>)"
    by (rule early [of _ "(False, [], 0, replicate RTRV_TOKEN_SIZE 0)" 0]) (simp_all add: may_offer_def)
  with False show ?thesis by (simp add: rtrv_do_get_def wp_simps)
next
  case new: True
  have "wp (andthen (offer_partial dest) (\<lambda>(b, e, offset, token).
       if length name > RTRV_MAX_NAME then die NameTooLong
       else andthen (send_get name offset token) (\<lambda>_. andthen get_reply (get_receive name dest b e)))) Q w"
    unfolding wp_andthen [of "offer_partial dest"]
  proof (rule wp_offer_partial, goal_cases)
    case (1 g x)
    obtain b e offset token where x: "x = (b, e, offset, token)" by (cases x) auto
    note offer = 1 [unfolded x]
    show ?case
    proof (cases "length name \<le> 255")
      case False
      have "Q Fail (w\<lparr>faults := g, err := err w @ [NameTooLong]\<rparr>)"
        by (rule early [OF _ offer, of _ 0]) simp_all
      with False x show ?thesis by (simp add: wp_simps RTRV_MAX_NAME_def)
    next
      case short: True
      have "wp (andthen (send_get name offset token) (\<lambda>_. andthen get_reply (get_receive name dest b e))) Q (w\<lparr>faults := g\<rparr>)"
        by (rule wp_get_exchange [OF _ short])
          (use offer in \<open>auto intro: early [OF _ offer] late [OF new short offer] good [OF new short offer]\<close>)
      then show ?thesis using short by (simp add: x RTRV_MAX_NAME_def)
    qed
  qed
  with new show ?thesis by (simp add: do_get_eq wp_simps)
qed

section \<open>Which files a download may touch\<close>

text \<open>The places of the partials of a destination: 16 characters in the place of the token.\<close>

definition partial_keys :: "string \<Rightarrow> path set" where
  "partial_keys dest = (\<lambda>t. resolve (partial_with dest t)) ` {t. length t = 16}"

lemma dest_not_partial_key: "resolve dest \<notin> partial_keys dest"
  using partial_not_dest [THEN not_sym] by (auto simp: partial_keys_def)

lemma get_keys_partial:
  assumes "may_offer f dest (b, e, offset, token)" and "length digest = 32"
  shows "get_keys dest digest start b e \<subseteq> partial_keys dest"
proof -
  have "resolve (partial_path dest digest) \<in> partial_keys dest"
    using assms(2) unfolding partial_keys_def partial_path_def by (intro imageI) (simp add: RTRV_TOKEN_SIZE_def)
  moreover have "b \<Longrightarrow> resolve e \<in> partial_keys dest"
    using assms(1) by (auto simp: may_offer_def partial_keys_def)
  ultimately show ?thesis by (auto simp: get_keys_def)
qed

lemma dest_kept:
  assumes "files.same_except (get_keys dest digest start b e) f f'"
    and "may_offer f dest (b, e, offset, token)" and "length digest = 32"
  shows "node_at f' dest = node_at f dest"
proof -
  have "map_of f' (resolve dest) = map_of f (resolve dest)"
    using files.same_exceptD [OF assms(1)] get_keys_partial [OF assms(2,3)] dest_not_partial_key by blast
  then show ?thesis by (simp add: node_at_def)
qed

text \<open>What every download keeps.\<close>

lemma wp_get_safe:
  "wp (rtrv_do_get name dest) (\<lambda>r w'. r \<noteq> Undef \<and> allocs w' = allocs w \<and> open_files w' = open_files w \<and>
     files.same_except (insert (resolve dest) (partial_keys dest)) (fs w) (fs w')) w"
proof (rule wp_do_get, goal_cases)
  case (2 w' b e offset token len total_size start digest rest)
  then show ?case
    by (intro conjI files.same_except_mono [OF 2(7)] subset_trans [OF _ subset_insertI] get_keys_partial [OF 2(3,4)])
      simp_all
next
  case (3 w' b e offset token len total_size start digest body)
  then show ?case
    by (intro conjI files.same_except_mono [OF 3(8)] insert_mono get_keys_partial [OF 3(3,4)]) simp_all
qed simp

end
