(* ===== verification/Rtrv_Resume.thy ===== *)
theory Rtrv_Resume
  imports Rtrv_Get
begin

text \<open>
  Downloads that nothing disturbs (no call fails for outside reasons, \<open>send\<close> reports no error):
  a complete body is published, a body that stops short leaves its whole chunks in the partial,
  and the next download offers exactly those and completes the file.
\<close>

section \<open>The phases without disturbance\<close>

lemma wp_get_reply_ok:
  assumes "avail w = frame_header RTRV_T_OK len @ meta @ rest" and "length meta = 48"
    and "\<And>r. rx_bytes r = rest \<Longrightarrow> Q (Ok meta) (w\<lparr>rx := r\<rparr>)"
  shows "wp get_reply Q w"
  unfolding get_reply_def wp_andthen
proof (rule wp_read_frame_header, goal_cases)
  case (1 ty l r)
  then have "ty = RTRV_T_OK" "rx_bytes r = meta @ rest"
    using assms(1) by (simp_all add: frame_header_inject)
  then show ?case
    by (simp add: RTRV_T_OK_def RTRV_T_ERROR_def)
      (rule wp_read_exact, use assms(2,3) in \<open>simp_all add: RTRV_GET_META_def\<close>)
next
  case (2 r d)
  then show ?case using assms(1) by blast
qed

text \<open>What a body of \<open>n\<close> bytes that stops short leaves: its whole chunks of 64 KiB.\<close>

definition whole_chunks :: "bytes \<Rightarrow> bytes" where
  "whole_chunks body = take (65536 * (length body div 65536)) body"

lemma whole_chunks_step:
  "65536 \<le> length xs \<Longrightarrow> whole_chunks xs = take 65536 xs @ whole_chunks (drop 65536 xs)"
proof -
  assume "65536 \<le> length xs"
  then have "length xs div 65536 = Suc ((length xs - 65536) div 65536)" by (simp add: le_div_geq)
  then show ?thesis by (simp add: whole_chunks_def take_add)
qed

lemma wp_get_body_calm:
  assumes "length buf = 65536" and "map_of (fs w) (of_path h) = Some (File c)"
    and "open_files w = Suc n" and "faults w = []"
    and "\<And>w'. unat remaining \<le> length (avail w) \<Longrightarrow>
      fs w' = AList.update (of_path h) (File (c @ take (unat remaining) (avail w))) (fs w) \<Longrightarrow>
      avail w' = drop (unat remaining) (avail w) \<Longrightarrow> offline w w' \<Longrightarrow> open_files w' = Suc n \<Longrightarrow>
      faults w' = [] \<Longrightarrow> Q (Ok ()) w'"
    and "\<And>w'. length (avail w) < unat remaining \<Longrightarrow>
      fs w' = AList.update (of_path h) (File (c @ whole_chunks (avail w))) (fs w) \<Longrightarrow>
      offline w w' \<Longrightarrow> open_files w' = n \<Longrightarrow> faults w' = [] \<Longrightarrow>
      DownloadInterrupted \<in> set (err w') \<Longrightarrow> Q Fail w'"
  shows "wp (get_body_loop partial h buf remaining) Q w"
  using assms
proof (induction "unat remaining" arbitrary: remaining buf w c rule: less_induct)
  case less
  note buf = less.prems(1) and held = less.prems(2) and opened = less.prems(3) and calm = less.prems(4)
    and good = less.prems(5) and short = less.prems(6)
  show ?case
  proof (cases "remaining = 0")
    case True
    then have "Q (Ok ()) w" by (intro good) (simp_all add: update_triv held opened calm)
    with True show ?thesis by (simp add: get_body_loop.simps wp_simps)
  next
    case False
    then have pos: "0 < remaining" by (simp add: word_neq_0_conv)
    define want where "want = (if remaining < 65536 then unat remaining else 65536)"
    note want = chunk_facts [OF pos want_def]
    note left = want(4) and full = want(5)
    show ?thesis
      unfolding get_body_loop.simps [of partial h buf] if_P [OF pos] want_def [symmetric] Let_def wp_attempt
    proof (rule wp_read_exact_into, goal_cases)
      case (2 r)
      let ?buf = "take want (avail w) @ drop want buf"
      let ?w = "w\<lparr>rx := r, fs := AList.update (of_path h) (File (c @ take want (avail w))) (fs w)\<rparr>"
      have "wp (get_body_loop partial h ?buf (remaining - word_of_nat want)) Q ?w"
      proof (rule less.hyps [where c = "c @ take want (avail w)"], goal_cases)
        case (6 w')
        then show ?case
          by (intro good) (use 2 left want in \<open>simp_all add: update_last take_piece\<close>)
      next
        case (7 w')
        then have "want = 65536" using full left want 2 by simp
        then show ?case
          by (intro short) (use 7 2 left want whole_chunks_step [of "avail w"] in \<open>simp_all add: update_last\<close>)
      qed (use 2 buf opened calm left want in \<open>simp_all add: update_conv'\<close>)
      then show ?case
        using 2(1) calm contents_File [OF held] by (simp add: wp_simps undisturbed mem_get_def)
    next
      case (3 r d)
      then have "whole_chunks (avail w) = []" using want by (simp add: whole_chunks_def)
      then show ?case
        using 3 calm opened want
        by (simp add: wp_simps undisturbed) (rule short, simp_all add: update_triv held)
    qed (use buf want in simp)
  qed
qed

lemma wp_sha256_file_calm [undisturbed]:
  "faults w = [] \<Longrightarrow> node_at (fs w) p = Some (File c) \<Longrightarrow> wp (sha256_file p) Q w = Q (Ok (sha256 c)) w"
  by (simp add: wp_def sha256_file_no_faults)

lemma creatable_delete: "creatable f p \<Longrightarrow> k \<noteq> parent (resolve p) \<Longrightarrow> creatable (AList.delete k f) p"
  by (auto simp: creatable_def is_dir_def delete_conv' split: if_splits)

lemma creatable_update: "creatable f p \<Longrightarrow> k \<noteq> parent (resolve p) \<Longrightarrow> creatable (AList.update k (File c) f) p"
  by (auto simp: creatable_def is_dir_def update_conv' split: if_splits)

text \<open>The files once a useless partial has been removed, or not.\<close>

definition cleared :: "filesys \<Rightarrow> u64 \<Rightarrow> bool \<Rightarrow> string \<Rightarrow> filesys \<Rightarrow> bool" where
  "cleared f start has_partial existing f' \<longleftrightarrow>
     f' = f \<or> \<not> 0 < start \<and> has_partial \<and> f' = AList.delete (resolve existing) f"

lemma wp_get_clear_calm:
  assumes "faults w = []"
    and "\<And>w'. cleared (fs w) start has_partial existing (fs w') \<Longrightarrow>
      avail w' = avail w \<Longrightarrow> offline w w' \<Longrightarrow> open_files w' = open_files w \<Longrightarrow> faults w' = [] \<Longrightarrow> Q (Ok ()) w'"
  shows "wp (if 0 < start then print m else if has_partial then remove existing else ret ()) Q w"
proof (cases "\<not> 0 < start \<and> has_partial")
  case True
  have "wp (remove existing) Q w"
    by (rule wp_remove_calm; (rule assms)?) (use True assms(1) in \<open>simp_all add: cleared_def\<close>)
  with True show ?thesis by simp
next
  case False
  then show ?thesis using assms(1) by (auto simp: wp_simps cleared_def intro!: assms(2))
qed

lemma cleared_creatable:
  assumes "cleared f start b e f'" and "b \<Longrightarrow> \<exists>t. e = partial_with dest t"
  shows "creatable f dest \<Longrightarrow> creatable f' dest"
    and "creatable f (partial_path dest digest) \<Longrightarrow> creatable f' (partial_path dest digest)"
  using assms partial_not_parent hex_of_no_slash
  by (auto simp: cleared_def partial_path_def intro!: creatable_delete)

lemma partial_path_keys:
  "resolve (partial_path dest digest) \<noteq> resolve dest"
  "resolve (partial_path dest digest) \<noteq> parent (resolve dest)"
  "resolve (partial_path dest digest) \<noteq> parent (resolve (partial_path dest digest))"
  using partial_not_dest partial_not_parent hex_of_no_slash by (auto simp: partial_path_def)

text \<open>Receiving: the whole body gives the file, a short one leaves its whole chunks.\<close>

lemma wp_get_receive_calm:
  assumes calm: "faults w = []" and digest: "length digest = 32"
    and dest: "good_dest dest" "creatable (fs w) dest" "creatable (fs w) p"
    and p: "p = partial_path dest digest"
    and other: "b \<Longrightarrow> \<exists>t. e = partial_with dest t"
    and base: "base = resume_base (fs w) (resolve p) start"
    and good: "\<And>w' f. length body = unat (total_size - start) \<Longrightarrow> cleared (fs w) start b e f \<Longrightarrow>
      avail w = body @ avail w' \<Longrightarrow>
      fs w' = AList.update (resolve dest) (File (base @ body)) (AList.delete (resolve p) f) \<Longrightarrow>
      offline w w' \<Longrightarrow> open_files w' = open_files w \<Longrightarrow> faults w' = [] \<Longrightarrow> Q (Ok ()) w'"
    and short: "\<And>w' f. length body < unat (total_size - start) \<Longrightarrow> cleared (fs w) start b e f \<Longrightarrow>
      fs w' = AList.update (resolve p) (File (base @ whole_chunks body)) f \<Longrightarrow>
      offline w w' \<Longrightarrow> open_files w' = open_files w \<Longrightarrow> faults w' = [] \<Longrightarrow>
      DownloadInterrupted \<in> set (err w') \<Longrightarrow> Q Fail w'"
    and body: "avail w = body @ rest" "length body = unat (total_size - start) \<and> sha256 (base @ body) = digest \<or>
      length body < unat (total_size - start) \<and> rest = []"
  shows "wp (get_receive name dest b e (get_meta total_size start digest)) Q w"
proof -
  have tok: "RTRV_TOKEN_SIZE \<le> length digest" using digest by (simp add: RTRV_TOKEN_SIZE_def)
  let ?h = "\<lparr>of_path = resolve p, of_base = length base\<rparr>"
  show ?thesis
    unfolding get_receive_def wp_andthen get_meta_fields wp_access outcome.case Let_def
      wp_partial_name [OF tok] if_P [OF dest(1)] p [symmetric]
  proof (rule wp_get_clear_calm [OF calm], goal_cases)
    case (1 w1)
    note clear = 1
    have base1: "base = (if 0 < start then contents (fs w1) (resolve p) else [])"
      using clear(1) by (auto simp: base resume_base_def cleared_def)
    have new: "creatable (fs w1) dest" "creatable (fs w1) p"
      using cleared_creatable [OF clear(1) other] dest by (auto simp: p)
    let ?w = "w1\<lparr>fs := AList.update (resolve p) (File base) (fs w1), open_files := Suc (open_files w1)\<rparr>"
    have "wp (andthen (get_body_loop p ?h (replicate 65536 0) (total_size - start)) (\<lambda>_.
       andthen (fclose_out ?h) (\<lambda>flushed. if \<not> flushed then die (CannotFlush p)
       else get_publish name dest p digest total_size))) Q ?w"
      unfolding wp_andthen [of "get_body_loop p ?h (replicate 65536 0) (total_size - start)"]
    proof (rule wp_get_body_calm [where c = base and n = "open_files w1"], goal_cases)
      case (5 w2)
      have whole: "length body = unat (total_size - start)" "sha256 (base @ body) = digest"
        and stream: "avail w1 = body @ rest"
        using 5(1) body clear(2) by auto
      have fs2: "fs w2 = AList.update (resolve p) (File (base @ body)) (fs w1)"
        using 5(2) whole(1) stream by (simp add: update_last)
      have node: "node_at (fs w2) p = Some (File (base @ body))"
        by (rule node_at_creatable [OF new(2)]) (simp add: fs2 update_conv')
      have cr: "creatable (fs w2) dest"
        using new(1) partial_path_keys(2) [of dest digest] by (simp add: fs2 p creatable_update)
      have "Q (Ok ()) (w2\<lparr>open_files := open_files w1,
          fs := AList.update (resolve dest) (File (base @ body)) (AList.delete (resolve p) (fs w2)),
          out := out w2 @ [Downloaded name total_size dest]\<rparr>)"
        by (rule good [OF whole(1) clear(1)])
          (use 5 clear whole stream body fs2 in \<open>auto simp: delete_update_same intro: offline_trans\<close>)
      then show ?case
        using 5 digest whole(2) node cr by (simp add: wp_simps undisturbed get_publish_def)
    next
      case (6 w2)
      have "length body < unat (total_size - start)" "avail w1 = body"
        using 6(1) body clear(2) by auto
      then show ?case
        by simp (rule short [OF _ clear(1)], use 6 clear in \<open>auto simp: update_last intro: offline_trans\<close>)
    qed (use clear in \<open>simp_all add: update_conv'\<close>)
    then show ?case
      using clear(5) new(2) base1 by (simp add: wp_andthen wp_fopen_out_calm)
  qed
qed

section \<open>The whole download without disturbance\<close>

lemma offer_partial_calm:
  assumes "faults w = []" and "good_dest dest" and "is_dir (fs w) (resolve (path_dir dest))"
    and "es = partials_of dest (entries (fs w) (resolve (path_dir dest)))"
  shows "es = [] \<Longrightarrow> offer_partial dest w = (Ok (False, [], 0, replicate 8 0), w)"
    and "8 \<le> length digest \<Longrightarrow> es = [partial_entry dest (hex_of (take 8 digest))] \<Longrightarrow>
      node_at (fs w) (partial_path dest digest) = Some n \<Longrightarrow>
      offer_partial dest w = (Ok (True, partial_path dest digest, word_of_nat (st_size n), take 8 digest), w)"
  using find_partial_calm [OF assms(1-4)]
  by (simp_all add: offer_partial_def attempt_def ret_def RTRV_TOKEN_SIZE_def)

lemma wp_do_get_calm:
  assumes calm: "faults w = []" "TxErr \<notin> set (tx_plan w)" and digest: "length digest = 32"
    and new: "node_at (fs w) dest = None" and name: "length name \<le> 255"
    and offer: "offer_partial dest w = (Ok (b, e, offset, token), w)" "length token = 8"
      "b \<Longrightarrow> \<exists>t. e = partial_with dest t"
    and reply: "avail w = frame_header RTRV_T_OK len @ get_meta total_size start digest @ body @ rest"
    and dest: "good_dest dest" "creatable (fs w) dest" "creatable (fs w) p" and p: "p = partial_path dest digest"
    and base: "base = resume_base (fs w) (resolve p) start"
    and body: "length body = unat (total_size - start) \<and> sha256 (base @ body) = digest \<or>
      length body < unat (total_size - start) \<and> rest = []"
    and good: "\<And>w' f. length body = unat (total_size - start) \<Longrightarrow> cleared (fs w) start b e f \<Longrightarrow>
      avail w' = rest \<Longrightarrow> tx w' = tx w @ get_frame (b, e, offset, token) name \<Longrightarrow>
      fs w' = AList.update (resolve dest) (File (base @ body)) (AList.delete (resolve p) f) \<Longrightarrow>
      allocs w' = allocs w \<Longrightarrow> open_files w' = open_files w \<Longrightarrow> faults w' = [] \<Longrightarrow> TxErr \<notin> set (tx_plan w') \<Longrightarrow>
      Q (Ok ()) w'"
    and short: "\<And>w' f. length body < unat (total_size - start) \<Longrightarrow> cleared (fs w) start b e f \<Longrightarrow>
      tx w' = tx w @ get_frame (b, e, offset, token) name \<Longrightarrow>
      fs w' = AList.update (resolve p) (File (base @ whole_chunks body)) f \<Longrightarrow>
      allocs w' = allocs w \<Longrightarrow> open_files w' = open_files w \<Longrightarrow> faults w' = [] \<Longrightarrow>
      DownloadInterrupted \<in> set (err w') \<Longrightarrow> Q Fail w'"
  shows "wp (rtrv_do_get name dest) Q w"
proof -
  have "wp (send_get name offset token)
         (\<lambda>r w'. case r of Ok _ \<Rightarrow> wp (andthen get_reply (get_receive name dest b e)) Q w'
             | Fail \<Rightarrow> Q Fail w' | Undef \<Rightarrow> Q Undef w') w"
  proof (rule wp_send_get [OF offer(2) name, of _ _ b e], goal_cases)
    case (1 q)
    let ?w = "w\<lparr>tx := tx w @ get_frame (b, e, offset, token) name, tx_plan := q\<rparr>"
    have m: "length (get_meta total_size start digest) = 48" using digest by (simp add: get_meta_def)
    show ?case
      unfolding outcome.case wp_andthen
    proof (rule wp_get_reply_ok [of ?w len _ "body @ rest", OF _ m], goal_cases)
      case 1
      show ?case using reply by simp
    next
      case (2 r)
      show ?case
        unfolding outcome.case
        by (rule wp_get_receive_calm [OF _ digest dest(1) _ _ p offer(3), where body = body and base = base and rest = rest])
          (use calm dest base body 1 2 in \<open>auto simp: offline_def intro: good short\<close>)
    qed
  qed (use calm in blast)
  then show ?thesis
    unfolding do_get_eq wp_andthen [of "file_exists dest"] wp_file_exists outcome.case
    using new name
    by (simp add: wp_run [where m = "offer_partial dest" and w = w, OF offer(1)] wp_simps RTRV_MAX_NAME_def
        cong: outcome.case_cong)
qed

section \<open>An interrupted download leaves what the next one offers\<close>

lemma node_at_cong: "map_of f' (resolve p) = map_of f (resolve p) \<Longrightarrow> node_at f' p = node_at f p"
  by (simp add: node_at_def)

lemma entries_update_new:
  assumes "k \<notin> set (map fst f)" and "snd k \<noteq> []"
  shows "entries (AList.update k v f) (parent k) = entries f (parent k) @ [last (snd k)]"
  using assms by (simp add: entries_def update_keys)

lemma partial_entry_is: "8 \<le> length digest \<Longrightarrow>
    is_partial_entry (''.'' @ path_base dest @ ''.'') (partial_entry dest (hex_of (take 8 digest)))"
  unfolding is_partial_entry_iff by (intro exI [of _ "hex_of (take 8 digest)"]) (simp add: partial_entry_def)

lemma partial_path_plain:
  "resolve (partial_path dest digest) =
     (fst (resolve dest), comps (path_dir dest) @ [partial_entry dest (hex_of (take 8 digest))])"
  "parent (resolve (partial_path dest digest)) = resolve (path_dir dest)"
  using resolve_partial_plain [OF hex_of_no_slash, of dest "take 8 digest"]
  by (simp_all add: partial_path_def RTRV_TOKEN_SIZE_def)

lemma partial_key_absent:
  assumes none: "partials_of dest (entries f (resolve (path_dir dest))) = []" and len: "8 \<le> length digest"
  shows "resolve (partial_path dest digest) \<notin> set (map fst f)"
proof
  let ?k = "resolve (partial_path dest digest)" and ?e = "partial_entry dest (hex_of (take 8 digest))"
  note r = partial_path_plain [of dest digest]
  assume "?k \<in> set (map fst f)"
  then have "?k \<in> set (filter (\<lambda>k. snd k \<noteq> [] \<and> parent k = resolve (path_dir dest)) (map fst f))"
    using r by simp
  then have "(last \<circ> snd) ?k \<in> set (entries f (resolve (path_dir dest)))"
    unfolding entries_def set_simps set_map by (intro insertI2 imageI)
  then have "?e \<in> set (entries f (resolve (path_dir dest)))" by (simp add: r(1))
  with partial_entry_is [OF len, of dest] none show False by (simp add: partials_of_def filter_empty_conv)
qed

lemma partials_of_new:
  assumes none: "partials_of dest (entries f (resolve (path_dir dest))) = []" and len: "8 \<le> length digest"
  shows "partials_of dest (entries (AList.update (resolve (partial_path dest digest)) v f) (resolve (path_dir dest)))
    = [partial_entry dest (hex_of (take 8 digest))]"
proof -
  let ?k = "resolve (partial_path dest digest)" and ?e = "partial_entry dest (hex_of (take 8 digest))"
  note r = partial_path_plain [of dest digest]
  have "entries (AList.update ?k v f) (parent ?k) = entries f (parent ?k) @ [?e]"
    using entries_update_new [OF partial_key_absent [OF assms], of v] r(1) by simp
  then show ?thesis
    using none partial_entry_is [OF len, of dest] r(2) by (simp add: partials_of_def)
qed

text \<open>A destination that a download can start for, with no partial beside it.\<close>

definition fresh_dest :: "filesys \<Rightarrow> string \<Rightarrow> bytes \<Rightarrow> bool" where
  "fresh_dest f dest digest \<longleftrightarrow> good_dest dest \<and> node_at f dest = None \<and> creatable f dest \<and>
     creatable f (partial_path dest digest) \<and>
     partials_of dest (entries f (resolve (path_dir dest))) = []"

lemma creatable_partial_dir: "creatable f (partial_path dest digest) \<Longrightarrow> is_dir f (resolve (path_dir dest))"
  using resolve_partial_plain(2) [OF hex_of_no_slash, of dest] by (simp add: creatable_def partial_path_def)

lemma fresh_get_interrupted:
  assumes calm: "faults w = []" "TxErr \<notin> set (tx_plan w)" and fresh: "fresh_dest (fs w) dest digest"
    and name: "length name \<le> 255" and digest: "length digest = 32"
    and reply: "avail w = frame_header RTRV_T_OK len @ get_meta total_size 0 digest @ body"
    and short: "length body < unat total_size"
  shows "\<exists>w'. rtrv_do_get name dest w = (Fail, w') \<and>
    tx w' = tx w @ frame RTRV_T_GET (get_request 0 (replicate 8 0) name) \<and>
    fs w' = AList.update (resolve (partial_path dest digest)) (File (whole_chunks body)) (fs w) \<and>
    DownloadInterrupted \<in> set (err w') \<and> faults w' = [] \<and> allocs w' = allocs w \<and> open_files w' = open_files w"
proof -
  note f = fresh [unfolded fresh_dest_def]
  have offer: "offer_partial dest w = (Ok (False, [], 0, replicate 8 0), w)"
    using calm f creatable_partial_dir by (intro offer_partial_calm(1) [OF _ _ _ refl]) blast+
  have "wp (rtrv_do_get name dest) (\<lambda>r w'. r = Fail \<and>
    tx w' = tx w @ frame RTRV_T_GET (get_request 0 (replicate 8 0) name) \<and>
    fs w' = AList.update (resolve (partial_path dest digest)) (File (whole_chunks body)) (fs w) \<and>
    DownloadInterrupted \<in> set (err w') \<and> faults w' = [] \<and> allocs w' = allocs w \<and> open_files w' = open_files w) w"
    by (rule wp_do_get_calm [OF calm digest _ name offer, where start = 0 and body = body and rest = "[]"])
      (use f reply short in \<open>auto simp: get_frame_def resume_base_def cleared_def\<close>)
  then show ?thesis by (auto simp: wp_def split: prod.splits)
qed

lemma whole_chunks_take:
  "n \<le> length c \<Longrightarrow> whole_chunks (take n c) = take (65536 * (n div 65536)) c"
  by (simp add: whole_chunks_def min_def)

text \<open>The files that such an interruption leaves are ones a resumed download completes.\<close>

lemma resumed_get_completes:
  assumes calm: "faults w = []" "TxErr \<notin> set (tx_plan w)" and fresh: "fresh_dest f dest (sha256 c)"
    and held: "fs w = AList.update (resolve (partial_path dest (sha256 c))) (File (take m c)) f"
    and name: "length name \<le> 255" and size: "length c < 2 ^ 64" and m: "m \<le> length c"
    and reply: "avail w = frame_header RTRV_T_OK len @
      get_meta (word_of_nat (length c)) (word_of_nat m) (sha256 c) @ drop m c @ rest"
  shows "\<exists>w'. rtrv_do_get name dest w = (Ok (), w') \<and>
    tx w' = tx w @ frame RTRV_T_GET (get_request (word_of_nat m) (take 8 (sha256 c)) name) \<and>
    node_at (fs w') dest = Some (File c) \<and> map_of (fs w') (resolve (partial_path dest (sha256 c))) = None \<and>
    files.same_except {resolve dest, resolve (partial_path dest (sha256 c))} f (fs w') \<and> avail w' = rest"
proof -
  let ?p = "partial_path dest (sha256 c)" and ?m = "word_of_nat m :: u64"
  note f = fresh [unfolded fresh_dest_def] and keys = partial_path_keys [of dest "sha256 c"]
  have new: "node_at (fs w) dest = None"
    using f node_at_cong [of "fs w" dest f] keys(1) by (simp add: held update_conv')
  have cr: "creatable (fs w) dest" "creatable (fs w) ?p"
    using f keys(2,3) by (simp_all add: held creatable_update)
  have node: "node_at (fs w) ?p = Some (File (take m c))"
    by (rule node_at_creatable [OF cr(2)]) (simp add: held update_conv')
  have es: "partials_of dest (entries (fs w) (resolve (path_dir dest))) = [partial_entry dest (hex_of (take 8 (sha256 c)))]"
    unfolding held by (rule partials_of_new) (use f in simp_all)
  have offer: "offer_partial dest w = (Ok (True, ?p, ?m, take 8 (sha256 c)), w)"
    using offer_partial_calm(2) [OF calm(1) _ creatable_partial_dir [OF cr(2)] refl _ es node] f m
    by (simp add: st_size_def)
  have um: "unat ?m = m" "unat (word_of_nat (length c) :: u64) = length c"
    using size m by (simp_all add: unat_of_nat)
  then have left: "unat (word_of_nat (length c) - ?m) = length c - m"
    using m by (simp add: unat_sub word_le_nat_alt)
  have base: "resume_base (fs w) (resolve ?p) ?m = take m c"
    using um(1) by (cases "m = 0") (auto simp: resume_base_def held word_less_nat_alt)
  have pub: "node_at (AList.update (resolve dest) (File c) f') dest = Some (File c)" for f'
    by (rule node_at_creatable [OF cr(1)]) (simp add: update_conv')
  have same: "files.same_except {resolve dest, resolve ?p} f (AList.update (resolve dest) (File c) (AList.delete (resolve ?p) f'))"
    if "cleared (fs w) ?m True ?p f'" for f'
    using that held by (auto simp: cleared_def intro!: files.same_except_put files.same_except_del)
  have "wp (rtrv_do_get name dest) (\<lambda>r w'. r = Ok () \<and>
    tx w' = tx w @ frame RTRV_T_GET (get_request ?m (take 8 (sha256 c)) name) \<and>
    node_at (fs w') dest = Some (File c) \<and> map_of (fs w') (resolve ?p) = None \<and>
    files.same_except {resolve dest, resolve ?p} f (fs w') \<and> avail w' = rest) w"
    by (rule wp_do_get_calm [OF calm length_sha256 new name offer _ _ _ _ cr refl refl, where body = "drop m c" and rest = rest])
      (use f reply m base left pub same keys(1) in
        \<open>auto simp: get_frame_def update_conv' delete_conv' partial_path_def\<close>)
  then show ?thesis by (auto simp: wp_def split: prod.splits)
qed

text \<open>A fresh download that nothing disturbs.\<close>

lemma fresh_get_completes:
  assumes "faults w = []" and "TxErr \<notin> set (tx_plan w)"
    and "fresh_dest (fs w) dest (sha256 c)" and "length name \<le> 255" and "length c < 2 ^ 64"
    and "avail w = frame_header RTRV_T_OK len @ get_meta (word_of_nat (length c)) 0 (sha256 c) @ c @ rest"
  shows "\<exists>w'. rtrv_do_get name dest w = (Ok (), w') \<and> node_at (fs w') dest = Some (File c) \<and>
    tx w' = tx w @ frame RTRV_T_GET (get_request 0 (replicate 8 0) name) \<and> avail w' = rest"
proof -
  note f = assms(3) [unfolded fresh_dest_def]
  have offer: "offer_partial dest w = (Ok (False, [], 0, replicate 8 0), w)"
    using assms(1) f creatable_partial_dir by (intro offer_partial_calm(1) [OF _ _ _ refl]) blast+
  have pub: "node_at (AList.update (resolve dest) (File c) f') dest = Some (File c)" for f'
    using f by (intro node_at_creatable [of "fs w"]) (simp_all add: update_conv')
  have "wp (rtrv_do_get name dest) (\<lambda>r w'. r = Ok () \<and> node_at (fs w') dest = Some (File c) \<and>
    tx w' = tx w @ frame RTRV_T_GET (get_request 0 (replicate 8 0) name) \<and> avail w' = rest) w"
    by (rule wp_do_get_calm [OF assms(1,2) length_sha256 _ assms(4) offer, where start = 0 and body = c and rest = rest])
      (use f assms(5,6) pub in \<open>auto simp: get_frame_def resume_base_def u64_nat\<close>)
  then show ?thesis by (auto simp: wp_def split: prod.splits)
qed

text \<open>An interrupted download and the next one, which offers what the first one kept.\<close>

lemma interrupted_then_resumed:
  assumes calm: "faults w = []" "TxErr \<notin> set (tx_plan w)" "TxErr \<notin> set q"
    and fresh: "fresh_dest (fs w) dest (sha256 c)" and name: "length name \<le> 255"
    and size: "length c < 2 ^ 64" "n < length c" and m: "m = 65536 * (n div 65536)"
    and first: "avail w = frame_header RTRV_T_OK len @ get_meta (word_of_nat (length c)) 0 (sha256 c) @ take n c"
    and second: "rx_bytes r = frame_header RTRV_T_OK len' @
      get_meta (word_of_nat (length c)) (word_of_nat m) (sha256 c) @ drop m c"
  shows "\<exists>w1 w2. rtrv_do_get name dest w = (Fail, w1) \<and> node_at (fs w1) dest = None \<and>
    map_of (fs w1) (resolve (partial_path dest (sha256 c))) = Some (File (take m c)) \<and>
    rtrv_do_get name dest (w1\<lparr>rx := r, tx_plan := q\<rparr>) = (Ok (), w2) \<and>
    tx w2 = tx w1 @ frame RTRV_T_GET (get_request (word_of_nat m) (take 8 (sha256 c)) name) \<and>
    node_at (fs w2) dest = Some (File c) \<and>
    map_of (fs w2) (resolve (partial_path dest (sha256 c))) = None"
proof -
  let ?k = "resolve (partial_path dest (sha256 c))"
  have "m \<le> n" by (simp add: m)
  then have le: "m \<le> length c" using size(2) by simp
  obtain w1 where w1: "rtrv_do_get name dest w = (Fail, w1)"
      "fs w1 = AList.update ?k (File (take m c)) (fs w)" "faults w1 = []"
    using fresh_get_interrupted [OF calm(1,2) fresh name length_sha256 first] size
    by (auto simp: u64_nat whole_chunks_take m)
  moreover have "node_at (fs w1) dest = None"
    using node_at_cong [of "fs w1" dest "fs w"] partial_path_keys(1) [of dest "sha256 c"] fresh
    by (simp add: w1(2) update_conv' fresh_dest_def)
  moreover obtain w2 where "rtrv_do_get name dest (w1\<lparr>rx := r, tx_plan := q\<rparr>) = (Ok (), w2)"
      "tx w2 = tx w1 @ frame RTRV_T_GET (get_request (word_of_nat m) (take 8 (sha256 c)) name)"
      "node_at (fs w2) dest = Some (File c)" "map_of (fs w2) ?k = None"
    using resumed_get_completes [of "w1\<lparr>rx := r, tx_plan := q\<rparr>" "fs w" dest c m name len' "[]"]
      calm(3) w1 fresh name size(1) le second by auto
  ultimately show ?thesis by (auto simp: update_conv')
qed

end
