(* ===== verification/Rtrv_Put.thy ===== *)
theory Rtrv_Put
  imports Rtrv_Resume
begin

text \<open>
  The upload, \<open>rtrv_do_put\<close> of \<open>src/c/transfer.c\<close>, in its phases: the request with size, hash and
  name, the server's resume offset, the bytes from that offset on, and the verdict.
\<close>

section \<open>The phases\<close>

text \<open>The request in its stack array: size, hash, length of the name, name.\<close>

definition build_put_request :: "bytes \<Rightarrow> u64 \<Rightarrow> bytes \<Rightarrow> string \<Rightarrow> bytes option" where
  "build_put_request request file_size digest remote_name =
     Option.bind (rtrv_put_u64 request 0 file_size) (\<lambda>request.
     Option.bind (mem_put request 8 (take SHA256_DIGEST_SIZE digest)) (\<lambda>request.
     Option.bind (rtrv_put_u16 request (8 + SHA256_DIGEST_SIZE) (word_of_nat (length remote_name))) (\<lambda>request.
     mem_put request (8 + SHA256_DIGEST_SIZE + 2) (map of_char remote_name))))"

text \<open>The answer to the request: an error is reported, an OK frame holds the offset.\<close>

definition put_offset :: "byte \<times> bytes option \<times> u64 \<Rightarrow> u64 cmd" where
  "put_offset = (\<lambda>(typ, payload, payload_len).
     if typ = RTRV_T_ERROR then
       andthen (rtrv_report_error payload payload_len) (\<lambda>_.
       andthen (free payload) (\<lambda>_. failed))
     else if typ \<noteq> RTRV_T_OK \<or> payload_len < 8 then
       andthen (complain (UnexpectedReply typ ''PUT'')) (\<lambda>_.
       andthen (free payload) (\<lambda>_. failed))
     else
       andthen (access (Option.bind payload (\<lambda>p. rtrv_get_u64 p 0))) (\<lambda>resume_offset.
       andthen (free payload) (\<lambda>_. ret resume_offset)))"

text \<open>The send loop: at most 64 KiB at a time, read completely and then sent completely.\<close>

function put_body_loop :: "string \<Rightarrow> ifile \<Rightarrow> bytes \<Rightarrow> u64 \<Rightarrow> ifile cmd" where
  "put_body_loop local_path file buf remaining =
     (if remaining > 0 then
        let want = (if remaining < 65536 then unat remaining else 65536)
        in andthen (fread file want) (\<lambda>(piece, file).
           andthen (access (mem_put buf 0 piece)) (\<lambda>buf.
           if length piece \<noteq> want
           then andthen (fclose_in file) (\<lambda>_. die (ChangedSize local_path))
           else attempt (rtrv_write_all buf (length piece))
                  (\<lambda>_. put_body_loop local_path file buf (remaining - word_of_nat (length piece)))
                  (andthen (fclose_in file) (\<lambda>_. failed))))
      else ret file)"
  by pat_completeness auto
termination
proof (relation "measure (\<lambda>(local_path, file, buf, remaining). unat remaining)", goal_cases)
  case 1
  then show ?case by simp
next
  case (2 local_path h buf remaining want)
  moreover have "0 < unat remaining" using 2(1) by (simp add: word_less_nat_alt)
  ultimately show ?case using chunk_left [OF 2(1)] by auto
qed

declare put_body_loop.simps [simp del]

text \<open>The verdict.\<close>

definition put_verdict :: "string \<Rightarrow> u64 \<Rightarrow> string \<Rightarrow> unit cmd" where
  "put_verdict local_path file_size remote_name =
     andthen rtrv_read_frame (\<lambda>(typ, payload, payload_len).
     if typ = RTRV_T_ERROR then
       andthen (rtrv_report_error payload payload_len) (\<lambda>_.
       andthen (free payload) (\<lambda>_. failed))
     else andthen (free payload) (\<lambda>_.
       if typ \<noteq> RTRV_T_OK then die (UnexpectedReply typ ''upload'')
       else print (Uploaded local_path file_size remote_name)))"

text \<open>From the offset to the verdict.\<close>

definition put_send :: "string \<Rightarrow> string \<Rightarrow> u64 \<Rightarrow> u64 \<Rightarrow> unit cmd" where
  "put_send local_path remote_name file_size resume_offset =
     (if resume_offset > file_size then die ResumePastEnd
      else
        andthen (if resume_offset > 0 then print (ResumingUpload resume_offset) else ret ()) (\<lambda>_.
        andthen (fopen_in local_path) (\<lambda>opened. case opened of
          None \<Rightarrow> die (CannotOpen local_path)
        | Some file \<Rightarrow>
            andthen (fseek file (unat resume_offset)) (\<lambda>sought. case sought of
              None \<Rightarrow> andthen (fclose_in file) (\<lambda>_. die (CannotSeek local_path))
            | Some file \<Rightarrow>
                andthen (put_body_loop local_path file (replicate 65536 0) (file_size - resume_offset)) (\<lambda>file.
                andthen (fclose_in file) (\<lambda>_.
                put_verdict local_path file_size remote_name))))))"

definition rtrv_do_put :: "string \<Rightarrow> string \<Rightarrow> unit cmd" where
  "rtrv_do_put local_path remote_name =
     andthen (stat local_path) (\<lambda>st. case st of
       Some (File c) \<Rightarrow>
         (let file_size = word_of_nat (st_size (File c))
          in attempt (sha256_file local_path)
               (\<lambda>digest.
                  if length remote_name > RTRV_MAX_NAME then die NameTooLong
                  else
                    andthen (access (build_put_request (replicate (8 + SHA256_DIGEST_SIZE + 2 + RTRV_MAX_NAME) 0)
                               file_size digest remote_name)) (\<lambda>request.
                    andthen (rtrv_write_frame RTRV_T_PUT (Some request)
                               (word_of_nat (8 + SHA256_DIGEST_SIZE + 2 + length remote_name))) (\<lambda>_.
                    andthen rtrv_read_frame (\<lambda>reply.
                    andthen (put_offset reply) (\<lambda>resume_offset.
                    put_send local_path remote_name file_size resume_offset)))))
               (die (CannotRead local_path)))
     | _ \<Rightarrow> die (NotFoundLocally local_path))"

section \<open>The request\<close>

definition put_request :: "u64 \<Rightarrow> bytes \<Rightarrow> string \<Rightarrow> bytes" where
  "put_request file_size digest name =
     be_bytes 8 file_size @ digest @ be_bytes 2 (word_of_nat (length name) :: u16) @ map of_char name"

lemma length_put_request [simp]: "length digest = 32 \<Longrightarrow> length (put_request n digest name) = 42 + length name"
  by (simp add: put_request_def)

lemma build_put_request_eq:
  assumes "length request = 297" and "length digest = 32" and "length name \<le> 255"
  shows "build_put_request request n digest name =
    Some (put_request n digest name @ drop (42 + length name) request)"
proof -
  have "rtrv_put_u64 request 0 n = Some (be_bytes 8 n @ drop 8 request)"
    using assms by (simp add: u64_field.put_Some)
  moreover have "mem_put (be_bytes 8 n @ drop 8 request) 8 digest
      = Some (be_bytes 8 n @ digest @ drop 40 request)"
    using assms by (simp add: mem_put_Some)
  moreover have "rtrv_put_u16 (be_bytes 8 n @ digest @ drop 40 request) 40 v
      = Some (be_bytes 8 n @ digest @ be_bytes 2 v @ drop 42 request)" for v
    using assms by (simp add: u16_field.put_Some)
  moreover have "mem_put (be_bytes 8 n @ digest @ be_bytes 2 v @ drop 42 request) 42 (map of_char name)
      = Some (be_bytes 8 n @ digest @ be_bytes 2 v @ map of_char name @ drop (42 + length name) request)"
    for v :: u16
    using assms by (simp add: mem_put_Some add.commute)
  ultimately show ?thesis
    using assms by (simp add: build_put_request_def put_request_def)
qed

definition put_frame :: "bytes \<Rightarrow> string \<Rightarrow> bytes" where
  "put_frame c name = frame RTRV_T_PUT (put_request (word_of_nat (length c)) (sha256 c) name)"

definition send_put :: "u64 \<Rightarrow> bytes \<Rightarrow> string \<Rightarrow> unit cmd" where
  "send_put n digest name =
     andthen (access (build_put_request (replicate (8 + SHA256_DIGEST_SIZE + 2 + RTRV_MAX_NAME) 0) n digest name)) (\<lambda>request.
     rtrv_write_frame RTRV_T_PUT (Some request) (word_of_nat (8 + SHA256_DIGEST_SIZE + 2 + length name)))"

text \<open>The upload of a file, once its size and its digest are known.\<close>

definition put_exchange :: "string \<Rightarrow> string \<Rightarrow> u64 \<Rightarrow> bytes \<Rightarrow> unit cmd" where
  "put_exchange p name n digest =
     andthen (send_put n digest name) (\<lambda>_. andthen (andthen rtrv_read_frame put_offset) (put_send p name n))"

lemma do_put_eq:
  "rtrv_do_put p name =
     andthen (stat p) (\<lambda>st. case st of
       Some (File c) \<Rightarrow>
         attempt (sha256_file p)
           (\<lambda>digest. if length name > RTRV_MAX_NAME then die NameTooLong
              else put_exchange p name (word_of_nat (length c)) digest)
           (die (CannotRead p))
     | _ \<Rightarrow> die (NotFoundLocally p))"
  unfolding rtrv_do_put_def put_exchange_def send_put_def andthen_assoc Let_def st_size_def node.case ..

lemma wp_send_put:
  assumes "length name \<le> 255"
    and "\<And>q. set q \<subseteq> set (tx_plan w) \<Longrightarrow> Q (Ok ()) (w\<lparr>tx := tx w @ put_frame c name, tx_plan := q\<rparr>)"
    and "\<And>k q. TxErr \<in> set (tx_plan w) \<Longrightarrow>
      Q Fail (w\<lparr>tx := tx w @ take k (put_frame c name), tx_plan := q, err := err w @ [WriteFailed]\<rparr>)"
  shows "wp (send_put (word_of_nat (length c)) (sha256 c) name) Q w"
proof -
  have n: "unat (word_of_nat (42 + length name) :: u64) = 42 + length name"
    using assms(1) by (simp add: unat_of_nat del: of_nat_add)
  let ?arr = "replicate (8 + SHA256_DIGEST_SIZE + 2 + RTRV_MAX_NAME) 0 :: bytes"
  let ?r = "put_request (word_of_nat (length c)) (sha256 c) name"
  have arr: "length ?arr = 297" "8 + SHA256_DIGEST_SIZE + 2 + length name = 42 + length name"
    by (simp_all add: RTRV_MAX_NAME_def)
  have f: "frame_header RTRV_T_PUT (word_of_nat (42 + length name)) @ ?r = put_frame c name"
    by (simp add: put_frame_def frame_def)
  show ?thesis
    unfolding send_put_def build_put_request_eq [OF arr(1) length_sha256 assms(1)] wp_andthen wp_access outcome.case arr(2)
    by (rule wp_write_frame [where p = "?r @ drop (42 + length name) ?arr"])
      (use assms f n arr in \<open>simp_all del: of_nat_add length_replicate\<close>)
qed

section \<open>The answers\<close>

text \<open>The report and the release that end every refused command.\<close>

lemma wp_report_and_free:
  assumes "payload = None \<or> (\<exists>p. payload = Some p \<and> length p = unat len)"
    and "allocs w = (if payload = None then n else Suc n)"
    and "\<And>w'. unmoved w w' \<Longrightarrow> allocs w' = n \<Longrightarrow> Q Fail w'"
  shows "wp (andthen (rtrv_report_error payload len) (\<lambda>_. andthen (free payload) (\<lambda>_. failed))) Q w"
  unfolding wp_andthen [of "rtrv_report_error payload len"]
proof (rule wp_report_error [OF assms(1)], goal_cases)
  case (1 d)
  show ?case
  proof (cases payload)
    case None
    then show ?thesis using assms(2) by (simp add: wp_simps) (rule assms(3), simp_all add: unmoved_def)
  next
    case (Some p)
    then show ?thesis using assms(2) by (simp add: wp_simps) (rule assms(3), simp_all add: unmoved_def)
  qed
qed

lemma wp_free_payload:
  assumes "allocs w = (if payload = None then n else Suc n)"
  shows "wp (free payload) Q w = Q (Ok ()) (w\<lparr>allocs := n\<rparr>)"
  using assms by (cases payload) (auto simp: wp_simps)

lemma unmoved_trans: "unmoved w w' \<Longrightarrow> unmoved w' w'' \<Longrightarrow> unmoved w w''"
  by (simp add: unmoved_def)

text \<open>The offset is read inside the payload, which is released on every path.\<close>

lemma wp_put_reply:
  assumes ok: "\<And>len p offset w'. avail w = frame_header RTRV_T_OK len @ p @ avail w' \<Longrightarrow> length p = unat len \<Longrightarrow>
      take 8 p = be_bytes 8 offset \<Longrightarrow> unmoved w w' \<Longrightarrow> allocs w' = allocs w \<Longrightarrow> Q (Ok offset) w'"
    and bad: "\<And>w'. unmoved w w' \<Longrightarrow> allocs w' = allocs w \<Longrightarrow> Q Fail w'"
  shows "wp (andthen rtrv_read_frame put_offset) Q w"
  unfolding wp_andthen
proof (rule wp_read_frame, goal_cases)
  case (1 ty len p w1)
  note got = 1
  let ?payload = "if len = 0 then None else Some p"
  have held: "allocs w1 = (if ?payload = None then allocs w else Suc (allocs w))" using got by simp
  have shape: "?payload = None \<or> (\<exists>q. ?payload = Some q \<and> length q = unat len)" using got(2) by simp
  have error: "wp (andthen (rtrv_report_error ?payload len) (\<lambda>_. andthen (free ?payload) (\<lambda>_. failed))) Q w1"
    by (rule wp_report_and_free [OF shape held]) (rule bad, use got(4) unmoved_trans in auto)
  have other: "wp (andthen (complain d) (\<lambda>_. andthen (free ?payload) (\<lambda>_. failed))) Q w1" for d
    using held by (simp add: wp_simps wp_free_payload [where n = "allocs w"] del: if_split_asm)
      (use got(4) in \<open>auto simp: wp_simps unmoved_def intro!: bad\<close>)
  have offset: "wp (andthen (access (Option.bind ?payload (\<lambda>p. rtrv_get_u64 p 0))) (\<lambda>x.
      andthen (free ?payload) (\<lambda>_. ret x))) Q w1" if "ty = RTRV_T_OK" and "\<not> len < 8"
  proof -
    have big: "8 \<le> length p" "len \<noteq> 0" using that(2) got(2) by (auto simp: word_less_nat_alt)
    then obtain x where x: "rtrv_get_u64 p 0 = Some x" "be_bytes 8 x = take 8 p"
      using u64_field.get_at [of 0 p] by auto
    have "Q (Ok x) (w1\<lparr>allocs := allocs w\<rparr>)"
      by (rule ok [of len p]) (use got x that in \<open>simp_all add: unmoved_def\<close>)
    then show ?thesis using big x(1) held by (simp add: wp_simps)
  qed
  show ?case
    using error other offset by (auto simp: put_offset_def)
next
  case (2 w1 d)
  then show ?case by (simp add: bad)
qed

section \<open>The body\<close>

text \<open>What sending from a file leaves alone.\<close>

definition sending :: "world \<Rightarrow> world \<Rightarrow> bool" where
  "sending w w' \<longleftrightarrow> fs w' = fs w \<and> rx w' = rx w \<and> allocs w' = allocs w \<and>
     set (tx_plan w') \<subseteq> set (tx_plan w) \<and> (faults w = [] \<longrightarrow> faults w' = [])"

lemma sending_refl [simp]: "sending w w"
  by (simp add: sending_def)

text \<open>One round of the loop once \<open>fread\<close> has returned.\<close>

definition put_piece :: "string \<Rightarrow> nat \<Rightarrow> bytes \<Rightarrow> u64 \<Rightarrow> bytes \<times> ifile \<Rightarrow> ifile cmd" where
  "put_piece p want buf remaining = (\<lambda>(piece, file).
     andthen (access (mem_put buf 0 piece)) (\<lambda>buf.
     if length piece \<noteq> want
     then andthen (fclose_in file) (\<lambda>_. die (ChangedSize p))
     else attempt (rtrv_write_all buf (length piece))
            (\<lambda>_. put_body_loop p file buf (remaining - word_of_nat (length piece)))
            (andthen (fclose_in file) (\<lambda>_. failed))))"

lemma wp_put_piece:
  assumes buf: "length buf = 65536" "length bs \<le> 65536" and opened: "open_files w = Suc n"
    and short: "length bs \<noteq> want \<Longrightarrow> Q Fail (w\<lparr>open_files := n, err := err w @ [ChangedSize p]\<rparr>)"
    and more: "\<And>q. length bs = want \<Longrightarrow> set q \<subseteq> set (tx_plan w) \<Longrightarrow>
      wp (put_body_loop p h (bs @ drop want buf) (remaining - word_of_nat want)) Q
        (w\<lparr>tx := tx w @ bs, tx_plan := q\<rparr>)"
    and broken: "\<And>k q. length bs = want \<Longrightarrow> TxErr \<in> set (tx_plan w) \<Longrightarrow>
      Q Fail (w\<lparr>tx := tx w @ take k bs, tx_plan := q, err := err w @ [WriteFailed], open_files := n\<rparr>)"
  shows "wp (put_piece p want buf remaining (bs, h)) Q w"
proof -
  have put: "mem_put buf 0 bs = Some (bs @ drop (length bs) buf)"
    using buf by (simp add: mem_put_def)
  show ?thesis
  proof (cases "length bs = want")
    case False
    then show ?thesis using short put opened by (simp add: put_piece_def wp_simps)
  next
    case True
    have "wp (attempt (rtrv_write_all (bs @ drop want buf) want)
              (\<lambda>_. put_body_loop p h (bs @ drop want buf) (remaining - word_of_nat want))
              (andthen (fclose_in h) (\<lambda>_. failed))) Q w"
      unfolding wp_attempt
      by (rule wp_write_all) (use True more broken opened in \<open>simp_all add: wp_simps\<close>)
    then show ?thesis using True put by (simp add: put_piece_def wp_simps)
  qed
qed

text \<open>
  One round: the next \<open>want\<close> bytes of the file are sent and the loop goes on, or an initial part of them
  was sent and there was a reason: an error of the socket or the disk, or a file too short.
\<close>

lemma wp_put_round:
  assumes buf: "length buf = 65536" "want \<le> 65536" and opened: "open_files w = Suc n"
    and c: "c = drop (if_pos h) (contents (fs w) (if_path h))"
    and more: "\<And>w' h'. want \<le> length c \<Longrightarrow> sending w w' \<Longrightarrow> open_files w' = Suc n \<Longrightarrow> tx w' = tx w @ take want c \<Longrightarrow>
      if_path h' = if_path h \<Longrightarrow> if_pos h' = if_pos h + want \<Longrightarrow>
      wp (put_body_loop p h' (take want c @ drop want buf) (remaining - word_of_nat want)) Q w'"
    and bad: "\<And>w' k. fs w' = fs w \<Longrightarrow> allocs w' = allocs w \<Longrightarrow> open_files w' = n \<Longrightarrow> tx w' = tx w @ take k (take want c) \<Longrightarrow>
      TxErr \<in> set (tx_plan w) \<or> faults w \<noteq> [] \<or> is_dir (fs w) (if_path h) \<or> length c < want \<Longrightarrow> Q Fail w'"
  shows "wp (andthen (fread h want) (put_piece p want buf remaining)) Q w"
proof -
  have step: "wp (put_piece p want buf remaining (bs, h')) Q (w\<lparr>faults := g\<rparr>)"
    if bs: "bs = take k c" "k \<le> want" and h': "if_path h' = if_path h" "if_pos h' = if_pos h + length bs"
      and why: "length bs \<noteq> want \<Longrightarrow> faults w \<noteq> [] \<or> is_dir (fs w) (if_path h) \<or> length c < want"
      and g: "faults w = [] \<Longrightarrow> g = []" for bs h' g k
  proof (rule wp_put_piece [OF buf(1), where n = n], goal_cases)
    case 3
    then show ?case by (intro bad [of _ 0]) (use why opened in auto)
  next
    case (4 q)
    then have "bs = take want c" "want \<le> length c" using bs by (auto simp: min_def split: if_splits)
    then show ?case using more [of _ h'] 4 g h' opened by (simp add: sending_def)
  next
    case (5 k' q)
    then show ?case by (intro bad [of _ "min k' k"]) (use bs in \<open>auto simp: min_def\<close>)
  qed (use bs buf opened in simp_all)
  show ?thesis
  proof (cases rule: fread_cases [of w h want])
    case (ok g bs)
    then show ?thesis
      using step [of bs want "h\<lparr>if_pos := if_pos h + length bs\<rparr>" g] c
      by (auto simp: wp_andthen wp_def [of "fread h want"] min_def split: if_splits)
  next
    case (broken g bs k)
    then show ?thesis
      using step [of bs k "h\<lparr>if_pos := if_pos h + length bs, if_error := True\<rparr>" g] c
      by (auto simp: wp_andthen wp_def [of "fread h want"])
  qed
qed

text \<open>
  The loop sends the next \<open>remaining\<close> bytes of the file. When it fails, it has sent an initial
  part of them, and there was a reason.
\<close>

lemma wp_put_body_loop:
  assumes "length buf = 65536" and "open_files w = Suc n"
    and "c = drop (if_pos h) (contents (fs w) (if_path h))"
    and "\<And>w' h'. unat remaining \<le> length c \<Longrightarrow> sending w w' \<Longrightarrow> open_files w' = Suc n \<Longrightarrow>
      tx w' = tx w @ take (unat remaining) c \<Longrightarrow> Q (Ok h') w'"
    and "\<And>w' k. fs w' = fs w \<Longrightarrow> allocs w' = allocs w \<Longrightarrow> open_files w' = n \<Longrightarrow>
      tx w' = tx w @ take k (take (unat remaining) c) \<Longrightarrow>
      TxErr \<in> set (tx_plan w) \<or> faults w \<noteq> [] \<or> is_dir (fs w) (if_path h) \<or> length c < unat remaining \<Longrightarrow>
      Q Fail w'"
  shows "wp (put_body_loop p h buf remaining) Q w"
  using assms
proof (induction "unat remaining" arbitrary: remaining buf w c h rule: less_induct)
  case less
  note buf = less.prems(1) and opened = less.prems(2) and c = less.prems(3)
    and good = less.prems(4) and bad = less.prems(5)
  show ?case
  proof (cases "remaining = 0")
    case True
    then have "Q (Ok h) w" by (intro good) (simp_all add: opened)
    with True show ?thesis by (simp add: put_body_loop.simps wp_simps)
  next
    case False
    then have pos: "0 < remaining" by (simp add: word_neq_0_conv)
    define want where "want = (if remaining < 65536 then unat remaining else 65536)"
    note want = chunk_facts [OF pos want_def]
    show ?thesis
      unfolding put_body_loop.simps [of p h buf] if_P [OF pos] want_def [symmetric] Let_def put_piece_def [symmetric]
    proof (rule wp_put_round [OF buf want(2) opened c], goal_cases)
      case (1 w1 h1)
      show ?case
      proof (rule less.hyps [where c = "drop want c"], goal_cases)
        case (5 w' h')
        then show ?case by (intro good) (use 1 want in \<open>auto simp: sending_def take_piece\<close>)
      next
        case (6 w' k)
        then show ?case
          by (intro bad [of _ "want + k"]) (use 1 want in \<open>auto simp: sending_def take_add take_piece min_def\<close>)
      qed (use 1 buf want c in \<open>simp_all add: add.commute sending_def\<close>)
    next
      case (2 w' k)
      then show ?case by (intro bad [of _ "min k want"]) (use want in \<open>auto simp: min_def\<close>)
    qed
  qed
qed

section \<open>From the offset to the verdict\<close>

lemma wp_put_verdict:
  assumes ok: "\<And>len p w'. avail w = frame_header RTRV_T_OK len @ p @ avail w' \<Longrightarrow> length p = unat len \<Longrightarrow>
      fs w' = fs w \<Longrightarrow> tx w' = tx w \<Longrightarrow> allocs w' = allocs w \<Longrightarrow> open_files w' = open_files w \<Longrightarrow>
      out w' = out w @ [Uploaded local_path n name] \<Longrightarrow> Q (Ok ()) w'"
    and bad: "\<And>w'. unmoved w w' \<Longrightarrow> allocs w' = allocs w \<Longrightarrow> Q Fail w'"
  shows "wp (put_verdict local_path n name) Q w"
  unfolding put_verdict_def wp_andthen [of rtrv_read_frame]
proof (rule wp_read_frame, goal_cases)
  case (1 ty len p w1)
  note got = 1
  let ?payload = "if len = 0 then None else Some p"
  have held: "allocs w1 = (if ?payload = None then allocs w else Suc (allocs w))" using got by simp
  have shape: "?payload = None \<or> (\<exists>q. ?payload = Some q \<and> length q = unat len)" using got(2) by simp
  have error: "wp (andthen (rtrv_report_error ?payload len) (\<lambda>_. andthen (free ?payload) (\<lambda>_. failed))) Q w1"
    by (rule wp_report_and_free [OF shape held]) (rule bad, use got(4) unmoved_trans in auto)
  have good: "Q (Ok ()) (w1\<lparr>allocs := allocs w, out := out w1 @ [Uploaded local_path n name]\<rparr>)" if "ty = RTRV_T_OK"
    by (rule ok [of len p]) (use got that in \<open>simp_all add: unmoved_def\<close>)
  have no: "Q Fail (w1\<lparr>allocs := allocs w, err := err w1 @ [d]\<rparr>)" for d
    by (rule bad) (use got(4) in \<open>simp_all add: unmoved_def\<close>)
  have "wp (andthen (free ?payload) (\<lambda>_. if ty \<noteq> RTRV_T_OK then die (UnexpectedReply ty ''upload'')
       else print (Uploaded local_path n name))) Q w1"
    using good no by (simp add: wp_andthen wp_free_payload [OF held] wp_simps)
  with error show ?case by simp
next
  case (2 w1 d)
  then show ?case by (simp add: bad)
qed

text \<open>The bytes that an upload resumed at \<open>offset\<close> sends.\<close>

definition upload :: "bytes \<Rightarrow> u64 \<Rightarrow> bytes" where
  "upload c offset = take (unat (word_of_nat (length c) - offset)) (drop (unat offset) c)"

lemma upload_eq:
  assumes "length c < 2 ^ 64" and "offset \<le> word_of_nat (length c)"
  shows "upload c offset = drop (unat offset) c"
proof -
  have "unat (word_of_nat (length c) - offset) = length c - unat offset"
    using assms by (simp add: unat_sub unat_of_nat)
  then show ?thesis by (simp add: upload_def)
qed

lemma node_at_File: "node_at f p = Some (File c) \<Longrightarrow> contents f (resolve p) = c \<and> \<not> is_dir f (resolve p)"
  by (auto simp: node_at_def contents_def is_dir_def split: if_splits option.splits node.splits)

lemma wp_fseek:
  assumes "\<And>f. Q (Ok (Some (h\<lparr>if_pos := n\<rparr>))) (w\<lparr>faults := f\<rparr>)" and "\<And>f. Q (Ok None) (w\<lparr>faults := f\<rparr>)"
  shows "wp (fseek h n) Q w"
  using assms by (cases rule: next_fault_cases [of w]) (simp_all add: wp_def fseek_def)

text \<open>From the sought position on: the loop and the verdict.\<close>

lemma wp_put_stream:
  assumes held: "node_at (fs w) p = Some (File c)" and n: "n = word_of_nat (length c)"
    and opened: "open_files w = Suc m" and h: "if_path h = resolve p" "if_pos h = unat offset"
    and bad: "\<And>w' k. fs w' = fs w \<Longrightarrow> allocs w' = allocs w \<Longrightarrow> open_files w' = m \<Longrightarrow>
      tx w' = tx w @ take k (upload c offset) \<Longrightarrow> Q Fail w'"
    and good: "\<And>w' len q. avail w = frame_header RTRV_T_OK len @ q @ avail w' \<Longrightarrow>
      length q = unat len \<Longrightarrow> fs w' = fs w \<Longrightarrow> allocs w' = allocs w \<Longrightarrow> open_files w' = m \<Longrightarrow>
      tx w' = tx w @ upload c offset \<Longrightarrow> Uploaded p n name \<in> set (out w') \<Longrightarrow> Q (Ok ()) w'"
  shows "wp (andthen (put_body_loop p h (replicate 65536 0) (n - offset)) (\<lambda>file.
      andthen (fclose_in file) (\<lambda>_. put_verdict p n name))) Q w"
  unfolding wp_andthen [of "put_body_loop p h (replicate 65536 0) (n - offset)"]
proof (rule wp_put_body_loop [OF _ opened refl], goal_cases)
  case (2 w2 h')
  have sent: "fs w2 = fs w" "allocs w2 = allocs w" "avail w2 = avail w" "tx w2 = tx w @ upload c offset"
    using 2 node_at_File [OF held] by (simp_all add: sending_def avail_def upload_def n h)
  have "wp (put_verdict p n name) Q (w2\<lparr>open_files := m\<rparr>)"
  proof (rule wp_put_verdict, goal_cases)
    case (1 len q w')
    then show ?case by (intro good [of len q]) (use sent in simp_all)
  next
    case (2 w')
    then show ?case by (intro bad [of _ "length (upload c offset)"]) (use sent in \<open>simp_all add: unmoved_def\<close>)
  qed
  then show ?case using 2 by (simp add: wp_simps)
next
  case (3 w2 k)
  then show ?case
    by simp (rule bad [of _ k], use node_at_File [OF held] in \<open>simp_all add: upload_def n h\<close>)
qed simp

lemma wp_put_send:
  assumes held: "node_at (fs w) p = Some (File c)" and n: "n = word_of_nat (length c)"
    and past: "n < offset \<Longrightarrow> Q Fail (w\<lparr>err := err w @ [ResumePastEnd]\<rparr>)"
    and bad: "\<And>w' k. offset \<le> n \<Longrightarrow> fs w' = fs w \<Longrightarrow> allocs w' = allocs w \<Longrightarrow> open_files w' = open_files w \<Longrightarrow>
      tx w' = tx w @ take k (upload c offset) \<Longrightarrow> Q Fail w'"
    and good: "\<And>w' len q. offset \<le> n \<Longrightarrow> avail w = frame_header RTRV_T_OK len @ q @ avail w' \<Longrightarrow>
      length q = unat len \<Longrightarrow> fs w' = fs w \<Longrightarrow> allocs w' = allocs w \<Longrightarrow> open_files w' = open_files w \<Longrightarrow>
      tx w' = tx w @ upload c offset \<Longrightarrow> Uploaded p n name \<in> set (out w') \<Longrightarrow> Q (Ok ()) w'"
  shows "wp (put_send p name n offset) Q w"
proof (cases "n < offset")
  case True
  then show ?thesis using past by (simp add: put_send_def wp_simps)
next
  case False
  then have le: "offset \<le> n" by simp
  have opened: "wp (andthen (fopen_in p) (\<lambda>opened. case opened of
          None \<Rightarrow> die (CannotOpen p)
        | Some file \<Rightarrow> andthen (fseek file (unat offset)) (\<lambda>sought. case sought of
              None \<Rightarrow> andthen (fclose_in file) (\<lambda>_. die (CannotSeek p))
            | Some file \<Rightarrow> andthen (put_body_loop p file (replicate 65536 0) (n - offset)) (\<lambda>file.
                andthen (fclose_in file) (\<lambda>_. put_verdict p n name))))) Q w1"
    if w1: "fs w1 = fs w" "allocs w1 = allocs w" "tx w1 = tx w" "avail w1 = avail w" "open_files w1 = open_files w" for w1
    unfolding wp_andthen [of "fopen_in p"]
  proof (rule wp_fopen_in, goal_cases)
    case (1 f)
    then show ?case by (simp add: wp_simps) (rule bad [OF le, of _ 0], use w1 in simp_all)
  next
    case (2 f x)
    show ?case
      unfolding outcome.case option.case wp_andthen [of "fseek _ _"]
    proof (rule wp_fseek, goal_cases)
      case (1 g)
      show ?case
        unfolding outcome.case option.case
        by (rule wp_put_stream [OF _ n, where m = "open_files w" and offset = offset])
          (use w1 held le in \<open>auto intro: bad good\<close>)
    next
      case (2 g)
      then show ?case using w1(5) by (simp add: wp_simps) (rule bad [OF le, of _ 0], use w1 in simp_all)
    qed
  qed
  show ?thesis
    using False opened [of w] opened [of "w\<lparr>out := out w @ [ResumingUpload offset]\<rparr>"]
    by (cases "0 < offset") (simp_all add: put_send_def wp_simps)
qed

section \<open>The whole upload\<close>

text \<open>From the request on, for a file with the bytes \<open>c\<close>.\<close>

lemma wp_put_exchange:
  assumes held: "node_at (fs w) p = Some (File c)" and name: "length name \<le> 255"
    and bad: "\<And>w' offset k. fs w' = fs w \<Longrightarrow> allocs w' = allocs w \<Longrightarrow> open_files w' = open_files w \<Longrightarrow>
      tx w' = tx w @ take k (put_frame c name @ upload c offset) \<Longrightarrow>
      k \<le> length (put_frame c name) \<or> offset \<le> word_of_nat (length c) \<and>
        (\<exists>len q rest. avail w = frame_header RTRV_T_OK len @ q @ rest \<and> take 8 q = be_bytes 8 offset) \<Longrightarrow>
      Q Fail w'"
    and good: "\<And>w' offset l1 q1 l2 q2. offset \<le> word_of_nat (length c) \<Longrightarrow> take 8 q1 = be_bytes 8 offset \<Longrightarrow>
      avail w = frame_header RTRV_T_OK l1 @ q1 @ frame_header RTRV_T_OK l2 @ q2 @ avail w' \<Longrightarrow>
      length q1 = unat l1 \<Longrightarrow> length q2 = unat l2 \<Longrightarrow>
      fs w' = fs w \<Longrightarrow> allocs w' = allocs w \<Longrightarrow> open_files w' = open_files w \<Longrightarrow>
      tx w' = tx w @ put_frame c name @ upload c offset \<Longrightarrow>
      Uploaded p (word_of_nat (length c)) name \<in> set (out w') \<Longrightarrow> Q (Ok ()) w'"
  shows "wp (put_exchange p name (word_of_nat (length c)) (sha256 c)) Q w"
  unfolding put_exchange_def wp_andthen [of "send_put _ _ _"]
proof (rule wp_send_put [OF name], goal_cases)
  case (1 q)
  let ?f = "put_frame c name"
  show ?case
    unfolding outcome.case wp_andthen [of "andthen rtrv_read_frame put_offset"]
  proof (rule wp_put_reply, goal_cases)
    case (1 len q1 offset w1)
    note got = 1
    have w1: "fs w1 = fs w" "allocs w1 = allocs w" "open_files w1 = open_files w" "tx w1 = tx w @ ?f"
      using got(4,5) by (simp_all add: unmoved_def)
    show ?case
      unfolding outcome.case
    proof (rule wp_put_send [OF _ refl, where c = c], goal_cases)
      case (3 w' k)
      then show ?case by (intro bad [of _ "length ?f + k" offset]) (use got w1 in auto)
    next
      case (4 w' l2 q2)
      then show ?case by (intro good [OF 4(1) got(3), of len l2 q2]) (use got w1 in simp_all)
    next
      case 2
      show ?case by (rule bad [of _ "length ?f"]) (use w1 in simp_all)
    qed (use held w1 in simp)
  next
    case (2 w1)
    then show ?case by simp (rule bad [of _ "length ?f"], simp_all add: unmoved_def)
  qed
next
  case (2 k q)
  have "take k (put_frame c name) = take (min k (length (put_frame c name))) (put_frame c name @ upload c 0)"
    by (simp add: min_def)
  then show ?case by simp (rule bad [of _ "min k (length (put_frame c name))"], simp_all)
qed

text \<open>
  The upload never touches a file. What it sends is an initial part of the request followed by the
  file from the offset on, and nothing of the file before the server has named an offset inside it.
\<close>

lemma wp_do_put:
  assumes bad: "\<And>w' c offset k. fs w' = fs w \<Longrightarrow> allocs w' = allocs w \<Longrightarrow> open_files w' = open_files w \<Longrightarrow>
      tx w' = tx w @ take k (put_frame c name @ upload c offset) \<Longrightarrow>
      k = 0 \<or> node_at (fs w) p = Some (File c) \<Longrightarrow>
      k \<le> length (put_frame c name) \<or> offset \<le> word_of_nat (length c) \<and>
        (\<exists>len q rest. avail w = frame_header RTRV_T_OK len @ q @ rest \<and> take 8 q = be_bytes 8 offset) \<Longrightarrow>
      Q Fail w'"
    and good: "\<And>w' c offset l1 q1 l2 q2. node_at (fs w) p = Some (File c) \<Longrightarrow> length name \<le> 255 \<Longrightarrow>
      offset \<le> word_of_nat (length c) \<Longrightarrow> take 8 q1 = be_bytes 8 offset \<Longrightarrow>
      avail w = frame_header RTRV_T_OK l1 @ q1 @ frame_header RTRV_T_OK l2 @ q2 @ avail w' \<Longrightarrow>
      length q1 = unat l1 \<Longrightarrow> length q2 = unat l2 \<Longrightarrow>
      fs w' = fs w \<Longrightarrow> allocs w' = allocs w \<Longrightarrow> open_files w' = open_files w \<Longrightarrow>
      tx w' = tx w @ put_frame c name @ upload c offset \<Longrightarrow>
      Uploaded p (word_of_nat (length c)) name \<in> set (out w') \<Longrightarrow> Q (Ok ()) w'"
  shows "wp (rtrv_do_put p name) Q w"
proof (cases "\<exists>c. node_at (fs w) p = Some (File c)")
  case False
  have "Q Fail (w\<lparr>err := err w @ [NotFoundLocally p]\<rparr>)" by (rule bad [of _ 0]) simp_all
  with False show ?thesis
    by (auto simp: do_put_eq wp_simps split: option.split node.split)
next
  case True
  then obtain c where c: "node_at (fs w) p = Some (File c)" by blast
  have early: "Q Fail (w\<lparr>faults := g, err := err w @ [d]\<rparr>)" for g d by (rule bad [of _ 0]) simp_all
  have exchange: "wp (put_exchange p name (word_of_nat (length c)) (sha256 c)) Q (w\<lparr>faults := g\<rparr>)"
    if "length name \<le> 255" for g
  proof (rule wp_put_exchange [OF _ that], goal_cases)
    case (2 w' offset k)
    then show ?case by (intro bad [of _ k c offset]) (use c in simp_all)
  next
    case (3 w' offset l1 q1 l2 q2)
    then show ?case by (intro good [OF c that 3(1,2), of l1 l2 q2]) simp_all
  qed (use c in simp)
  have "wp (attempt (sha256_file p)
           (\<lambda>digest. if length name > RTRV_MAX_NAME then die NameTooLong
              else put_exchange p name (word_of_nat (length c)) digest)
           (die (CannotRead p))) Q w"
    unfolding wp_attempt
  proof (rule wp_sha256_file, goal_cases)
    case (1 g c')
    then have "c' = c" using c by simp
    then show ?case using exchange [of g] early by (simp add: wp_simps RTRV_MAX_NAME_def)
  next
    case (2 g)
    then show ?case using early by (simp add: wp_simps)
  qed
  then show ?thesis
    unfolding do_put_eq wp_andthen [of "stat p"] wp_stat by (simp only: c outcome.case option.case node.case)
qed

section \<open>Undisturbed uploads\<close>

lemma wp_put_reply_calm:
  assumes calm: "faults w = []"
    and reply: "avail w = frame_header RTRV_T_OK len @ q @ rest" "length q = unat len" "unat len \<le> RTRV_PAYLOAD_CAP"
      "take 8 q = be_bytes 8 offset"
    and Q: "\<And>w'. avail w' = rest \<Longrightarrow> unmoved w w' \<Longrightarrow> faults w' = [] \<Longrightarrow> allocs w' = allocs w \<Longrightarrow> Q (Ok offset) w'"
  shows "wp (andthen rtrv_read_frame put_offset) Q w"
  unfolding wp_andthen
proof (rule wp_read_frame_calm [OF calm reply(1-3)], goal_cases)
  case (1 w1)
  have big: "8 \<le> length q" using arg_cong [OF reply(4), of length] by simp
  then have len: "\<not> len < 8" "len \<noteq> 0" using reply(2) by (auto simp: word_less_nat_alt)
  have "rtrv_get_u64 q 0 = Some offset"
    using big reply(4) u64_field.get_at [of 0 q] by (auto simp: u64_field.enc_inject)
  moreover have "Q (Ok offset) (w1\<lparr>allocs := allocs w\<rparr>)"
    by (rule Q) (use 1 in \<open>simp_all add: unmoved_def\<close>)
  ultimately show ?case
    using 1 len by (simp add: put_offset_def wp_simps frame_types)
qed

lemma wp_put_verdict_calm:
  assumes calm: "faults w = []"
    and reply: "avail w = frame_header RTRV_T_OK len @ q @ rest" "length q = unat len" "unat len \<le> RTRV_PAYLOAD_CAP"
    and Q: "\<And>w'. avail w' = rest \<Longrightarrow> fs w' = fs w \<Longrightarrow> tx w' = tx w \<Longrightarrow> open_files w' = open_files w \<Longrightarrow>
      allocs w' = allocs w \<Longrightarrow> out w' = out w @ [Uploaded p n name] \<Longrightarrow> faults w' = [] \<Longrightarrow> tx_plan w' = tx_plan w \<Longrightarrow>
      Q (Ok ()) w'"
  shows "wp (put_verdict p n name) Q w"
  unfolding put_verdict_def wp_andthen [of rtrv_read_frame]
proof (rule wp_read_frame_calm [OF calm reply], goal_cases)
  case (1 w1)
  have "Q (Ok ()) (w1\<lparr>allocs := allocs w, out := out w1 @ [Uploaded p n name]\<rparr>)"
    by (rule Q) (use 1 in \<open>simp_all add: unmoved_def\<close>)
  then show ?case
    using 1(4) by (simp add: frame_types wp_andthen wp_free_payload [where n = "allocs w"] wp_simps)
qed

lemma wp_put_send_calm:
  assumes calm: "faults w = []" "TxErr \<notin> set (tx_plan w)"
    and held: "node_at (fs w) p = Some (File c)" "length c < 2 ^ 64"
    and n: "n = word_of_nat (length c)" "offset \<le> n"
    and reply: "avail w = frame_header RTRV_T_OK len @ q @ rest" "length q = unat len" "unat len \<le> RTRV_PAYLOAD_CAP"
    and Q: "\<And>w'. avail w' = rest \<Longrightarrow> fs w' = fs w \<Longrightarrow> tx w' = tx w @ drop (unat offset) c \<Longrightarrow>
      open_files w' = open_files w \<Longrightarrow> allocs w' = allocs w \<Longrightarrow> Uploaded p n name \<in> set (out w') \<Longrightarrow>
      faults w' = [] \<Longrightarrow> TxErr \<notin> set (tx_plan w') \<Longrightarrow> Q (Ok ()) w'"
  shows "wp (put_send p name n offset) Q w"
proof -
  let ?h = "\<lparr>if_path = resolve p, if_pos = unat offset, if_error = False\<rparr>"
  have un: "unat n = length c" "unat (n - offset) = length c - unat offset"
    using n held(2) by (simp_all add: unat_sub unat_of_nat)
  have stream: "wp (andthen (put_body_loop p ?h (replicate 65536 0) (n - offset)) (\<lambda>file.
      andthen (fclose_in file) (\<lambda>_. put_verdict p n name))) Q w1"
    if w1: "faults w1 = []" "tx_plan w1 = tx_plan w" "fs w1 = fs w" "tx w1 = tx w" "avail w1 = avail w"
      "allocs w1 = allocs w" "open_files w1 = Suc (open_files w)" for w1
    unfolding wp_andthen [of "put_body_loop p ?h (replicate 65536 0) (n - offset)"]
  proof (rule wp_put_body_loop [OF _ w1(7) refl], goal_cases)
    case (2 w2 h)
    have "wp (put_verdict p n name) Q (w2\<lparr>open_files := open_files w\<rparr>)"
      by (rule wp_put_verdict_calm [OF _ _ reply(2,3)])
        (use 2 w1 un calm(2) reply(1) node_at_File [OF held(1)] in \<open>auto simp: sending_def avail_def intro!: Q\<close>)
    then show ?case using 2 by (simp add: wp_simps)
  next
    case (3 w2 k)
    then show ?case using calm w1 un node_at_File [OF held(1)] by simp
  qed simp
  show ?thesis
    using calm held(1) n(2) stream [of "w\<lparr>open_files := Suc (open_files w)\<rparr>"]
      stream [of "w\<lparr>out := out w @ [ResumingUpload offset], open_files := Suc (open_files w)\<rparr>"]
    by (cases "0 < offset") (auto simp: put_send_def wp_simps undisturbed)
qed

lemma wp_do_put_calm:
  fixes offset :: u64
  assumes calm: "faults w = []" "TxErr \<notin> set (tx_plan w)"
    and held: "node_at (fs w) p = Some (File c)" "length c < 2 ^ 64" and name: "length name \<le> 255"
    and offset: "take 8 q1 = be_bytes 8 offset" "offset \<le> word_of_nat (length c)"
    and reply: "avail w = frame_header RTRV_T_OK l1 @ q1 @ frame_header RTRV_T_OK l2 @ q2 @ rest"
      "length q1 = unat l1" "unat l1 \<le> RTRV_PAYLOAD_CAP" "length q2 = unat l2" "unat l2 \<le> RTRV_PAYLOAD_CAP"
    and Q: "\<And>w'. avail w' = rest \<Longrightarrow> fs w' = fs w \<Longrightarrow> tx w' = tx w @ put_frame c name @ drop (unat offset) c \<Longrightarrow>
      open_files w' = open_files w \<Longrightarrow> allocs w' = allocs w \<Longrightarrow>
      Uploaded p (word_of_nat (length c)) name \<in> set (out w') \<Longrightarrow> faults w' = [] \<Longrightarrow> TxErr \<notin> set (tx_plan w') \<Longrightarrow>
      Q (Ok ()) w'"
  shows "wp (rtrv_do_put p name) Q w"
proof -
  let ?n = "word_of_nat (length c) :: u64"
  have "wp (put_exchange p name ?n (sha256 c)) Q w"
    unfolding put_exchange_def wp_andthen [of "send_put _ _ _"]
  proof (rule wp_send_put [OF name], goal_cases)
    case (1 q)
    show ?case
      unfolding outcome.case wp_andthen [of "andthen rtrv_read_frame put_offset"]
    proof (rule wp_put_reply_calm [OF _ _ reply(2,3) offset(1),
          where rest = "frame_header RTRV_T_OK l2 @ q2 @ rest"], goal_cases)
      case (3 w1)
      show ?case
        unfolding outcome.case
        by (rule wp_put_send_calm [OF _ _ _ held(2) refl offset(2) _ reply(4,5), where rest = rest])
          (use 1 3 calm held in \<open>auto simp: unmoved_def intro!: Q\<close>)
    qed (use calm reply(1) in simp_all)
  next
    case (2 k q)
    then show ?case using calm by simp
  qed
  then show ?thesis
    using calm held(1) name
    by (simp add: do_put_eq wp_simps undisturbed RTRV_MAX_NAME_def)
qed

end
