(* ===== verification/Rtrv_Server_Run.thy ===== *)
theory Rtrv_Server_Run
  imports Rtrv_Server Rtrv_Put
begin

text \<open>
  What the server does when one session runs undisturbed: reads refine taking the next bytes of the
  stream, frames are those of the C client, a GET is answered with the file and a PUT publishes it.
\<close>

section \<open>Runs of composed programs\<close>

named_theorems run_simps "runs of composed programs"

lemma run_bind [run_simps]:
  "run (bind p f) w =
     (case run p w of
        None \<Rightarrow> None
      | Some (Inl e, w') \<Rightarrow> Some (Inl e, w')
      | Some (Inr x, w') \<Rightarrow> run (f x) w')"
  by (induction p arbitrary: w) (auto split: option.splits)

lemma run_catch [run_simps]:
  "run (catch p h) w =
     (case run p w of
        None \<Rightarrow> None
      | Some (Inl e, w') \<Rightarrow> run (h e) w'
      | Some (Inr x, w') \<Rightarrow> Some (Inr x, w'))"
  by (induction p arbitrary: w) (auto split: option.splits)

lemma run_finally [run_simps]:
  "run (finally_do p q) w =
     (case run p w of
        None \<Rightarrow> None
      | Some (r, w') \<Rightarrow>
          (case run q w' of None \<Rightarrow> None | Some (Inl e, w'') \<Rightarrow> Some (Inl e, w'') | Some (Inr _, w'') \<Rightarrow> Some (r, w'')))"
  by (induction p arbitrary: w) (auto simp: run_simps split: option.splits sum.splits)

lemma run_call [run_simps]:
  "run (call a f) w =
     (case calm_step a w of
        None \<Rightarrow> None
      | Some (r, w') \<Rightarrow> Some (case r of Err e \<Rightarrow> Inl e | _ \<Rightarrow> Inr (f r), w'))"
  by (auto simp: call_def split: option.splits answer.splits)

lemma attempt_call_Fine [simp]: "attempt_call es Fine S r = Some r"
  by (simp add: attempt_call_def)

section \<open>Integers\<close>

lemma from_bytes_snoc: "from_bytes (bs @ [b]) = from_bytes bs * 256 + unat b"
  by (simp add: from_bytes_def)

lemma from_bytes_less: "from_bytes bs < 256 ^ length bs"
proof (induction bs rule: rev_induct)
  case (snoc b bs)
  then show ?case using unsigned_less [of b, where 'a = nat] by (simp add: from_bytes_snoc)
qed (simp add: from_bytes_def)

lemma unat_be_val:
  assumes "8 * length bs \<le> LENGTH('a::len)"
  shows "unat (be_val bs :: 'a word) = from_bytes bs"
  using assms
proof (induction bs rule: rev_induct)
  case Nil
  then show ?case by (simp add: be_val_def from_bytes_def)
next
  case (snoc b bs)
  let ?v = "be_val bs :: 'a word"
  have IH: "unat ?v = from_bytes bs" using snoc by simp
  have disj: "push_bit 8 ?v AND ucast b = 0"
    by (rule bit_word_eqI) (auto simp: bit_simps dest: bit_imp_le_length)
  have small: "from_bytes (bs @ [b]) < 2 ^ LENGTH('a)"
  proof -
    have "from_bytes (bs @ [b]) < 2 ^ (8 * length (bs @ [b]))"
      using from_bytes_less [of "bs @ [b]"] by (simp add: power_add power_mult)
    also have "\<dots> \<le> 2 ^ LENGTH('a)" using snoc.prems by (intro power_increasing) simp_all
    finally show ?thesis .
  qed
  have "be_val (bs @ [b]) = push_bit 8 ?v + (ucast b :: 'a word)"
    using disj by (simp add: be_val_def disjunctive_add_eq_or)
  also have "\<dots> = word_of_nat (from_bytes (bs @ [b]))"
    by (simp add: from_bytes_snoc push_bit_eq_mult flip: IH)
  finally show ?case using small by (simp add: unat_of_nat)
qed

lemma from_bytes_be [simp]: "8 * k = LENGTH('a::len) \<Longrightarrow> from_bytes (be_bytes k (v :: 'a word)) = unat v"
  using unat_be_val [of "be_bytes k v", where 'a = 'a] by (simp add: be_val_be_bytes)

lemma int_bytes_be:
  assumes "8 * k = LENGTH('a::len)" and "v < 2 ^ LENGTH('a)"
  shows "int_bytes k v = be_bytes k (word_of_nat v :: 'a word)"
proof (rule nth_equalityI)
  fix i
  assume "i < length (int_bytes k v)"
  then have i: "i < k" by (simp add: int_bytes_def)
  have "unat (int_bytes k v ! i) = unat (be_bytes k (word_of_nat v :: 'a word) ! i)"
    using i assms(2) by (simp add: unat_be_bytes_nth unat_of_nat) (simp add: int_bytes_def unat_of_nat)
  then show "int_bytes k v ! i = be_bytes k (word_of_nat v :: 'a word) ! i" by (simp add: word_unat_eq_iff)
qed (simp add: int_bytes_def)

lemma run_to_bytes_8 [run_simps]:
  "v < 2 ^ 64 \<Longrightarrow> run (to_bytes 8 v) w = Some (Inr (be_bytes 8 (word_of_nat v :: u64)), w)"
  using int_bytes_be [where 'a = 64, of 8 v] by (simp add: to_bytes_def)

section \<open>Reading\<close>

text \<open>What is left of the pieces when \<open>n\<close> bytes have been taken.\<close>

fun unread :: "nat \<Rightarrow> bytes list \<Rightarrow> bytes list" where
  "unread n [] = []"
| "unread n (b # bs) = (if n = 0 then b # bs else if length b \<le> n then unread (n - length b) bs else drop n b # bs)"

lemma concat_unread [simp]: "concat (unread n ib) = drop n (concat ib)"
  by (induction n ib rule: unread.induct) auto

lemma unread_pieces [simp]: "[] \<notin> set ib \<Longrightarrow> [] \<notin> set (unread n ib)"
  by (induction n ib rule: unread.induct) auto

lemma unread_0 [simp]: "unread 0 ib = ib"
  by (cases ib) auto

lemma unread_unread [simp]: "unread m (unread n ib) = unread (n + m) ib"
  by (induction n ib rule: unread.induct) (auto simp: add.commute)

lemma run_recv:
  assumes "[] \<notin> set (inbox w)" and "0 < n"
  shows "\<exists>chunk. run (call (Recv n) data) w = Some (Inr chunk, w\<lparr>inbox := unread (length chunk) (inbox w)\<rparr>) \<and>
    length chunk \<le> n \<and> (\<exists>s. concat (inbox w) = chunk @ s) \<and> (chunk = [] \<longleftrightarrow> concat (inbox w) = [])"
proof (cases "inbox w")
  case (Cons b bs)
  then have "b \<noteq> []" using assms by auto
  moreover have "concat (inbox w) = take n b @ drop n b @ concat bs" using Cons by simp
  moreover have "unread (length (take n b)) (inbox w) = (if length b \<le> n then bs else drop n b # bs)"
    using Cons \<open>b \<noteq> []\<close> assms(2) by (auto simp: min_def)
  ultimately show ?thesis using Cons assms(2)
    by (intro exI [of _ "take n b"]) (auto simp: run_simps simp del: unread.simps concat.simps)
qed (simp add: run_simps)

lemma run_read_exact_more:
  assumes "[] \<notin> set (inbox w)" and "length acc \<le> n"
  shows "run (read_exact_more n acc) w =
    (if n - length acc \<le> length (concat (inbox w))
     then Some (Inr (acc @ take (n - length acc) (concat (inbox w))), w\<lparr>inbox := unread (n - length acc) (inbox w)\<rparr>)
     else Some (Inl ConnectionErr, w\<lparr>inbox := []\<rparr>))"
  using assms
proof (induction n acc arbitrary: w rule: read_exact_more.induct)
  case (1 n acc)
  show ?case
  proof (cases "length acc < n")
    case False
    then show ?thesis using 1(3) by (subst read_exact_more.simps) simp
  next
    case True
    then obtain chunk s where chunk: "run (call (Recv (n - length acc)) data) w =
        Some (Inr chunk, w\<lparr>inbox := unread (length chunk) (inbox w)\<rparr>)" "length chunk \<le> n - length acc"
        "concat (inbox w) = chunk @ s" "chunk = [] \<longleftrightarrow> concat (inbox w) = []"
      using run_recv [OF 1(2), of "n - length acc"] by auto
    show ?thesis
    proof (cases "chunk = []")
      case True
      then have "inbox w = []" using chunk(4) 1(2) by (cases "inbox w") auto
      then show ?thesis using True chunk(1) \<open>length acc < n\<close>
        by (subst read_exact_more.simps) (simp add: run_simps)
    next
      case False
      have "run (read_exact_more n acc) w =
          run (read_exact_more n (acc @ chunk)) (w\<lparr>inbox := unread (length chunk) (inbox w)\<rparr>)"
        using False chunk(1) True by (subst read_exact_more.simps) (simp add: run_simps)
      then show ?thesis
        using 1(1) [OF True False, of "w\<lparr>inbox := unread (length chunk) (inbox w)\<rparr>"] chunk(2) 1(2) True
        by (simp add: chunk(3) le_diff_conv)
    qed
  qed
qed

lemma run_read_exact [run_simps]:
  "[] \<notin> set (inbox w) \<Longrightarrow> run (read_exact_bytes n) w =
    (if n \<le> length (concat (inbox w))
     then Some (Inr (take n (concat (inbox w))), w\<lparr>inbox := unread n (inbox w)\<rparr>)
     else Some (Inl ConnectionErr, w\<lparr>inbox := []\<rparr>))"
  using run_read_exact_more [of w "[]" n] by (simp add: read_exact_bytes_def)

section \<open>Frames\<close>

text \<open>The constants of the two implementations agree.\<close>

lemma same_wire:
  "MAGIC = RTRV_MAGIC" "VERSION = RTRV_VERSION" "T_LIST = RTRV_T_LIST" "T_GET = RTRV_T_GET" "T_PUT = RTRV_T_PUT"
  "T_HELLO = RTRV_T_HELLO" "T_QUIT = RTRV_T_QUIT" "T_OK = RTRV_T_OK" "T_ERROR = RTRV_T_ERROR"
  by (simp_all add: MAGIC_def RTRV_MAGIC_def VERSION_def RTRV_VERSION_def T_LIST_def RTRV_T_LIST_def T_GET_def
      RTRV_T_GET_def T_PUT_def RTRV_T_PUT_def T_HELLO_def RTRV_T_HELLO_def T_QUIT_def RTRV_T_QUIT_def T_OK_def
      RTRV_T_OK_def T_ERROR_def RTRV_T_ERROR_def)

lemma same_reasons:
  "E_BAD_NAME = RTRV_E_BAD_NAME" "E_NOT_FOUND = RTRV_E_NOT_FOUND" "E_ALREADY_EXISTS = RTRV_E_ALREADY_EXISTS"
  "E_MALFORMED = RTRV_E_MALFORMED" "E_UNSUPPORTED_VERSION = RTRV_E_UNSUPPORTED_VERSION" "E_INTERNAL = RTRV_E_INTERNAL"
  "E_TOO_LARGE = RTRV_E_TOO_LARGE" "E_CORRUPT = RTRV_E_CORRUPT"
  by (simp_all add: error_codes E_BAD_NAME_def E_NOT_FOUND_def E_ALREADY_EXISTS_def E_MALFORMED_def E_UNSUPPORTED_VERSION_def
      E_INTERNAL_def E_TOO_LARGE_def E_CORRUPT_def)

lemma run_write_frame_header [run_simps]:
  "n < 2 ^ 64 \<Longrightarrow> run (write_frame_header ty n) w =
     Some (Inr (), w\<lparr>sent := sent w @ frame_header ty (word_of_nat n)\<rparr>)"
  by (simp add: write_frame_header_def run_simps same_wire frame_header_def)

lemma run_write_frame [run_simps]:
  "length p < 2 ^ 64 \<Longrightarrow> run (write_frame ty p) w = Some (Inr (), w\<lparr>sent := sent w @ frame ty p\<rparr>)"
  by (simp add: write_frame_def run_simps same_wire frame_header_def frame_def)

lemma run_read_frame:
  assumes "[] \<notin> set (inbox w)" and "concat (inbox w) = frame ty p @ rest"
    and "PAYLOAD_CAPS ty = Some cap" and "length p \<le> cap" and "cap < 2 ^ 64"
  shows "run read_frame w = Some (Inr (ty, p), w\<lparr>inbox := unread (14 + length p) (inbox w)\<rparr>)"
proof -
  have "unat (word_of_nat (length p) :: u64) = length p" using assms(4,5) by (simp add: unat_of_nat)
  then show ?thesis
    using assms
    by (simp add: read_frame_def read_frame_header_def run_simps HEADER_SIZE_def frame_def frame_header_def
        same_wire RTRV_MAGIC_def nth_append)
qed

section \<open>Names\<close>

lemma run_parse_name:
  assumes "check_filename name"
  shows "run (parse_name (be_bytes 2 (word_of_nat (length name) :: u16) @ encode name)) w = Some (Inr (name, []), w)"
  using check_filename_props [OF assms]
  by (simp add: parse_name_def unat_of_nat Let_def)

section \<open>GET\<close>

lemma run_send_file_loop:
  assumes "remaining \<le> length (inode (disk w) f) - pos"
  shows "run (send_file_loop f pos remaining) w =
    Some (Inr (), w\<lparr>sent := sent w @ take remaining (drop pos (inode (disk w) f))\<rparr>)"
  using assms
proof (induction f pos remaining arbitrary: w rule: send_file_loop.induct)
  case (1 f pos remaining)
  define chunk where "chunk = take (min 65536 remaining) (drop pos (inode (disk w) f))"
  show ?case
  proof (cases "remaining > 0")
    case True
    then have len: "length chunk = min 65536 remaining" "chunk \<noteq> []" using 1(2) by (auto simp: chunk_def)
    have "run (send_file_loop f pos remaining) w =
        run (send_file_loop f (pos + length chunk) (remaining - length chunk)) (w\<lparr>sent := sent w @ chunk\<rparr>)"
      using True len(2) by (subst send_file_loop.simps) (simp add: run_simps flip: chunk_def)
    also have "\<dots> = Some (Inr (), w\<lparr>sent := (sent w @ chunk) @
        take (remaining - length chunk) (drop (pos + length chunk) (inode (disk w) f))\<rparr>)"
      using 1(1) [OF True len(2), of "w\<lparr>sent := sent w @ chunk\<rparr>"] 1(2) len(1) by simp
    also have "(sent w @ chunk) @ take (remaining - length chunk) (drop (pos + length chunk) (inode (disk w) f))
        = sent w @ take remaining (drop pos (inode (disk w) f))"
      using take_add [of "length chunk" "remaining - length chunk" "drop pos (inode (disk w) f)"] len(1)
      by (simp add: chunk_def add.commute)
    finally show ?thesis .
  next
    case False
    then show ?thesis by (subst send_file_loop.simps) simp
  qed
qed

text \<open>The answer to a GET for a file that is there: the offset counts only with the right token.\<close>

definition get_answer :: "bytes \<Rightarrow> nat \<Rightarrow> bytes \<Rightarrow> bytes" where
  "get_answer c offset token =
     (let start = (if offset \<noteq> 0 \<and> token = take 8 (sha256 c) then offset else 0)
      in frame_header RTRV_T_OK (word_of_nat (48 + (length c - start))) @
         get_meta (word_of_nat (length c)) (word_of_nat start) (sha256 c) @ drop start c)"

lemma run_handle_get:
  assumes name: "check_filename name" and stored: "file_of (disk w) name = Some c"
    and offset: "unat offset \<le> length c" and size: "length c + 48 < 2 ^ 64" and token: "length token = 8"
  shows "run (handle_get (get_request offset token name)) w =
    Some (Inr (), w\<lparr>sent := sent w @ get_answer c (unat offset) token\<rparr>)"
proof -
  obtain i where i: "entry (disk w) name = Some (Ino i)" "inode (disk w) i = c"
    using stored by (auto simp: file_of_def split: option.splits dirent.splits)
  define start where "start = (if unat offset \<noteq> 0 \<and> token = take 8 (sha256 c) then unat offset else 0)"
  have start: "start \<le> length c" using offset by (simp add: start_def)
  have p: "length (get_request offset token name) = 18 + length name"
    "take 8 (get_request offset token name) = be_bytes 8 offset"
    "take 8 (drop 8 (get_request offset token name)) = token"
    "drop 16 (get_request offset token name) = be_bytes 2 (word_of_nat (length name) :: u16) @ encode name"
    using token by (simp_all add: get_request_def)
  show ?thesis
    using assms i start size unfolding handle_get_def p Let_def TOKEN_SIZE_def start_def [symmetric]
    by (simp add: GET_PREFIX_def TOKEN_SIZE_def run_simps run_parse_name run_send_file_loop
        GET_META_def HASH_SIZE_def same_wire get_answer_def get_meta_def Let_def start_def [symmetric] add_diff_eq cong: if_cong)
qed

section \<open>PUT\<close>

lemma run_upload_loop:
  assumes "[] \<notin> set (inbox w)" and "fsize - written \<le> length (concat (inbox w))"
  shows "run (upload_loop f written fsize) w =
    Some (Inr (), w\<lparr>inbox := unread (fsize - written) (inbox w),
      disk := (disk w)\<lparr>inode := (inode (disk w))(f := inode (disk w) f @ take (fsize - written) (concat (inbox w)))\<rparr>\<rparr>)"
  using assms
proof (induction f written fsize arbitrary: w rule: upload_loop.induct)
  case (1 f written fsize)
  show ?case
  proof (cases "written < fsize")
    case False
    then show ?thesis by (subst upload_loop.simps) simp
  next
    case True
    then obtain chunk s where chunk: "run (call (Recv (min 65536 (fsize - written))) data) w =
        Some (Inr chunk, w\<lparr>inbox := unread (length chunk) (inbox w)\<rparr>)" "length chunk \<le> fsize - written"
        "concat (inbox w) = chunk @ s" "chunk \<noteq> []"
      using run_recv [OF 1(2), of "min 65536 (fsize - written)"] 1(3) by fastforce
    let ?w = "w\<lparr>inbox := unread (length chunk) (inbox w),
      disk := (disk w)\<lparr>inode := (inode (disk w))(f := inode (disk w) f @ chunk)\<rparr>\<rparr>"
    have "run (upload_loop f written fsize) w = run (upload_loop f (written + length chunk) fsize) ?w"
      using True chunk(1,4) by (subst upload_loop.simps) (simp add: run_simps)
    moreover have "length chunk + (fsize - (written + length chunk)) = fsize - written" using chunk(2) by simp
    ultimately show ?thesis
      using 1(1) [OF True chunk(4), of ?w] chunk(2) 1(2,3) 
      by (simp add: chunk(3) le_diff_conv del: fun_upd_apply add: fun_upd_same)
  qed
qed

text \<open>The directory with a partial that is sure to be there.\<close>

definition opened :: "shared \<Rightarrow> string \<Rightarrow> shared" where
  "opened S p =
     (if entry S p = None
      then S\<lparr>dirents := dirents S @ [(p, Ino (next_ino S))], inode := (inode S)(next_ino S := []),
             next_ino := Suc (next_ino S)\<rparr>
      else S)"

lemma run_publish:
  assumes "entry (disk w) p = Some (Ino i)" and "sha256 (inode (disk w) i) = digest" and "entry (disk w) name = None"
  shows "run (publish_upload name p digest) w = Some (Inr (), w\<lparr>sent := sent w @ frame RTRV_T_OK [],
    disk := (disk w)\<lparr>dirents := AList.delete p (dirents (disk w) @ [(name, Ino i)])\<rparr>\<rparr>)"
  using assms by (simp add: publish_upload_def run_simps file_of_def entry_add same_wire)

definition part_ino :: "shared \<Rightarrow> string \<Rightarrow> nat" where
  "part_ino S p = (case entry S p of Some (Ino i) \<Rightarrow> i | _ \<Rightarrow> next_ino S)"

text \<open>The directory after an upload: the partial filled, linked to its name and removed.\<close>

definition uploaded :: "shared \<Rightarrow> string \<Rightarrow> string \<Rightarrow> bytes \<Rightarrow> shared" where
  "uploaded S p name c =
     (opened S p)\<lparr>inode := (inode (opened S p))(part_ino S p := c),
       dirents := AList.delete p (dirents (opened S p) @ [(name, Ino (part_ino S p))])\<rparr>"

lemma entry_opened: "entry (opened S p) q = (if q = p \<and> entry S p = None then Some (Ino (next_ino S)) else entry S q)"
  by (auto simp: opened_def entry_def map_add_def split: option.splits)

lemma entry_uploaded:
  assumes "p \<noteq> ''.''" and "name \<noteq> p" and "entry S name = None"
  shows "entry (uploaded S p name c) q = (if q = p then None else if q = name then Some (Ino (part_ino S p)) else entry S q)"
  using assms by (auto simp: uploaded_def opened_def entry_def map_add_def delete_conv' split: option.splits)

lemma uploaded_files:
  assumes "tidy S" and "p \<noteq> ''.''" and "name \<noteq> p" and "entry S name = None" and "\<And>n. entry S p \<noteq> Some (Subdir n)"
  shows "file_of (uploaded S p name c) name = Some c" "file_of (uploaded S p name c) p = None"
    "q \<noteq> name \<Longrightarrow> q \<noteq> p \<Longrightarrow> file_of (uploaded S p name c) q = file_of S q" "tidy (uploaded S p name c)"
proof -
  note e = entry_uploaded [OF assms(2-4)]
  have ino: "inode (uploaded S p name c) = (inode (opened S p))(part_ino S p := c)"
    "next_ino (uploaded S p name c) = next_ino (opened S p)"
    by (simp_all add: uploaded_def)
  show "file_of (uploaded S p name c) name = Some c" "file_of (uploaded S p name c) p = None"
    using assms(3) by (simp_all add: file_of_def e ino)
  have other: "i \<noteq> part_ino S p \<and> i < next_ino S" if "entry S q = Some (Ino i)" "q \<noteq> p" for q i
    using assms(1) that by (auto simp: tidy_def part_ino_def split: option.splits dirent.splits)
  show "q \<noteq> name \<Longrightarrow> q \<noteq> p \<Longrightarrow> file_of (uploaded S p name c) q = file_of S q"
    using other [of q] by (auto simp: file_of_def e ino opened_def split: option.splits dirent.splits)
  have "part_ino S p < next_ino (opened S p)"
    using assms(1,5) by (auto simp: part_ino_def opened_def tidy_def split: option.splits dirent.splits)
  then show "tidy (uploaded S p name c)"
    using assms(1) other by (auto simp: tidy_def e ino opened_def split: if_splits intro: less_SucI)
qed

lemma run_receive_upload:
  assumes pieces: "[] \<notin> set (inbox w)" "concat (inbox w) = drop m c @ rest"
    and part: "entry (disk w) p = None \<and> m = 0 \<or> file_of (disk w) p = Some (take m c)" "m \<le> length c"
    and free: "entry (disk w) name = None" "name \<noteq> p" and small: "length c < 2 ^ 64"
  shows "run (receive_upload name p (length c) (sha256 c)) w = Some (Inr (), w\<lparr>inbox := unread (length c - m) (inbox w),
    sent := sent w @ frame RTRV_T_OK (be_bytes 8 (word_of_nat m :: u64)) @ frame RTRV_T_OK [],
    disk := uploaded (disk w) p name c\<rparr>)"
proof -
  let ?S = "disk w" and ?i = "part_ino (disk w) p"
  let ?w = "w\<lparr>sent := sent w @ frame RTRV_T_OK (be_bytes 8 (word_of_nat m :: u64)), disk := opened ?S p\<rparr>"
  have len: "(case entry ?S p of Some (Ino i) \<Rightarrow> length (inode ?S i) | _ \<Rightarrow> 0) = m"
    and held: "inode (opened ?S p) ?i = take m c"
    and new: "entry (opened ?S p) p = Some (Ino ?i)" "entry (opened ?S p) name = None"
    using part free by (auto simp: opened_def file_of_def part_ino_def entry_opened entry_add split: option.splits dirent.splits)
  have "run (receive_upload name p (length c) (sha256 c)) w =
      run (bind (finally_do (upload_loop ?i m (length c)) (perform_call (Close ?i))) (\<lambda>_. publish_upload name p (sha256 c))) ?w"
  proof (cases "entry ?S p")
    case None
    then show ?thesis
      using part by (simp add: receive_upload_def run_simps same_wire opened_def part_ino_def file_of_def)
  next
    case (Some d)
    then obtain i where "d = Ino i" "length (inode ?S i) = m"
      using part by (auto simp: file_of_def split: dirent.splits)
    with Some show ?thesis
      using part(2) small by (simp add: receive_upload_def run_simps same_wire opened_def part_ino_def)
  qed
  also have "\<dots> = run (publish_upload name p (sha256 c)) (?w\<lparr>inbox := unread (length c - m) (inbox w),
      disk := (opened ?S p)\<lparr>inode := (inode (opened ?S p))(?i := c)\<rparr>\<rparr>)"
    using pieces part(2) held by (simp add: run_simps run_upload_loop)
  also have "\<dots> = Some (Inr (), w\<lparr>inbox := unread (length c - m) (inbox w),
    sent := sent w @ frame RTRV_T_OK (be_bytes 8 (word_of_nat m :: u64)) @ frame RTRV_T_OK [],
    disk := uploaded (disk w) p name c\<rparr>)"
    using new by (subst run_publish [where i = ?i]) (simp_all add: uploaded_def)
  finally show ?thesis .
qed

lemma run_handle_put:
  assumes name: "check_filename name" and p: "p = partial_name name (sha256 c)"
    and pieces: "[] \<notin> set (inbox w)" "concat (inbox w) = drop m c @ rest"
    and part: "entry (disk w) p = None \<and> m = 0 \<or> file_of (disk w) p = Some (take m c)" "m \<le> length c"
    and free: "entry (disk w) name = None" "p \<notin> in_flight (disk w)" "lock (disk w) = None"
    and small: "length c \<le> MAX_FILE_SIZE"
  shows "run (handle_put (put_request (word_of_nat (length c)) (sha256 c) name)) w =
    Some (Inr (), w\<lparr>inbox := unread (length c - m) (inbox w),
      sent := sent w @ frame RTRV_T_OK (be_bytes 8 (word_of_nat m :: u64)) @ frame RTRV_T_OK [],
      disk := uploaded (disk w) p name c\<rparr>)"
proof -
  have size: "length c < 2 ^ 64" "unat (word_of_nat (length c) :: u64) = length c"
    using small by (simp_all add: MAX_FILE_SIZE_def unat_of_nat)
  let ?req = "put_request (word_of_nat (length c)) (sha256 c) name"
  have req: "length ?req = 42 + length name" "from_bytes (take 8 ?req) = length c" "take HASH_SIZE (drop 8 ?req) = sha256 c"
    "drop (8 + HASH_SIZE) ?req = be_bytes 2 (word_of_nat (length name) :: u16) @ encode name"
    using size(2) by (simp_all add: put_request_def HASH_SIZE_def)
  have np: "name \<noteq> p" unfolding p partial_name_plain [OF name] by (rule notI, drule arg_cong [where f = length]) simp
  let ?S = "(disk w)\<lparr>in_flight := insert p (in_flight (disk w)), lock := None\<rparr>"
  have up: "(uploaded ?S p name c)\<lparr>in_flight := in_flight (disk w), lock := None\<rparr> = uploaded (disk w) p name c"
    using free(3)
    by (cases "disk w") (auto simp: uploaded_def opened_def part_ino_def entry_def split: option.split dirent.split)
  have "run (receive_upload name p (length c) (sha256 c)) (w\<lparr>disk := ?S\<rparr>) =
      Some (Inr (), w\<lparr>inbox := unread (length c - m) (inbox w),
        sent := sent w @ frame RTRV_T_OK (be_bytes 8 (word_of_nat m :: u64)) @ frame RTRV_T_OK [],
        disk := uploaded ?S p name c\<rparr>)"
    using run_receive_upload [of "w\<lparr>disk := ?S\<rparr>" m c rest p name] pieces part free(1) np size(1)
    by (simp add: file_of_def cong: option.case_cong dirent.case_cong)
  moreover have "in_flight (uploaded ?S p name c) - {p} = in_flight (disk w)" "lock (uploaded ?S p name c) = None"
    using free by (simp_all add: uploaded_def opened_def)
  ultimately have "run (handle_put ?req) w =
      Some (Inr (), w\<lparr>inbox := unread (length c - m) (inbox w),
        sent := sent w @ frame RTRV_T_OK (be_bytes 8 (word_of_nat m :: u64)) @ frame RTRV_T_OK [],
        disk := (uploaded ?S p name c)\<lparr>in_flight := in_flight (disk w), lock := None\<rparr>\<rparr>)"
    using name free small
    unfolding handle_put_def req Let_def p [symmetric] admit_upload_def with_lock_def
    by (simp add: run_simps run_parse_name PUT_PREFIX_def HASH_SIZE_def flip: p)
  then show ?thesis unfolding up .
qed

section \<open>Frames within their limits\<close>

text \<open>The fields of a header that the server accepts.\<close>

lemma header_parts:
  assumes "length h = 14"
  obtains v :: u64 where "unat v = from_bytes (take 8 (drop 6 h))"
    and "\<And>ty l. h = frame_header ty l \<longleftrightarrow> take 4 h = MAGIC \<and> h ! 4 = VERSION \<and> h ! 5 = ty \<and> v = l"
proof -
  obtain v where v: "rtrv_get_u64 h 6 = Some v" "unat v = from_bytes (take 8 (drop 6 h))"
    using assms by (simp add: rtrv_get_u64_eq unat_be_val)
  then show ?thesis using that [of v] frame_header_iff [OF assms] by (simp add: same_wire)
qed

text \<open>A whole frame within the limit of its type.\<close>

definition frame_within :: "byte \<Rightarrow> bytes \<Rightarrow> bool" where
  "frame_within ty payload \<longleftrightarrow> (\<exists>cap. PAYLOAD_CAPS ty = Some cap \<and> length payload \<le> cap)"

lemma caps_bound: "PAYLOAD_CAPS ty = Some cap \<Longrightarrow> cap \<le> 65536"
  by (auto simp: PAYLOAD_CAPS_def split: if_splits)

lemma frame_unique:
  assumes "frame t p @ s = frame t' p' @ s'" and "frame_within t p" and "frame_within t' p'"
  shows "t = t' \<and> p = p' \<and> s = s'"
proof -
  have len: "length q < 2 ^ 64" if "frame_within u q" for u q
    using that caps_bound by (fastforce simp: frame_within_def)
  have eq: "t = t'" "(word_of_nat (length p) :: u64) = word_of_nat (length p')" "p @ s = p' @ s'"
    using assms(1) by (simp_all add: frame_def frame_header_inject)
  then have "length p = length p'" using len [OF assms(2)] len [OF assms(3)] u64_nat by metis
  then show ?thesis using eq by simp
qed


section \<open>One turn of a session\<close>

lemma unread_all: "[] \<notin> set ib \<Longrightarrow> length (concat ib) \<le> n \<Longrightarrow> unread n ib = []"
  using concat_unread [of n ib] unread_pieces [of ib n] by (cases "unread n ib") auto

lemma caps: "PAYLOAD_CAPS RTRV_T_GET = Some 65536" "PAYLOAD_CAPS RTRV_T_PUT = Some 65536"
  by (simp_all add: PAYLOAD_CAPS_def same_wire flip: same_wire)
    (simp_all add: T_HELLO_def T_QUIT_def T_LIST_def T_GET_def T_PUT_def)

lemma run_turn_get:
  assumes pieces: "[] \<notin> set (inbox w)" "concat (inbox w) = frame RTRV_T_GET (get_request offset token name) @ rest"
    and name: "check_filename name" and stored: "file_of (disk w) name = Some c"
    and sizes: "unat offset \<le> length c" "length c + 48 < 2 ^ 64" "length token = 8"
  shows "run session_turn w = Some (Inr True, w\<lparr>inbox := unread (32 + length name) (inbox w),
    sent := sent w @ get_answer c (unat offset) token\<rparr>)"
proof -
  have "run read_frame w = Some (Inr (RTRV_T_GET, get_request offset token name),
      w\<lparr>inbox := unread (32 + length name) (inbox w)\<rparr>)"
    using run_read_frame [OF pieces caps(1)] sizes(3) check_filename_props(2) [OF name] by simp
  then show ?thesis
    using run_handle_get [OF name _ sizes, of "w\<lparr>inbox := unread (32 + length name) (inbox w)\<rparr>"] stored
    by (simp add: session_turn_def guarded_def run_simps same_wire)
      (simp add: RTRV_T_GET_def RTRV_T_QUIT_def RTRV_T_LIST_def)
qed

lemma run_turn_put:
  assumes name: "check_filename name" and p: "p = partial_name name (sha256 c)"
    and pieces: "[] \<notin> set (inbox w)"
      "concat (inbox w) = frame RTRV_T_PUT (put_request (word_of_nat (length c)) (sha256 c) name) @ drop m c @ rest"
    and part: "entry (disk w) p = None \<and> m = 0 \<or> file_of (disk w) p = Some (take m c)" "m \<le> length c"
    and free: "entry (disk w) name = None" "p \<notin> in_flight (disk w)" "lock (disk w) = None"
    and small: "length c \<le> MAX_FILE_SIZE"
  shows "run session_turn w = Some (Inr True, w\<lparr>inbox := unread (56 + length name + (length c - m)) (inbox w),
    sent := sent w @ frame RTRV_T_OK (be_bytes 8 (word_of_nat m :: u64)) @ frame RTRV_T_OK [],
    disk := uploaded (disk w) p name c\<rparr>)"
proof -
  let ?w = "w\<lparr>inbox := unread (56 + length name) (inbox w)\<rparr>"
  have rd: "run read_frame w = Some (Inr (RTRV_T_PUT, put_request (word_of_nat (length c)) (sha256 c) name), ?w)"
    using run_read_frame [OF pieces caps(2)] check_filename_props(2) [OF name] by simp
  have "concat (inbox ?w) = drop m c @ rest" using pieces(2) by (simp add: frame_def)
  then show ?thesis
    using rd run_handle_put [OF name p, of ?w m rest] pieces(1) part free small
    by (simp add: session_turn_def guarded_def run_simps same_wire)
      (simp add: RTRV_T_PUT_def RTRV_T_GET_def RTRV_T_QUIT_def RTRV_T_LIST_def)
qed

section \<open>A file in the place of a partial\<close>

lemma run_upload_closed:
  "inbox w = [] \<Longrightarrow> written < n \<Longrightarrow> run (upload_loop f written n) w = Some (Inl ConnectionErr, w)"
  by (subst upload_loop.simps) (simp add: run_simps)

lemma file_of_opened:
  assumes "entry S q = None"
  shows "file_of (opened S q) q = Some []"
proof -
  have "entry (opened S q) q = Some (Ino (next_ino S))" using assms by (simp add: entry_opened)
  moreover have "inode (opened S q) (next_ino S) = []" using assms by (simp add: opened_def)
  ultimately show ?thesis by (simp add: file_of_def)
qed

lemma run_receive_discards:
  assumes stored: "file_of (disk w) q = Some b" "n < length b" "0 < n" and q: "q \<noteq> ''.''" and closed: "inbox w = []"
  shows "\<exists>S. run (receive_upload name q n digest) w =
      Some (Inl ConnectionErr, w\<lparr>sent := sent w @ frame RTRV_T_OK (be_bytes 8 (0 :: u64)), disk := S\<rparr>) \<and>
    file_of S q = Some [] \<and> in_flight S = in_flight (disk w) \<and> lock S = lock (disk w)"
proof -
  obtain i where i: "entry (disk w) q = Some (Ino i)" "inode (disk w) i = b"
    using stored by (auto simp: file_of_def split: option.splits dirent.splits)
  let ?S = "(disk w)\<lparr>dirents := AList.delete q (dirents (disk w))\<rparr>"
  have gone: "entry ?S q = None" using q by (simp add: entry_delete)
  have "run (receive_upload name q n digest) w =
      Some (Inl ConnectionErr, w\<lparr>sent := sent w @ frame RTRV_T_OK (be_bytes 8 (0 :: u64)), disk := opened ?S q\<rparr>)"
    using i stored closed gone
    by (simp add: receive_upload_def run_simps same_wire run_upload_closed opened_def)
  moreover have "in_flight (opened ?S q) = in_flight (disk w)" "lock (opened ?S q) = lock (disk w)"
    by (simp_all add: opened_def)
  ultimately show ?thesis using file_of_opened [OF gone] by blast
qed

lemma run_put_discards:
  assumes name: "check_filename name" and q: "q = partial_name name digest" and digest: "length digest = 32"
    and stored: "file_of (disk w) q = Some b" "unat n < length b" "0 < unat n" "unat n \<le> MAX_FILE_SIZE"
    and free: "entry (disk w) name = None" "q \<notin> in_flight (disk w)" "lock (disk w) = None"
    and closed: "inbox w = []"
  shows "\<exists>w'. run (handle_put (put_request n digest name)) w = Some (Inl ConnectionErr, w') \<and>
    file_of (disk w') q = Some [] \<and> sent w' = sent w @ frame RTRV_T_OK (be_bytes 8 (0 :: u64))"
proof -
  let ?req = "put_request n digest name" and ?w = "w\<lparr>disk := (disk w)\<lparr>in_flight := insert q (in_flight (disk w)), lock := None\<rparr>\<rparr>"
  have req: "length ?req = 42 + length name" "from_bytes (take 8 ?req) = unat n" "take HASH_SIZE (drop 8 ?req) = digest"
    "drop (8 + HASH_SIZE) ?req = be_bytes 2 (word_of_nat (length name) :: u16) @ encode name"
    using digest by (simp_all add: put_request_def HASH_SIZE_def)
  have "q \<noteq> ''.''" unfolding q partial_name_plain [OF name] by simp
  then obtain S where "run (receive_upload name q (unat n) digest) ?w =
      Some (Inl ConnectionErr, ?w\<lparr>sent := sent w @ frame RTRV_T_OK (be_bytes 8 (0 :: u64)), disk := S\<rparr>)"
      "file_of S q = Some []" "lock S = None"
    using run_receive_discards [of ?w q b "unat n" name digest] stored closed by auto
  then show ?thesis
    using name free stored(4)
    unfolding handle_put_def req Let_def q [symmetric] admit_upload_def with_lock_def
    by (simp add: run_simps run_parse_name PUT_PREFIX_def HASH_SIZE_def flip: q)
qed

end
