(* ===== verification/Rtrv_Py_Fields.thy ===== *)
theory Rtrv_Py_Fields
  imports Rtrv_Server_Run
begin

text \<open>
  The functions of \<open>src/retriever/protocol.py\<close> that the programs no longer use for a decision: the integers of
  the first version of the protocol, and the check of an image's first bytes, which only chooses a line
  of the server's log.
\<close>

section \<open>Integers on a socket\<close>

definition send_u8 :: "int \<Rightarrow> unit proc" where
  "send_u8 value =
     (if \<not> (0 \<le> value \<and> value \<le> 255) then Raise OtherErr
      else bind (to_bytes 1 (nat value)) (\<lambda>b. perform_call (SendAll b)))"

definition recv_u8 :: "nat proc" where
  "recv_u8 = bind (read_exact_bytes 1) (\<lambda>b. Return (from_bytes b))"

definition send_u16 :: "int \<Rightarrow> unit proc" where
  "send_u16 value =
     (if \<not> (0 \<le> value \<and> value \<le> 65535) then Raise OtherErr
      else bind (to_bytes 2 (nat value)) (\<lambda>b. perform_call (SendAll b)))"

definition recv_u16 :: "nat proc" where
  "recv_u16 = bind (read_exact_bytes 2) (\<lambda>b. Return (from_bytes b))"

definition send_u64 :: "int \<Rightarrow> unit proc" where
  "send_u64 value =
     (if \<not> (0 \<le> value \<and> value \<le> 18446744073709551615) then Raise OtherErr
      else bind (to_bytes 8 (nat value)) (\<lambda>b. perform_call (SendAll b)))"

definition recv_u64 :: "nat proc" where
  "recv_u64 = bind (read_exact_bytes 8) (\<lambda>b. Return (from_bytes b))"

lemma int_bytes_Suc: "int_bytes (Suc n) v = int_bytes n (v div 256) @ [word_of_nat v]"
  by (simp add: int_bytes_def Suc_diff_Suc flip: div_mult2_eq) (simp add: power_Suc [symmetric] Suc_diff_Suc)

lemma length_int_bytes [simp]: "length (int_bytes n v) = n"
  by (simp add: int_bytes_def)

lemma from_bytes_int: "v < 256 ^ n \<Longrightarrow> from_bytes (int_bytes n v) = v"
proof (induction n arbitrary: v)
  case 0
  then show ?case by (simp add: from_bytes_def int_bytes_def)
next
  case (Suc n)
  then have "v div 256 < 256 ^ n" by (simp add: less_mult_imp_div_less mult.commute)
  then show ?case using Suc.IH by (simp add: int_bytes_Suc from_bytes_snoc unat_of_nat)
qed

text \<open>An integer of \<open>n\<close> bytes: what is sent is read back, whatever the pieces, and nothing else is sent.\<close>

locale wire_int =
  fixes n :: nat and send :: "int \<Rightarrow> unit proc" and recv :: "nat proc"
  assumes send_eq: "send v = (if 0 \<le> v \<and> v < 256 ^ n then bind (to_bytes n (nat v)) (\<lambda>b. perform_call (SendAll b)) else Raise OtherErr)"
    and recv_eq: "recv = bind (read_exact_bytes n) (\<lambda>b. Return (from_bytes b))"
begin

lemma round_trip:
  "if 0 \<le> v \<and> v < 256 ^ n
   then \<exists>bs. run (send v) w = Some (Inr (), w\<lparr>sent := sent w @ bs\<rparr>) \<and> length bs = n \<and>
     (\<forall>w'. [] \<notin> set (inbox w') \<and> concat (inbox w') = bs \<longrightarrow> run recv w' = Some (Inr (nat v), w'\<lparr>inbox := []\<rparr>))
   else run (send v) w = Some (Inl OtherErr, w)"
proof (cases "0 \<le> v \<and> v < 256 ^ n")
  case True
  then have small: "nat v < 256 ^ n" by (simp add: nat_less_iff)
  have "run (send v) w = Some (Inr (), w\<lparr>sent := sent w @ int_bytes n (nat v)\<rparr>)"
    using True small by (simp add: send_eq run_simps to_bytes_def)
  moreover have "run recv w' = Some (Inr (nat v), w'\<lparr>inbox := []\<rparr>)"
    if "[] \<notin> set (inbox w')" "concat (inbox w') = int_bytes n (nat v)" for w'
    using that small unread_all [of "inbox w'" n] by (simp add: recv_eq run_simps from_bytes_int)
  ultimately show ?thesis using True by (auto intro!: exI [of _ "int_bytes n (nat v)"])
next
  case False
  then have "send v = Raise OtherErr" by (auto simp: send_eq)
  then show ?thesis using False by simp
qed

end

interpretation u8_wire: wire_int 1 send_u8 recv_u8
  by unfold_locales (auto simp: send_u8_def recv_u8_def)

interpretation u16_wire: wire_int 2 send_u16 recv_u16
  by unfold_locales (auto simp: send_u16_def recv_u16_def)

interpretation u64_wire: wire_int 8 send_u64 recv_u64
  by unfold_locales (auto simp: send_u64_def recv_u64_def)

section \<open>Images\<close>

text \<open>\<open>name.lower()\<close> for the names that the server accepts, which are ASCII.\<close>

definition ascii_lower :: "char \<Rightarrow> char" where
  "ascii_lower c = (let n = (of_char c :: nat) in if 65 \<le> n \<and> n \<le> 90 then char_of (n + 32) else c)"

definition ends_with :: "string \<Rightarrow> string \<Rightarrow> bool" where
  "ends_with s suffix \<longleftrightarrow> length suffix \<le> length s \<and> drop (length s - length suffix) s = suffix"

definition is_image :: "string \<Rightarrow> bool" where
  "is_image name = (let n = map ascii_lower name in ends_with n ''.jpg'' \<or> ends_with n ''.jpeg'' \<or> ends_with n ''.png'')"

definition is_jpeg_header :: "bytes \<Rightarrow> bool" where
  "is_jpeg_header header \<longleftrightarrow> length header \<ge> 2 \<and> take 2 header = [0xFF, 0xD8]"

definition is_png_header :: "bytes \<Rightarrow> bool" where
  "is_png_header header \<longleftrightarrow> length header \<ge> 8 \<and> take 8 header = [0x89, 0x50, 0x4E, 0x47, 0x0D, 0x0A, 0x1A, 0x0A]"

text \<open>No partial is taken for an image, and no content for both kinds.\<close>

lemma ends_with_last: "ends_with s t \<Longrightarrow> t \<noteq> [] \<Longrightarrow> s \<noteq> [] \<and> last s = last t"
  unfolding ends_with_def by (metis append_take_drop_id last_appendR append_is_Nil_conv)

lemma partial_not_image: "glob_partial p \<Longrightarrow> \<not> is_image p"
proof -
  assume "glob_partial p"
  then have "p \<noteq> [] \<and> last p = CHR ''t''" using ends_with_last [of p "''.part''"] by (simp add: glob_partial_def ends_with_def numeral_eq_Suc)
  then have "last (map ascii_lower p) = CHR ''t''" by (simp add: last_map ascii_lower_def)
  then show ?thesis
    using ends_with_last [of "map ascii_lower p" "''.jpg''"] ends_with_last [of "map ascii_lower p" "''.jpeg''"]
      ends_with_last [of "map ascii_lower p" "''.png''"] by (auto simp: is_image_def Let_def)
qed

lemma one_image_kind: "\<not> (is_jpeg_header h \<and> is_png_header h)"
  by (cases h) (auto simp: is_jpeg_header_def is_png_header_def)

end
