(* ===== verification/Rtrv_Py_World.thy ===== *)
theory Rtrv_Py_World
  imports Rtrv_Server_Run
begin

text \<open>
  Python code that runs in the world of the C client: one connected socket, the local files, the two
  output streams. A computation ends with a value, with an exception, or with \<open>SystemExit\<close>. The
  functions of \<open>protocol.py\<close> that only talk to the socket are those of the server's model, performed
  here on the socket of the world.
\<close>

section \<open>Computations\<close>

text \<open>\<open>sys.exit\<close> passes through every \<open>except\<close> clause of the program; an exception need not.\<close>

datatype stop = Exit nat | Thrown exc

type_synonym 'a py = "world \<Rightarrow> (stop + 'a) \<times> world"

definition py_return :: "'a \<Rightarrow> 'a py" where
  "py_return x w = (Inr x, w)"

definition throw :: "exc \<Rightarrow> 'a py" where
  "throw e w = (Inl (Thrown e), w)"

definition py_bind :: "'a py \<Rightarrow> ('a \<Rightarrow> 'b py) \<Rightarrow> 'b py" where
  "py_bind m f w = (case m w of (Inr x, w') \<Rightarrow> f x w' | (Inl s, w') \<Rightarrow> (Inl s, w'))"

definition py_try :: "'a py \<Rightarrow> (exc \<Rightarrow> 'a py) \<Rightarrow> 'a py" where
  "py_try m h w = (case m w of (Inl (Thrown e), w') \<Rightarrow> h e w' | r \<Rightarrow> r)"

definition py_finally :: "'a py \<Rightarrow> unit py \<Rightarrow> 'a py" where
  "py_finally m q w =
     (case m w of (r, w') \<Rightarrow> (case q w' of (Inr _, w'') \<Rightarrow> (r, w'') | (Inl s, w'') \<Rightarrow> (Inl s, w'')))"

definition py_print :: "msg \<Rightarrow> unit py" where
  "py_print m w = (Inr (), w\<lparr>out := out w @ [m]\<rparr>)"

definition py_warn :: "diag \<Rightarrow> unit py" where
  "py_warn d w = (Inr (), w\<lparr>err := err w @ [d]\<rparr>)"

text \<open>What is known of the files without a call that can fail.\<close>

definition py_ask :: "(filesys \<Rightarrow> 'a) \<Rightarrow> 'a py" where
  "py_ask f w = (Inr (f (fs w)), w)"

text \<open>A call of the operating system. None of those used here has an error return of its own.\<close>

definition lib :: "'a cmd \<Rightarrow> 'a py" where
  "lib m w = (case m w of (Ok x, w') \<Rightarrow> (Inr x, w') | (_, w') \<Rightarrow> (Inl (Thrown OsErr), w'))"

section \<open>The socket\<close>

text \<open>
  An error of the socket is a broken connection, a timeout or another \<open>OSError\<close>; the script of
  failures chooses. \<open>recv\<close> and \<open>sendall\<close> resume after an interruption.
\<close>

definition net_failure :: "world \<Rightarrow> answer \<times> world" where
  "net_failure w =
     (case next_fault w of
        (NoFault, w) \<Rightarrow> (Err ConnectionErr, w)
      | (Fault k, w) \<Rightarrow> (Err (if k = 0 then TimeoutErr else OsErr), w))"

fun recv_from :: "nat \<Rightarrow> rx_event list \<Rightarrow> world \<Rightarrow> answer \<times> world" where
  "recv_from n [] w = (Data [], w\<lparr>rx := []\<rparr>)"
| "recv_from n (RxEintr # r) w = recv_from n r w"
| "recv_from n (RxErr # r) w = net_failure (w\<lparr>rx := r\<rparr>)"
| "recv_from n (RxData bs # r) w =
     (Data (take n bs), w\<lparr>rx := (if length bs \<le> n then r else RxData (drop n bs) # r)\<rparr>)"

definition sock_recv :: "nat \<Rightarrow> world \<Rightarrow> answer \<times> world" where
  "sock_recv n w = recv_from n (rx w) w"

fun send_to :: "tx_event list \<Rightarrow> bytes \<Rightarrow> world \<Rightarrow> answer \<times> world" where
  "send_to [] bs w = (Done, w\<lparr>tx := tx w @ bs, tx_plan := []\<rparr>)"
| "send_to (TxEintr # q) bs w = send_to q bs w"
| "send_to (TxErr # q) bs w = net_failure (w\<lparr>tx_plan := q\<rparr>)"
| "send_to (TxAccept k # q) bs w =
     (if length bs \<le> k then (Done, w\<lparr>tx := tx w @ bs, tx_plan := q\<rparr>)
      else send_to q (drop k bs) (w\<lparr>tx := tx w @ take k bs\<rparr>))"

definition sock_sendall :: "bytes \<Rightarrow> world \<Rightarrow> answer \<times> world" where
  "sock_sendall bs w = send_to (tx_plan w) bs w"

text \<open>
  A program of \<open>protocol.py\<close> on the socket. The programs that the client performs make no other
  calls (\<open>network_only\<close>).
\<close>

fun on_socket :: "action \<Rightarrow> world \<Rightarrow> answer \<times> world" where
  "on_socket (Recv n) w = sock_recv n w"
| "on_socket (SendAll bs) w = sock_sendall bs w"
| "on_socket _ w = (Err OtherErr, w)"

primrec net :: "'a proc \<Rightarrow> 'a py" where
  "net (Return x) = py_return x"
| "net (Raise e) = throw e"
| "net (Act a k) = (\<lambda>w. case on_socket a w of (r, w') \<Rightarrow> net (k r) w')"

primrec network_only :: "'a proc \<Rightarrow> bool" where
  "network_only (Return x) = True"
| "network_only (Raise e) = True"
| "network_only (Act a k) \<longleftrightarrow> ((\<exists>n. a = Recv n) \<or> (\<exists>bs. a = SendAll bs)) \<and> (\<forall>r. network_only (k r))"

section \<open>Files\<close>

definition os_path_getsize :: "string \<Rightarrow> nat py" where
  "os_path_getsize p = py_bind (py_ask (\<lambda>f. node_at f p)) (\<lambda>n. case n of None \<Rightarrow> throw OsErr | Some n \<Rightarrow> py_return (st_size n))"

text \<open>\<open>open(p, "ab")\<close> (\<open>app\<close>) or \<open>open(p, "wb")\<close>, \<open>write\<close> and \<open>close\<close>.\<close>

definition open_out :: "string \<Rightarrow> bool \<Rightarrow> ofile py" where
  "open_out p app = py_bind (lib (fopen_out p app)) (\<lambda>f. case f of None \<Rightarrow> throw OsErr | Some f \<Rightarrow> py_return f)"

definition file_write :: "ofile \<Rightarrow> bytes \<Rightarrow> unit py" where
  "file_write f bs = py_bind (lib (fwrite f bs)) (\<lambda>n. if n \<noteq> length bs then throw OsErr else py_return ())"

definition close_out :: "ofile \<Rightarrow> unit py" where
  "close_out f = py_bind (lib (fclose_out f)) (\<lambda>flushed. if \<not> flushed then throw OsErr else py_return ())"

text \<open>\<open>open(p, "rb")\<close>, which refuses a directory, \<open>read\<close>, \<open>seek\<close> and \<open>close\<close>.\<close>

definition open_in :: "string \<Rightarrow> ifile py" where
  "open_in p = py_bind (py_ask (\<lambda>f. node_at f p)) (\<lambda>n. case n of
      Some (Dir _) \<Rightarrow> throw OsErr
    | _ \<Rightarrow> py_bind (lib (fopen_in p)) (\<lambda>f. case f of None \<Rightarrow> throw OsErr | Some f \<Rightarrow> py_return f))"

definition file_read :: "ifile \<Rightarrow> nat \<Rightarrow> (bytes \<times> ifile) py" where
  "file_read f n = py_bind (lib (fread f n)) (\<lambda>(bs, f). if if_error f then throw OsErr else py_return (bs, f))"

definition file_seek :: "ifile \<Rightarrow> nat \<Rightarrow> ifile py" where
  "file_seek f n =
     (if n \<ge> 2 ^ 63 then throw OtherErr
      else py_bind (lib (fseek f n)) (\<lambda>f. case f of None \<Rightarrow> throw OsErr | Some f \<Rightarrow> py_return f))"

definition close_in :: "ifile \<Rightarrow> unit py" where
  "close_in f = lib (fclose_in f)"

text \<open>\<open>os.remove\<close> is for files; \<open>os.replace\<close> is \<open>rename\<close>.\<close>

definition os_remove :: "string \<Rightarrow> unit py" where
  "os_remove p w =
     (case next_fault w of
        (Fault _, w) \<Rightarrow> throw OsErr w
      | (NoFault, w) \<Rightarrow>
          (case node_at (fs w) p of
             Some (File _) \<Rightarrow> (Inr (), w\<lparr>fs := AList.delete (resolve p) (fs w)\<rparr>)
           | _ \<Rightarrow> throw OsErr w))"

definition os_replace :: "string \<Rightarrow> string \<Rightarrow> unit py" where
  "os_replace a b = py_bind (lib (rename a b)) (\<lambda>renamed. if \<not> renamed then throw OsErr else py_return ())"

text \<open>The names in a directory; a directory that cannot be read counts as empty.\<close>

definition scandir :: "string \<Rightarrow> string list py" where
  "scandir d = py_bind (lib (opendir d)) (\<lambda>es. case es of
      None \<Rightarrow> py_return []
    | Some es \<Rightarrow> py_bind (lib closedir) (\<lambda>_. py_return (filter (\<lambda>e. e \<notin> {''.'', ''..''}) es)))"

text \<open>The loop of \<open>sha256_file\<close>; \<open>hashlib\<close> computes the function of the standard.\<close>

function hash_chunks :: "ifile \<Rightarrow> bytes \<Rightarrow> bytes py" where
  "hash_chunks f seen w =
     (case fread f 1048576 w of
        (Ok (chunk, f), w) \<Rightarrow>
          if if_error f then throw OsErr w
          else if chunk = [] then py_return seen w
          else hash_chunks f (seen @ chunk) w
      | (_, w) \<Rightarrow> throw OsErr w)"
  by pat_completeness auto
termination
  by (relation "measure (\<lambda>(f, seen, w). length (contents (fs w) (if_path f)) - if_pos f)")
    (auto dest!: fread_progress [OF sym])

declare hash_chunks.simps [simp del]

definition py_sha256_file :: "string \<Rightarrow> bytes py" where
  "py_sha256_file path =
     py_bind (open_in path) (\<lambda>f.
     py_bind (py_finally (hash_chunks f []) (close_in f)) (\<lambda>seen. py_return (sha256 seen)))"

section \<open>Weakest preconditions\<close>

text \<open>\<open>wpy m Q w\<close>: running \<open>m\<close> in \<open>w\<close> ends in a way and a world that satisfy \<open>Q\<close>.\<close>

definition wpy :: "'a py \<Rightarrow> (stop + 'a \<Rightarrow> world \<Rightarrow> bool) \<Rightarrow> world \<Rightarrow> bool" where
  "wpy m Q w = (case m w of (r, w') \<Rightarrow> Q r w')"

named_theorems wpy_simps "weakest preconditions of composed computations"

lemma wpyD: "wpy m Q w \<Longrightarrow> m w = (r, w') \<Longrightarrow> Q r w'"
  by (simp add: wpy_def)

lemma wpy_run: "m w = (r, w') \<Longrightarrow> wpy m Q w = Q r w'"
  by (simp add: wpy_def)

lemma wpy_mono: "wpy m P w \<Longrightarrow> (\<And>r w'. P r w' \<Longrightarrow> Q r w') \<Longrightarrow> wpy m Q w"
  by (auto simp: wpy_def)

lemma wpy_return [wpy_simps]: "wpy (py_return x) Q w = Q (Inr x) w"
  by (simp add: wpy_def py_return_def)

lemma wpy_throw [wpy_simps]: "wpy (throw e) Q w = Q (Inl (Thrown e)) w"
  by (simp add: wpy_def throw_def)

lemma wpy_bind [wpy_simps]:
  "wpy (py_bind m f) Q w = wpy m (\<lambda>r w'. case r of Inr x \<Rightarrow> wpy (f x) Q w' | Inl s \<Rightarrow> Q (Inl s) w') w"
  by (auto simp: wpy_def py_bind_def split: sum.splits prod.splits)

lemma wpy_try [wpy_simps]:
  "wpy (py_try m h) Q w =
     wpy m (\<lambda>r w'. case r of Inl (Thrown e) \<Rightarrow> wpy (h e) Q w' | _ \<Rightarrow> Q r w') w"
  by (auto simp: wpy_def py_try_def split: sum.splits prod.splits stop.splits)

lemma wpy_finally [wpy_simps]:
  "wpy (py_finally m q) Q w =
     wpy m (\<lambda>r w'. wpy q (\<lambda>r' w''. case r' of Inr _ \<Rightarrow> Q r w'' | Inl s \<Rightarrow> Q (Inl s) w'') w') w"
  by (auto simp: wpy_def py_finally_def split: sum.splits prod.splits)

lemma wpy_print [wpy_simps]: "wpy (py_print m) Q w = Q (Inr ()) (w\<lparr>out := out w @ [m]\<rparr>)"
  by (simp add: wpy_def py_print_def)

lemma wpy_warn [wpy_simps]: "wpy (py_warn d) Q w = Q (Inr ()) (w\<lparr>err := err w @ [d]\<rparr>)"
  by (simp add: wpy_def py_warn_def)

lemma wpy_ask [wpy_simps]: "wpy (py_ask f) Q w = Q (Inr (f (fs w))) w"
  by (simp add: wpy_def py_ask_def)

lemma wpy_lib [wpy_simps]:
  "wpy (lib m) Q w = wp m (\<lambda>r w'. case r of Ok x \<Rightarrow> Q (Inr x) w' | _ \<Rightarrow> Q (Inl (Thrown OsErr)) w') w"
  by (auto simp: wpy_def wp_def lib_def split: outcome.splits prod.splits)

lemma py_bind_cong [fundef_cong]: "m = m' \<Longrightarrow> (\<And>x. f x = f' x) \<Longrightarrow> py_bind m f = py_bind m' f'"
  by (metis ext)

lemma py_bind_assoc: "py_bind (py_bind m f) g = py_bind m (\<lambda>x. py_bind (f x) g)"
  by (auto simp: py_bind_def fun_eq_iff split: sum.split prod.split)

lemma py_bind_return [simp]: "py_bind (py_return x) f = f x" "py_bind (throw e) f = throw e"
  by (simp_all add: py_bind_def py_return_def throw_def fun_eq_iff)

lemma net_bind [wpy_simps]: "net (bind p f) = py_bind (net p) (\<lambda>x. net (f x))"
proof (induction p)
  case (Act a k)
  then show ?case by (auto simp: py_bind_def fun_eq_iff split: prod.splits)
qed simp_all

lemma net_call: "net (call a f) w =
    (case on_socket a w of (Err e, w') \<Rightarrow> throw e w' | (r, w') \<Rightarrow> py_return (f r) w')"
  by (auto simp: call_def split: answer.splits prod.splits)

section \<open>Reading from the socket\<close>

lemma net_failure_cases:
  obtains e g where "net_failure w = (Err e, w\<lparr>faults := g\<rparr>)" "e \<in> net_errors" "faults w = [] \<Longrightarrow> g = []"
proof (cases "faults w")
  case Nil
  then show ?thesis by (intro that [of ConnectionErr "[]"]) (simp_all add: net_failure_def net_errors_def)
next
  case (Cons f r)
  show ?thesis
  proof (cases f)
    case NoFault
    with Cons show ?thesis
      by (intro that [of ConnectionErr r]) (simp_all add: net_failure_def next_fault_def net_errors_def)
  next
    case (Fault k)
    with Cons show ?thesis
      by (intro that [of "if k = 0 then TimeoutErr else OsErr" r])
        (simp_all add: net_failure_def next_fault_def net_errors_def)
  qed
qed

text \<open>What is known of a failure of the network.\<close>

definition net_broken :: "world \<Rightarrow> exc \<Rightarrow> fault list \<Rightarrow> bool" where
  "net_broken w e g \<longleftrightarrow> e \<in> net_errors \<and> (faults w = [] \<longrightarrow> g = [])"

lemma recv_from_cases:
  assumes "0 < n"
  shows "(\<exists>r'. recv_from n r w = (Data [], w\<lparr>rx := r'\<rparr>) \<and> rx_bytes r = []) \<or>
    (\<exists>e r' g. recv_from n r w = (Err e, w\<lparr>rx := r', faults := g\<rparr>) \<and> rx_bytes r = [] \<and> net_broken w e g) \<or>
    (\<exists>bs r'. recv_from n r w = (Data bs, w\<lparr>rx := r'\<rparr>) \<and> bs \<noteq> [] \<and> length bs \<le> n \<and> rx_bytes r = bs @ rx_bytes r')"
proof (induction r)
  case (Cons ev r)
  show ?case
  proof (cases ev)
    case RxErr
    obtain e g where "net_failure (w\<lparr>rx := r\<rparr>) = (Err e, w\<lparr>rx := r, faults := g\<rparr>)" "net_broken w e g"
      by (cases rule: net_failure_cases [of "w\<lparr>rx := r\<rparr>"]) (simp add: net_broken_def)
    then show ?thesis using RxErr by (intro disjI2 disjI1) (auto intro: exI [of _ r])
  qed (use Cons assms in auto)
qed auto

lemma net_recv_cases:
  assumes "0 < n"
  obtains (closed) r where "net (call (Recv n) data) w = (Inr [], w\<lparr>rx := r\<rparr>)" "avail w = []"
  | (broken) e r g where "net (call (Recv n) data) w = (Inl (Thrown e), w\<lparr>rx := r, faults := g\<rparr>)"
      "avail w = []" "net_broken w e g"
  | (piece) bs r where "net (call (Recv n) data) w = (Inr bs, w\<lparr>rx := r\<rparr>)" "bs \<noteq> []" "length bs \<le> n"
      "avail w = bs @ rx_bytes r"
  using recv_from_cases [OF assms, of "rx w" w]
  by (elim disjE exE conjE)
    (auto simp: net_call sock_recv_def avail_def py_return_def throw_def intro: closed broken piece)

lemma net_read_exact_more:
  assumes "length acc \<le> n"
  shows "(n - length acc \<le> length (avail w) \<and>
      (\<exists>r. net (read_exact_more n acc) w = (Inr (acc @ take (n - length acc) (avail w)), w\<lparr>rx := r\<rparr>) \<and>
         rx_bytes r = drop (n - length acc) (avail w))) \<or>
    (length (avail w) < n - length acc \<and>
      (\<exists>e r g. net (read_exact_more n acc) w = (Inl (Thrown e), w\<lparr>rx := r, faults := g\<rparr>) \<and> net_broken w e g))"
  using assms
proof (induction n acc arbitrary: w rule: read_exact_more.induct)
  case (1 n acc)
  note unfold = read_exact_more.simps [of n acc]
  show ?case
  proof (cases "length acc < n")
    case False
    then have "net (read_exact_more n acc) w = (Inr acc, w\<lparr>rx := rx w\<rparr>)" by (simp add: unfold py_return_def)
    then show ?thesis using False 1(2) by (intro disjI1 conjI exI [of _ "rx w"]) (auto simp: avail_def)
  next
    case True
    then have pos: "0 < n - length acc" by simp
    then show ?thesis
    proof (cases rule: net_recv_cases [where w = w])
      case (closed r)
      then have "net (read_exact_more n acc) w = (Inl (Thrown ConnectionErr), w\<lparr>rx := r, faults := faults w\<rparr>)"
        using True by (simp add: unfold net_bind py_bind_def throw_def)
      moreover have "net_broken w ConnectionErr (faults w)" by (simp add: net_broken_def net_errors_def)
      ultimately show ?thesis using closed(2) pos by (intro disjI2) (metis length_0_conv)
    next
      case (broken e r g)
      then have "net (read_exact_more n acc) w = (Inl (Thrown e), w\<lparr>rx := r, faults := g\<rparr>)"
        using True by (simp add: unfold net_bind py_bind_def throw_def)
      then show ?thesis using broken(2,3) pos by (intro disjI2) (metis length_0_conv)
    next
      case (piece bs r)
      have step: "net (read_exact_more n acc) w = net (read_exact_more n (acc @ bs)) (w\<lparr>rx := r\<rparr>)"
        using True piece by (simp add: unfold net_bind py_bind_def)
      have m: "n - length acc = length bs + (n - length (acc @ bs))" using piece(3) by simp
      have "length (acc @ bs) \<le> n" using piece(3) True by simp
      from 1(1) [OF True piece(2) this, of "w\<lparr>rx := r\<rparr>"] show ?thesis
        unfolding step m piece(4) by (auto simp: net_broken_def)
    qed
  qed
qed

lemma wpy_read_exact:
  assumes "\<And>r. n \<le> length (avail w) \<Longrightarrow> rx_bytes r = drop n (avail w) \<Longrightarrow> Q (Inr (take n (avail w))) (w\<lparr>rx := r\<rparr>)"
    and "\<And>e r g. length (avail w) < n \<Longrightarrow> net_broken w e g \<Longrightarrow> Q (Inl (Thrown e)) (w\<lparr>rx := r, faults := g\<rparr>)"
  shows "wpy (net (read_exact_bytes n)) Q w"
  using net_read_exact_more [of "[]" n w] assms by (auto simp: wpy_def read_exact_bytes_def)

text \<open>A frame header is read when one of a known type is next; otherwise an exception says why not.\<close>

lemma wpy_read_frame_header:
  assumes good: "\<And>ty len r. avail w = frame_header ty len @ rx_bytes r \<Longrightarrow> PAYLOAD_CAPS ty \<noteq> None \<Longrightarrow>
      Q (Inr (ty, unat len)) (w\<lparr>rx := r\<rparr>)"
    and bad: "\<And>e r g. \<nexists>ty len rest. avail w = frame_header ty len @ rest \<and> PAYLOAD_CAPS ty \<noteq> None \<Longrightarrow>
      e \<noteq> OtherErr \<Longrightarrow> faults w = [] \<longrightarrow> g = [] \<Longrightarrow> Q (Inl (Thrown e)) (w\<lparr>rx := r, faults := g\<rparr>)"
  shows "wpy (net read_frame_header) Q w"
  unfolding read_frame_header_def net_bind wpy_bind
proof (rule wpy_read_exact, goal_cases)
  case (1 r)
  define h where "h = take 14 (avail w)"
  have len: "length h = 14" and split: "avail w = h @ rx_bytes r"
    using 1 by (simp_all add: h_def HEADER_SIZE_def flip: append_take_drop_id)
  obtain v where v: "unat v = from_bytes (take 8 (drop 6 h))"
    and iff: "\<And>ty l. h = frame_header ty l \<longleftrightarrow> take 4 h = MAGIC \<and> h ! 4 = VERSION \<and> h ! 5 = ty \<and> v = l"
    using header_parts [OF len] by blast
  have other: "Q (Inl (Thrown e)) (w\<lparr>rx := r\<rparr>)"
    if "\<not> (take 4 h = MAGIC \<and> h ! 4 = VERSION \<and> PAYLOAD_CAPS (h ! 5) \<noteq> None)" "e \<noteq> OtherErr" for e
  proof -
    have "\<nexists>ty l rest. avail w = frame_header ty l @ rest \<and> PAYLOAD_CAPS ty \<noteq> None"
    proof
      assume "\<exists>ty l rest. avail w = frame_header ty l @ rest \<and> PAYLOAD_CAPS ty \<noteq> None"
      then obtain ty l rest where "h @ rx_bytes r = frame_header ty l @ rest" "PAYLOAD_CAPS ty \<noteq> None"
        using split by auto
      then have "h = frame_header ty l" using len by (simp add: append_eq_append_conv)
      then show False using iff that(1) \<open>PAYLOAD_CAPS ty \<noteq> None\<close> by auto
    qed
    then show ?thesis using bad [of e "faults w" r] that(2) by simp
  qed
  have "Q (Inr (h ! 5, unat v)) (w\<lparr>rx := r\<rparr>)"
    if "take 4 h = MAGIC" "h ! 4 = VERSION" "PAYLOAD_CAPS (h ! 5) \<noteq> None"
    using good [of "h ! 5" v r] iff [of "h ! 5" v] that split by simp
  then show ?case using other v by (auto simp: wpy_simps Let_def HEADER_SIZE_def h_def [symmetric])
next
  case (2 e r g)
  then have "length (avail w) < 14" by (simp add: HEADER_SIZE_def)
  then have "\<nexists>ty len rest. avail w = frame_header ty len @ rest \<and> PAYLOAD_CAPS ty \<noteq> None" by auto
  then show ?case using 2 bad [of e g r] by (auto simp: net_broken_def net_errors_def)
qed

lemma wpy_read_frame:
  assumes good: "\<And>ty payload r. avail w = frame ty payload @ rx_bytes r \<Longrightarrow> frame_within ty payload \<Longrightarrow>
      Q (Inr (ty, payload)) (w\<lparr>rx := r\<rparr>)"
    and bad: "\<And>e r g. \<nexists>ty payload rest. avail w = frame ty payload @ rest \<and> frame_within ty payload \<Longrightarrow>
      e \<noteq> OtherErr \<Longrightarrow> faults w = [] \<longrightarrow> g = [] \<Longrightarrow> Q (Inl (Thrown e)) (w\<lparr>rx := r, faults := g\<rparr>)"
  shows "wpy (net read_frame) Q w"
  unfolding read_frame_def net_bind wpy_bind
proof (rule wpy_read_frame_header, goal_cases)
  case (1 ty len r)
  note hdr = 1
  obtain cap where cap: "PAYLOAD_CAPS ty = Some cap" using hdr(2) by blast
  have unique: "ty' = ty \<and> length p = unat len \<and> rx_bytes r = p @ rest"
    if "avail w = frame ty' p @ rest" "frame_within ty' p" for ty' p rest
  proof -
    have "ty' = ty" "word_of_nat (length p) = len" "p @ rest = rx_bytes r"
      using that(1) hdr(1) by (simp_all add: frame_def frame_header_inject)
    moreover have "length p < 2 ^ 64" using that(2) caps_bound by (fastforce simp: frame_within_def)
    ultimately show ?thesis by (auto simp: unat_of_nat)
  qed
  show ?case
  proof (cases "unat len \<le> cap")
    case False
    have "\<nexists>ty' p rest. avail w = frame ty' p @ rest \<and> frame_within ty' p"
      using unique False cap by (metis frame_within_def option.inject)
    then have "Q (Inl (Thrown (FrameError x y))) (w\<lparr>rx := r\<rparr>)" for x y
      using bad [of "FrameError x y" "faults w" r] by simp
    then show ?thesis using False cap by (simp add: wpy_simps)
  next
    case fits: True
    have "wpy (net (read_exact_bytes (unat len))) (\<lambda>z w'. case z of Inr payload \<Rightarrow> Q (Inr (ty, payload)) w' | Inl s \<Rightarrow> Q (Inl s) w') (w\<lparr>rx := r\<rparr>)"
    proof (rule wpy_read_exact, goal_cases)
      case (1 r')
      then have "avail w = frame ty (take (unat len) (rx_bytes r)) @ rx_bytes r'"
        using hdr(1) by (simp add: frame_def)
      moreover have "frame_within ty (take (unat len) (rx_bytes r))" using fits cap by (simp add: frame_within_def)
      ultimately show ?case using good by simp
    next
      case (2 e r' g)
      have "\<not> (avail w = frame ty' p @ rest \<and> frame_within ty' p)" for ty' p rest
        using unique [of ty' p rest] 2(1) by auto
      then have "\<nexists>ty' p rest. avail w = frame ty' p @ rest \<and> frame_within ty' p" by blast
      then show ?case using bad [of e g r'] 2 by (auto simp: net_broken_def net_errors_def)
    qed
    then show ?thesis
    proof (cases "unat len = 0")
      case True
      then have "Q (Inr (ty, [])) (w\<lparr>rx := r\<rparr>)"
        using good [of ty "[]" r] hdr(1) cap by (simp add: frame_def frame_within_def unat_eq_zero)
      then show ?thesis using True cap by (simp add: wpy_simps)
    qed (use fits cap in \<open>simp add: wpy_simps cong: sum.case_cong\<close>)
  qed
next
  case (2 e r g)
  have "\<nexists>ty p rest. avail w = frame ty p @ rest \<and> frame_within ty p"
    using 2(1) unfolding frame_def frame_within_def by (metis append_assoc option.distinct(1))
  then show ?case using bad [of e g r] 2 by simp
qed

section \<open>Writing to the socket\<close>

lemma send_to_cases:
  "(\<exists>q'. send_to q bs w = (Done, w\<lparr>tx := tx w @ bs, tx_plan := q'\<rparr>) \<and> set q' \<subseteq> set q) \<or>
   (\<exists>e k q' g. send_to q bs w = (Err e, w\<lparr>tx := tx w @ take k bs, tx_plan := q', faults := g\<rparr>) \<and>
      TxErr \<in> set q \<and> net_broken w e g)"
proof (induction q arbitrary: bs w)
  case (Cons ev q)
  show ?case
  proof (cases ev)
    case (TxAccept k)
    show ?thesis
    proof (cases "length bs \<le> k")
      case False
      have cat: "take k bs @ take j (drop k bs) = take (k + j) bs" for j by (simp add: take_add)
      from Cons [of "drop k bs" "w\<lparr>tx := tx w @ take k bs\<rparr>"] show ?thesis
      proof (elim disjE exE conjE, goal_cases)
        case (1 q')
        then show ?case using TxAccept False by (intro disjI1) auto
      next
        case (2 e j q' g)
        then show ?case using TxAccept False cat [of j] by (intro disjI2) (auto simp: net_broken_def)
      qed
    qed (use TxAccept in auto)
  next
    case TxErr
    obtain e g where "net_failure (w\<lparr>tx_plan := q\<rparr>) = (Err e, w\<lparr>tx_plan := q, faults := g\<rparr>)" "net_broken w e g"
      by (cases rule: net_failure_cases [of "w\<lparr>tx_plan := q\<rparr>"]) (simp add: net_broken_def)
    then show ?thesis using TxErr by (intro disjI2 exI [of _ e] exI [of _ 0] exI [of _ q] exI [of _ g]) simp
  next
    case TxEintr
    then show ?thesis using Cons [of bs w] by auto
  qed
qed simp

lemma wpy_sendall:
  assumes "\<And>q. set q \<subseteq> set (tx_plan w) \<Longrightarrow> Q (Inr ()) (w\<lparr>tx := tx w @ bs, tx_plan := q\<rparr>)"
    and "\<And>e k q g. TxErr \<in> set (tx_plan w) \<Longrightarrow> net_broken w e g \<Longrightarrow>
      Q (Inl (Thrown e)) (w\<lparr>tx := tx w @ take k bs, tx_plan := q, faults := g\<rparr>)"
  shows "wpy (net (perform_call (SendAll bs))) Q w"
  using send_to_cases [of "tx_plan w" bs w] assms
  by (auto simp: wpy_def net_call sock_sendall_def py_return_def throw_def)

lemma net_to_bytes:
  "v < 2 ^ 64 \<Longrightarrow> net (to_bytes 8 v) = py_return (be_bytes 8 (word_of_nat v :: u64))"
  "v < 2 ^ 16 \<Longrightarrow> net (to_bytes 2 v) = py_return (be_bytes 2 (word_of_nat v :: u16))"
  using int_bytes_be [where 'a = 64, of 8 v] int_bytes_be [where 'a = 16, of 2 v] by (simp_all add: to_bytes_def)

lemma net_write_frame:
  "length p < 2 ^ 64 \<Longrightarrow> net (write_frame ty p) = net (perform_call (SendAll (frame ty p)))"
  by (simp add: write_frame_def net_bind net_to_bytes frame_def frame_header_def same_wire)

lemma wpy_write_frame:
  assumes "length p < 2 ^ 64"
    and "\<And>q. set q \<subseteq> set (tx_plan w) \<Longrightarrow> Q (Inr ()) (w\<lparr>tx := tx w @ frame ty p, tx_plan := q\<rparr>)"
    and "\<And>e k q g. TxErr \<in> set (tx_plan w) \<Longrightarrow> net_broken w e g \<Longrightarrow>
      Q (Inl (Thrown e)) (w\<lparr>tx := tx w @ take k (frame ty p), tx_plan := q, faults := g\<rparr>)"
  shows "wpy (net (write_frame ty p)) Q w"
  unfolding net_write_frame [OF assms(1)] by (rule wpy_sendall) (use assms in simp_all)

section \<open>Files\<close>

lemma wpy_getsize [wpy_simps]:
  "wpy (os_path_getsize p) Q w =
     (case node_at (fs w) p of None \<Rightarrow> Q (Inl (Thrown OsErr)) w | Some n \<Rightarrow> Q (Inr (st_size n)) w)"
  by (simp add: os_path_getsize_def wpy_simps split: option.split)

text \<open>
  The rules for calls that may fail. Without failures for outside reasons, a call fails only for the
  reason that its rule states, and leaves the script of failures empty.
\<close>

lemma fault_cases:
  obtains (none) g where "next_fault w = (NoFault, w\<lparr>faults := g\<rparr>)" "faults w = [] \<longrightarrow> g = []"
  | (some) k g where "next_fault w = (Fault k, w\<lparr>faults := g\<rparr>)" "faults w \<noteq> []"
proof (cases "faults w")
  case Nil
  then show ?thesis by (intro none [of "[]"]) simp_all
next
  case (Cons f g)
  then show ?thesis by (cases f) (auto simp: next_fault_def intro: none some)
qed

lemma wpy_open_out:
  assumes "\<And>g. faults w = [] \<longrightarrow> \<not> creatable (fs w) p \<and> g = [] \<Longrightarrow> Q (Inl (Thrown OsErr)) (w\<lparr>faults := g\<rparr>)"
    and "\<And>g c. faults w = [] \<longrightarrow> g = [] \<Longrightarrow> creatable (fs w) p \<Longrightarrow> c = (if app then contents (fs w) (resolve p) else []) \<Longrightarrow>
      Q (Inr \<lparr>of_path = resolve p, of_base = length c\<rparr>)
        (w\<lparr>faults := g, fs := AList.update (resolve p) (File c) (fs w), open_files := Suc (open_files w)\<rparr>)"
  shows "wpy (open_out p app) Q w"
proof (cases w rule: fault_cases)
  case (none g)
  then show ?thesis using assms(1) [of g] assms(2) [of g, OF _ _ refl]
    by (cases "creatable (fs w) p"; cases app) (simp_all add: open_out_def wpy_simps wp_def fopen_out_def Let_def)
next
  case (some k g)
  then show ?thesis using assms(1) [of g] by (simp add: open_out_def wpy_simps wp_def fopen_out_def)
qed

lemma wpy_file_write:
  assumes "\<And>g n. faults w \<noteq> [] \<Longrightarrow> n < length bs \<Longrightarrow> Q (Inl (Thrown OsErr))
      (w\<lparr>faults := g, fs := AList.update (of_path h) (File (contents (fs w) (of_path h) @ take n bs)) (fs w)\<rparr>)"
    and "\<And>g. faults w = [] \<longrightarrow> g = [] \<Longrightarrow> Q (Inr ())
      (w\<lparr>faults := g, fs := AList.update (of_path h) (File (contents (fs w) (of_path h) @ bs)) (fs w)\<rparr>)"
  shows "wpy (file_write h bs) Q w"
proof (cases w rule: fault_cases)
  case (some k g)
  show ?thesis
  proof (cases "k < length bs")
    case True
    then show ?thesis using assms(1) [of k g] some by (simp add: file_write_def wpy_simps wp_def fwrite_def)
  next
    case False
    then show ?thesis using assms(2) [of g] some by (simp add: file_write_def wpy_simps wp_def fwrite_def)
  qed
qed (use assms(2) in \<open>simp add: file_write_def wpy_simps wp_def fwrite_def\<close>)

lemma wpy_close_out:
  assumes "open_files w = Suc n"
    and "\<And>g. faults w = [] \<longrightarrow> g = [] \<Longrightarrow> Q (Inr ()) (w\<lparr>open_files := n, faults := g\<rparr>)"
    and "\<And>g m. faults w \<noteq> [] \<Longrightarrow> of_base h \<le> m \<Longrightarrow> Q (Inl (Thrown OsErr)) (w\<lparr>open_files := n, faults := g,
        fs := AList.update (of_path h) (File (take m (contents (fs w) (of_path h)))) (fs w)\<rparr>)"
  shows "wpy (close_out h) Q w"
proof (cases "w\<lparr>open_files := n\<rparr>" rule: fault_cases)
  case (some k g)
  then show ?thesis
    using assms(1) assms(3) [of "max (of_base h) (length (contents (fs w) (of_path h)) - k)" g]
    by (simp add: close_out_def wpy_simps wp_def fclose_out_def Let_def)
qed (use assms(1,2) in \<open>simp add: close_out_def wpy_simps wp_def fclose_out_def\<close>)

lemma wpy_close_in [wpy_simps]:
  "open_files w = Suc n \<Longrightarrow> wpy (close_in h) Q w = Q (Inr ()) (w\<lparr>open_files := n\<rparr>)"
  by (simp add: close_in_def wpy_simps wp_simps)

lemma wpy_open_in:
  assumes "\<And>g. faults w = [] \<longrightarrow> (\<nexists>c. node_at (fs w) p = Some (File c)) \<and> g = [] \<Longrightarrow> Q (Inl (Thrown OsErr)) (w\<lparr>faults := g\<rparr>)"
    and "\<And>g c. faults w = [] \<longrightarrow> g = [] \<Longrightarrow> node_at (fs w) p = Some (File c) \<Longrightarrow>
      Q (Inr \<lparr>if_path = resolve p, if_pos = 0, if_error = False\<rparr>) (w\<lparr>faults := g, open_files := Suc (open_files w)\<rparr>)"
  shows "wpy (open_in p) Q w"
proof (cases "\<exists>k. node_at (fs w) p = Some (Dir k)")
  case True
  then show ?thesis using assms(1) [of "faults w"] by (auto simp: open_in_def wpy_simps)
next
  case False
  then have "wpy (open_in p) Q w = wpy (py_bind (lib (fopen_in p)) (\<lambda>f. case f of None \<Rightarrow> throw OsErr | Some f \<Rightarrow> py_return f)) Q w"
    by (auto simp: open_in_def wpy_simps split: option.split node.split)
  also have "\<dots>"
  proof (cases w rule: fault_cases)
    case (none g)
    show ?thesis
    proof (cases "node_at (fs w) p")
      case None
      then show ?thesis using none assms(1) [of g] by (simp add: wpy_simps wp_def fopen_in_def)
    next
      case (Some n)
      then obtain c where "n = File c" using False by (cases n) auto
      then show ?thesis using none Some assms(2) [of g c] by (simp add: wpy_simps wp_def fopen_in_def)
    qed
  qed (use assms(1) in \<open>simp add: wpy_simps wp_def fopen_in_def\<close>)
  finally show ?thesis by simp
qed

lemma wpy_os_remove:
  assumes "\<And>g. faults w = [] \<longrightarrow> (\<nexists>c. node_at (fs w) p = Some (File c)) \<and> g = [] \<Longrightarrow> Q (Inl (Thrown OsErr)) (w\<lparr>faults := g\<rparr>)"
    and "\<And>g c. faults w = [] \<longrightarrow> g = [] \<Longrightarrow> node_at (fs w) p = Some (File c) \<Longrightarrow>
      Q (Inr ()) (w\<lparr>faults := g, fs := AList.delete (resolve p) (fs w)\<rparr>)"
  shows "wpy (os_remove p) Q w"
  by (cases w rule: fault_cases)
    (use assms in \<open>auto simp: wpy_def os_remove_def throw_def split: option.split node.split\<close>)

lemma wpy_os_replace:
  assumes "\<And>g. faults w = [] \<longrightarrow> \<not> ((\<exists>c. node_at (fs w) a = Some (File c)) \<and> creatable (fs w) b) \<and> g = [] \<Longrightarrow>
      Q (Inl (Thrown OsErr)) (w\<lparr>faults := g\<rparr>)"
    and "\<And>g c. faults w = [] \<longrightarrow> g = [] \<Longrightarrow> node_at (fs w) a = Some (File c) \<Longrightarrow> creatable (fs w) b \<Longrightarrow>
      Q (Inr ()) (w\<lparr>faults := g, fs := AList.update (resolve b) (File c) (AList.delete (resolve a) (fs w))\<rparr>)"
  shows "wpy (os_replace a b) Q w"
proof (cases w rule: fault_cases)
  case (none g)
  then show ?thesis using assms(1) [of g] assms(2) [of g]
    by (cases "creatable (fs w) b") (auto simp: os_replace_def wpy_simps wp_def rename_def split: option.split node.split)
next
  case (some k g)
  then show ?thesis using assms(1) [of g] by (simp add: os_replace_def wpy_simps wp_def rename_def)
qed

lemma wpy_file_seek:
  assumes "n < 2 ^ 63"
    and "\<And>g. faults w \<noteq> [] \<Longrightarrow> Q (Inl (Thrown OsErr)) (w\<lparr>faults := g\<rparr>)"
    and "\<And>g. faults w = [] \<longrightarrow> g = [] \<Longrightarrow> Q (Inr (h\<lparr>if_pos := n\<rparr>)) (w\<lparr>faults := g\<rparr>)"
  shows "wpy (file_seek h n) Q w"
  by (cases w rule: fault_cases)
    (use assms in \<open>auto simp: file_seek_def wpy_simps wp_def fseek_def\<close>)

lemma wpy_file_read:
  assumes "\<not> if_error h" and "\<not> is_dir (fs w) (if_path h)"
    and "\<And>g. faults w \<noteq> [] \<Longrightarrow> Q (Inl (Thrown OsErr)) (w\<lparr>faults := g\<rparr>)"
    and "\<And>g bs. faults w = [] \<longrightarrow> g = [] \<Longrightarrow> bs = take n (drop (if_pos h) (contents (fs w) (if_path h))) \<Longrightarrow>
      Q (Inr (bs, h\<lparr>if_pos := if_pos h + length bs\<rparr>)) (w\<lparr>faults := g\<rparr>)"
  shows "wpy (file_read h n) Q w"
  by (cases w rule: fault_cases)
    (use assms in \<open>auto simp: file_read_def wpy_simps wp_def fread_def Let_def\<close>)

lemma wpy_scandir:
  assumes "\<And>g. faults w = [] \<longrightarrow> \<not> (d \<noteq> [] \<and> is_dir (fs w) (resolve d)) \<and> g = [] \<Longrightarrow> Q (Inr []) (w\<lparr>faults := g\<rparr>)"
    and "\<And>g. faults w = [] \<longrightarrow> g = [] \<Longrightarrow> d \<noteq> [] \<Longrightarrow> is_dir (fs w) (resolve d) \<Longrightarrow>
      Q (Inr (filter (\<lambda>e. e \<notin> {''.'', ''..''}) (entries (fs w) (resolve d)))) (w\<lparr>faults := g\<rparr>)"
  shows "wpy (scandir d) Q w"
  by (cases w rule: fault_cases)
    (use assms in \<open>auto simp: scandir_def wpy_simps wp_simps wp_def opendir_def closedir_def\<close>)

text \<open>Hashing a file gives the digest of its contents and changes nothing.\<close>

lemma hash_chunks_spec:
  assumes "\<not> if_error h"
  shows "\<exists>g. hash_chunks h seen w = (Inl (Thrown OsErr), w\<lparr>faults := g\<rparr>) \<and> faults w \<noteq> [] \<or>
     hash_chunks h seen w = (Inl (Thrown OsErr), w\<lparr>faults := g\<rparr>) \<and> is_dir (fs w) (if_path h) \<or>
     hash_chunks h seen w = (Inr (seen @ drop (if_pos h) (contents (fs w) (if_path h))), w\<lparr>faults := g\<rparr>) \<and>
       (faults w = [] \<longrightarrow> g = [])"
  using assms
proof (induction h seen w rule: hash_chunks.induct)
  case (1 h seen w)
  note unfold = hash_chunks.simps [of h seen w]
  show ?case
  proof (cases rule: fread_cases [of w h 1048576])
    case (ok g bs)
    show ?thesis
    proof (cases "bs = []")
      case True
      then show ?thesis using ok 1(2) by (intro exI [of _ g]) (auto simp: unfold py_return_def)
    next
      case False
      let ?h = "h\<lparr>if_pos := if_pos h + length bs\<rparr>"
      have step: "hash_chunks h seen w = hash_chunks ?h (seen @ bs) (w\<lparr>faults := g\<rparr>)"
        using ok(3) False 1(2) by (simp add: unfold)
      have rest: "bs @ drop (if_pos ?h) (contents (fs w) (if_path h)) = drop (if_pos h) (contents (fs w) (if_path h))"
        using drop_by_piece [OF ok(2)] by simp
      have "\<not> if_error ?h" using 1(2) by simp
      from 1(1) [OF ok(3) [symmetric] refl refl this False this] show ?thesis
        unfolding step using rest ok(1,4) by auto
    qed
  next
    case (broken g bs k)
    then have "hash_chunks h seen w = (Inl (Thrown OsErr), w\<lparr>faults := g\<rparr>)" by (simp add: unfold throw_def)
    then show ?thesis using broken(4) by auto
  qed
qed

lemma wpy_sha256_file:
  assumes "\<And>g. faults w = [] \<longrightarrow> (\<nexists>c. node_at (fs w) p = Some (File c)) \<and> g = [] \<Longrightarrow> Q (Inl (Thrown OsErr)) (w\<lparr>faults := g\<rparr>)"
    and "\<And>g c. faults w = [] \<longrightarrow> g = [] \<Longrightarrow> node_at (fs w) p = Some (File c) \<Longrightarrow> Q (Inr (sha256 c)) (w\<lparr>faults := g\<rparr>)"
  shows "wpy (py_sha256_file p) Q w"
  unfolding py_sha256_file_def wpy_bind [of "open_in p"]
proof (rule wpy_open_in, goal_cases)
  case (2 g c)
  let ?h = "\<lparr>if_path = resolve p, if_pos = 0, if_error = False\<rparr>"
    and ?w = "w\<lparr>faults := g, open_files := Suc (open_files w)\<rparr>"
  have c: "contents (fs w) (resolve p) = c" "\<not> is_dir (fs w) (resolve p)"
    using 2 by (auto simp: node_at_def contents_def is_dir_def split: if_splits option.splits node.splits)
  have close: "wpy (close_in ?h) R (w\<lparr>faults := g', open_files := Suc (open_files w)\<rparr>) = R (Inr ()) (w\<lparr>faults := g'\<rparr>)" for R g'
    by (simp add: wpy_simps)
  obtain g' where "hash_chunks ?h [] ?w = (Inl (Thrown OsErr), ?w\<lparr>faults := g'\<rparr>) \<and> faults w \<noteq> [] \<or>
      hash_chunks ?h [] ?w = (Inr c, ?w\<lparr>faults := g'\<rparr>) \<and> (faults w = [] \<longrightarrow> g' = [])"
    using hash_chunks_spec [of ?h "[]" ?w] c 2(1) by auto
  then show ?case
    unfolding sum.case wpy_bind wpy_finally using assms(1) [of g'] assms(2) [of g' c] 2
    by (elim disjE conjE) (simp_all add: wpy_run close wpy_simps)
qed (simp add: assms(1))

end
