(* ===== verification/Rtrv_Session.thy ===== *)
theory Rtrv_Session
  imports Rtrv_Put
begin

text \<open>
  The connection of \<open>src/c/frame.c\<close> and the program of \<open>src/c/main.c\<close>: the handshake, LIST, QUIT,
  the command line, the exit codes, and the test harness \<open>src/c/sha256_main.c\<close>.
\<close>

section \<open>Connecting\<close>

text \<open>
  What happens at each address that \<open>getaddrinfo\<close> returns. The resolver and the peers are outside
  the program: the answer for a host and a port is an argument. A descriptor counts as an open file.
\<close>

datatype address = NoSocket | Refuses | Accepts

definition sock_open :: "unit cmd" where
  "sock_open w = (Ok (), w\<lparr>open_files := Suc (open_files w)\<rparr>)"

definition sock_close :: "unit cmd" where
  "sock_close w = (case open_files w of 0 \<Rightarrow> (Undef, w) | Suc n \<Rightarrow> (Ok (), w\<lparr>open_files := n\<rparr>))"

text \<open>The list that \<open>getaddrinfo\<close> allocates is released by \<open>freeaddrinfo\<close>.\<close>

definition addrinfo_alloc :: "unit cmd" where
  "addrinfo_alloc w = (Ok (), w\<lparr>allocs := Suc (allocs w)\<rparr>)"

fun connect_loop :: "address list \<Rightarrow> bool cmd" where
  "connect_loop [] = ret False"
| "connect_loop (a # as) =
     (case a of
        NoSocket \<Rightarrow> connect_loop as
      | Accepts \<Rightarrow> andthen sock_open (\<lambda>_. ret True)
      | Refuses \<Rightarrow> andthen sock_open (\<lambda>_. andthen sock_close (\<lambda>_. connect_loop as)))"

definition rtrv_connect :: "(string \<Rightarrow> string \<Rightarrow> address list option) \<Rightarrow> string \<Rightarrow> string \<Rightarrow> unit cmd" where
  "rtrv_connect getaddrinfo host port =
     (case getaddrinfo host port of
        None \<Rightarrow> die (CannotResolve host port)
      | Some results \<Rightarrow>
          andthen addrinfo_alloc (\<lambda>_.
          andthen (connect_loop results) (\<lambda>connected.
          andthen (free (Some ())) (\<lambda>_.
          if connected then ret () else die (CannotConnect host port)))))"

section \<open>Handshake, listing, goodbye\<close>

definition do_hello :: "unit cmd" where
  "do_hello =
     andthen (rtrv_write_frame RTRV_T_HELLO None 0) (\<lambda>_.
     andthen rtrv_read_frame (\<lambda>(typ, payload, payload_len).
     if typ = RTRV_T_ERROR then
       andthen (rtrv_report_error payload payload_len) (\<lambda>_.
       andthen (free payload) (\<lambda>_. failed))
     else andthen (free payload) (\<lambda>_.
       if typ \<noteq> RTRV_T_OK then die (UnexpectedReply typ ''HELLO'') else ret ())))"

text \<open>
  The walk over the listing. \<open>i\<close>, \<open>start\<close> and the length are \<open>uint64_t\<close>; \<open>None\<close> is a read outside
  the payload, or a walk that never ends. The names are collected in the order of printing.
\<close>

partial_function (option) list_loop :: "bytes option \<Rightarrow> u64 \<Rightarrow> u64 \<Rightarrow> u64 \<Rightarrow> bytes list \<Rightarrow> bytes list option" where
  "list_loop payload payload_len i start names =
     (if i \<le> payload_len then
        Option.bind
          (if i = payload_len then Some True
           else Option.bind payload (\<lambda>p. map_option (\<lambda>b. b = [0]) (mem_get p (unat i) 1)))
          (\<lambda>ends.
             if ends then
               Option.bind
                 (if i > start
                  then Option.bind payload (\<lambda>p.
                         map_option (\<lambda>name. names @ [printed name]) (mem_get p (unat start) (unat (i - start))))
                  else Some names)
                 (\<lambda>names. list_loop payload payload_len (i + 1) (i + 1) names)
             else list_loop payload payload_len (i + 1) start names)
      else Some names)"

declare list_loop.simps [code]

fun print_names :: "bytes list \<Rightarrow> unit cmd" where
  "print_names [] = ret ()"
| "print_names (name # names) = andthen (print (Listed name)) (\<lambda>_. print_names names)"

definition do_list :: "unit cmd" where
  "do_list =
     andthen (rtrv_write_frame RTRV_T_LIST None 0) (\<lambda>_.
     andthen rtrv_read_frame (\<lambda>(typ, payload, payload_len).
     if typ = RTRV_T_ERROR then
       andthen (rtrv_report_error payload payload_len) (\<lambda>_.
       andthen (free payload) (\<lambda>_. failed))
     else if typ \<noteq> RTRV_T_OK then
       andthen (complain (UnexpectedReply typ ''LIST'')) (\<lambda>_.
       andthen (free payload) (\<lambda>_. failed))
     else
       andthen (access (list_loop payload payload_len 0 0 [])) (\<lambda>names.
       andthen (print_names names) (\<lambda>_. free payload))))"

definition do_quit :: "unit cmd" where
  "do_quit =
     attempt (rtrv_write_frame RTRV_T_QUIT None 0)
       (\<lambda>_. attempt rtrv_read_frame (\<lambda>(typ, payload, payload_len). free payload) (ret ()))
       (ret ())"

section \<open>The program\<close>

definition EXIT_SERVER :: int where "EXIT_SERVER = 1"
definition EXIT_LOCAL :: int where "EXIT_LOCAL = 2"
definition EXIT_CONN :: int where "EXIT_CONN = 3"

lemmas exit_codes = EXIT_SERVER_def EXIT_LOCAL_def EXIT_CONN_def

text \<open>\<open>argv\<close> as the list of its strings; past its end is the null pointer.\<close>

definition arg :: "string list \<Rightarrow> nat \<Rightarrow> string option" where
  "arg argv i = (if i < length argv then Some (argv ! i) else None)"

definition usage :: "string list \<Rightarrow> unit cmd" where
  "usage argv = andthen (access (arg argv 0)) (\<lambda>program. complain (Usage program))"

definition basename_of :: "string \<Rightarrow> string" where
  "basename_of path = (case last_slash path of Some i \<Rightarrow> drop (Suc i) path | None \<Rightarrow> path)"

text \<open>
  The part of \<open>main\<close> before the connection: host, port, command and the two names that the command
  needs. A failure is a return of \<open>EXIT_LOCAL\<close>.
\<close>

definition main_args :: "string list \<Rightarrow> (string \<times> string \<times> string \<times> string \<times> string) cmd" where
  "main_args argv =
     (let argc = length argv; bad_usage = andthen (usage argv) (\<lambda>_. failed) in
      if argc < 4 then bad_usage
      else
        let host = argv ! 1; port = argv ! 2; command = argv ! 3 in
        if command = ''list'' then
          if argc \<noteq> 4 then bad_usage else ret (host, port, command, [], [])
        else if command = ''get'' then
          if argc \<noteq> 5 \<and> argc \<noteq> 7 then bad_usage
          else if argc = 7 then
            if argv ! 5 \<noteq> ''-o'' then bad_usage
            else ret (host, port, command, argv ! 4, argv ! 6)
          else ret (host, port, command, argv ! 4, basename_of (argv ! 4))
        else if command = ''put'' then
          if argc \<noteq> 5 \<and> argc \<noteq> 6 then bad_usage
          else ret (host, port, command, argv ! 4,
                    if argc = 6 then argv ! 5 else basename_of (argv ! 4))
        else andthen (complain (UnknownCommand command)) (\<lambda>_. bad_usage))"

text \<open>The session on an open connection, and its exit status.\<close>

definition main_session :: "string \<Rightarrow> string \<Rightarrow> string \<Rightarrow> int cmd" where
  "main_session command name other =
     attempt do_hello
       (\<lambda>_. attempt
              (if command = ''list'' then do_list
               else if command = ''get'' then rtrv_do_get name other
               else rtrv_do_put name other)
              (\<lambda>_. andthen do_quit (\<lambda>_. ret 0))
              (ret EXIT_SERVER))
       (ret EXIT_CONN)"

definition retriever_main :: "(string \<Rightarrow> string \<Rightarrow> address list option) \<Rightarrow> string list \<Rightarrow> int cmd" where
  "retriever_main getaddrinfo argv =
     attempt (main_args argv)
       (\<lambda>(host, port, command, name, other).
          attempt (rtrv_connect getaddrinfo host port)
            (\<lambda>_. andthen (main_session command name other) (\<lambda>status.
                 andthen sock_close (\<lambda>_. ret status)))
            (ret EXIT_CONN))
       (ret EXIT_LOCAL)"

text \<open>The test harness, on a stream that is its standard input.\<close>

definition sha256_main :: "ifile \<Rightarrow> int cmd" where
  "sha256_main stdin =
     andthen (hash_loop (sha256_init stack_ctx) stdin) (\<lambda>(ctx, stdin).
     if if_error stdin then andthen (complain StdinFailed) (\<lambda>_. ret 1)
     else
       andthen (access (sha256_final ctx)) (\<lambda>(ctx, digest).
       andthen (access (Option.bind (sha256_hex digest SHA256_DIGEST_SIZE)
                                    (cstr_put (SHA256_DIGEST_SIZE * 2 + 1)))) (\<lambda>hex.
       andthen (print (HexDigest hex)) (\<lambda>_. ret 0))))"

section \<open>The listing\<close>

text \<open>The payload of a LIST reply read as names separated by zero bytes.\<close>

fun split_zero :: "bytes \<Rightarrow> bytes list" where
  "split_zero [] = [[]]"
| "split_zero (b # bs) =
     (if b = 0 then [] # split_zero bs
      else case split_zero bs of [] \<Rightarrow> [[b]] | x # xs \<Rightarrow> (b # x) # xs)"

definition listing :: "bytes \<Rightarrow> bytes list" where
  "listing p = filter (\<lambda>name. name \<noteq> []) (split_zero p)"

lemma split_zero_nonempty: "split_zero bs \<noteq> []"
  by (induction bs) (auto split: list.splits)

lemma split_zero_cut: "0 \<notin> set a \<Longrightarrow> split_zero (a @ 0 # b) = a # split_zero b"
  by (induction a) auto

lemma split_zero_plain: "0 \<notin> set a \<Longrightarrow> split_zero a = [a]"
  by (induction a) auto

lemma printed_plain: "0 \<notin> set a \<Longrightarrow> printed a = a"
  by (auto simp: printed_def takeWhile_eq_all_conv)

text \<open>One step of the walk at position \<open>i\<close>, in the name that starts at \<open>s\<close>.\<close>

lemma list_loop_step:
  assumes len: "length p < 2 ^ 64 - 1" and pay: "payload = Some p \<or> payload = None \<and> p = []"
    and at: "s \<le> i" "i \<le> length p" and seg: "0 \<notin> set (take (i - s) (drop s p))"
    and new: "names' = names @ (if s < i then [take (i - s) (drop s p)] else [])"
  shows "list_loop payload (word_of_nat (length p)) (word_of_nat i) (word_of_nat s) names =
    (if i = length p then Some names'
     else if p ! i = 0 then list_loop payload (word_of_nat (length p)) (word_of_nat (Suc i)) (word_of_nat (Suc i)) names'
     else list_loop payload (word_of_nat (length p)) (word_of_nat (Suc i)) (word_of_nat s) names)"
proof -
  have u: "unat (word_of_nat k :: u64) = k" if "k \<le> Suc (length p)" for k
    using that len by (intro u64_nat) simp
  have us: "unat (word_of_nat s :: u64) = s" "unat (word_of_nat i :: u64) = i" "unat (word_of_nat (Suc i) :: u64) = Suc i"
    "unat (word_of_nat (length p) :: u64) = length p"
    using u at by (simp_all del: of_nat_Suc)
  have diff: "unat (word_of_nat i - word_of_nat s :: u64) = i - s"
    using at us by (simp add: unat_sub word_le_nat_alt)
  have suc: "(word_of_nat i :: u64) + 1 = word_of_nat (Suc i)" by simp
  have le: "(word_of_nat i :: u64) \<le> word_of_nat (length p)" "(word_of_nat i :: u64) = word_of_nat (length p) \<longleftrightarrow> i = length p"
    "(word_of_nat s :: u64) < word_of_nat i \<longleftrightarrow> s < i" "(word_of_nat (Suc i) :: u64) \<le> word_of_nat (length p) \<longleftrightarrow> Suc i \<le> length p"
    using at us by (simp_all add: word_le_nat_alt word_less_nat_alt word_unat_eq_iff del: of_nat_Suc)
  have out: "list_loop payload (word_of_nat (length p)) (word_of_nat (Suc i)) t ns = Some ns" if "i = length p" for t ns
    using that le(4) by (subst list_loop.simps) (simp del: of_nat_Suc)
  have get: "i < length p \<Longrightarrow> mem_get p i 1 = Some [p ! i]" "s < i \<Longrightarrow> mem_get p s (i - s) = Some (take (i - s) (drop s p))"
    using at by (auto simp: mem_get_def take_Suc_conv_app_nth hd_drop_conv_nth take_Suc)
  note unfold = list_loop.simps [of payload "word_of_nat (length p)" "word_of_nat i" "word_of_nat s"]
  show ?thesis
  proof (cases "i = length p")
    case True
    then have "s < i \<Longrightarrow> payload = Some p" using pay at by auto
    then show ?thesis
      using True get seg out unfolding unfold suc new
      by (auto simp: le [unfolded True] diff [unfolded True] us [unfolded True] printed_plain simp del: of_nat_Suc)
  next
    case False
    then have "payload = Some p" "i < length p" using pay at by auto
    then show ?thesis
      using False get seg unfolding unfold suc new by (simp add: le us diff printed_plain del: of_nat_Suc)
  qed
qed

lemma list_loop_spec:
  assumes len: "length p < 2 ^ 64 - 1" and pay: "payload = Some p \<or> payload = None \<and> p = []"
    and "s \<le> i" and "i \<le> length p" and "0 \<notin> set (take (i - s) (drop s p))"
  shows "list_loop payload (word_of_nat (length p)) (word_of_nat i) (word_of_nat s) names
    = Some (names @ listing (drop s p))"
  using assms(3-5)
proof (induction "length p - i" arbitrary: i s names rule: less_induct)
  case less
  let ?seg = "take (i - s) (drop s p)"
  note step = list_loop_step [OF len pay less.prems refl, of names]
  show ?case
  proof (cases "i = length p")
    case True
    then have "listing (drop s p) = (if s < i then [?seg] else [])"
      using less.prems by (auto simp: listing_def split_zero_plain)
    then show ?thesis using True unfolding step by simp
  next
    case False
    then have i: "i < length p" using less.prems by simp
    have cut: "drop s p = ?seg @ p ! i # drop (Suc i) p"
      using i less.prems(1) by (metis Cons_nth_drop_Suc append_take_drop_id drop_drop le_add_diff_inverse2)
    show ?thesis
    proof (cases "p ! i = 0")
      case True
      have "listing (drop s p) = (if s < i then [?seg] else []) @ listing (drop (Suc i) p)"
        using less.prems True by (subst cut) (auto simp: listing_def split_zero_cut)
      then show ?thesis using False True i less.hyps [of "Suc i" "Suc i"] unfolding step by (simp del: of_nat_Suc)
    next
      case nz: False
      have "take (Suc i - s) (drop s p) = ?seg @ [p ! i]"
        using i less.prems(1) by (simp add: Suc_diff_le take_Suc_conv_app_nth)
      then show ?thesis
        using False nz i less.hyps [of "Suc i" s] less.prems unfolding step by (simp del: of_nat_Suc)
    qed
  qed
qed

text \<open>Names that a server joins with zero bytes come back as they were.\<close>

fun join_zero :: "bytes list \<Rightarrow> bytes" where
  "join_zero [] = []"
| "join_zero [n] = n"
| "join_zero (n # ns) = n @ 0 # join_zero ns"

lemma listing_join:
  "\<forall>n \<in> set ns. n \<noteq> [] \<and> 0 \<notin> set n \<Longrightarrow> listing (join_zero ns) = ns"
  by (induction ns rule: join_zero.induct) (simp_all add: listing_def split_zero_cut split_zero_plain)

section \<open>The connection is opened once or not at all\<close>

lemma connect_loop_eq:
  "connect_loop as w =
     (if Accepts \<in> set as then (Ok True, w\<lparr>open_files := Suc (open_files w)\<rparr>) else (Ok False, w))"
  by (induction as)
    (auto simp: andthen_def attempt_def sock_open_def sock_close_def ret_def split: address.split)

lemma rtrv_connect_eq:
  "rtrv_connect getaddrinfo host port w =
     (case getaddrinfo host port of
        None \<Rightarrow> (Fail, w\<lparr>err := err w @ [CannotResolve host port]\<rparr>)
      | Some as \<Rightarrow>
          if Accepts \<in> set as then (Ok (), w\<lparr>open_files := Suc (open_files w)\<rparr>)
          else (Fail, w\<lparr>err := err w @ [CannotConnect host port]\<rparr>))"
  by (auto simp: rtrv_connect_def andthen_def attempt_def addrinfo_alloc_def connect_loop_eq free_def
      die_def ret_def split: option.split)

section \<open>Commands without arguments\<close>

text \<open>What a session command leaves as it was.\<close>

definition steady :: "world \<Rightarrow> world \<Rightarrow> bool" where
  "steady w w' \<longleftrightarrow> fs w' = fs w \<and> allocs w' = allocs w \<and> open_files w' = open_files w"

lemma wp_exchange:
  assumes reply: "\<And>w' ty len p. avail w = frame_header ty len @ p @ avail w' \<Longrightarrow> length p = unat len \<Longrightarrow>
      unat len \<le> RTRV_PAYLOAD_CAP \<Longrightarrow> steady w (w'\<lparr>allocs := allocs w\<rparr>) \<Longrightarrow> out w' = out w \<Longrightarrow>
      tx w' = tx w @ frame cmd [] \<Longrightarrow> allocs w' = (if len = 0 then allocs w else Suc (allocs w)) \<Longrightarrow>
      wp (f (ty, if len = 0 then None else Some p, len)) Q w'"
    and bad: "\<And>w' k. steady w w' \<Longrightarrow> out w' = out w \<Longrightarrow> tx w' = tx w @ take k (frame cmd []) \<Longrightarrow> wp g Q w'"
  shows "wp (attempt (rtrv_write_frame cmd None 0) (\<lambda>_. attempt rtrv_read_frame f g) g) Q w"
  unfolding wp_attempt
proof (rule wp_write_frame [where p = "[]"], goal_cases)
  case (3 q)
  show ?case
    unfolding outcome.case
  proof (rule wp_read_frame, goal_cases)
    case (1 ty len p w')
    then show ?case
      unfolding outcome.case by (intro reply) (simp_all add: unmoved_def steady_def frame_def)
  next
    case (2 w' d)
    then show ?case
      by simp (rule bad [of _ "length (frame cmd [])"], simp_all add: unmoved_def steady_def frame_def)
  qed
next
  case (4 k q)
  then show ?case by simp (rule bad [of _ k], simp_all add: steady_def frame_def)
qed simp_all

lemma wp_exchange_calm:
  assumes calm: "faults w = []" "TxErr \<notin> set (tx_plan w)"
    and frame: "avail w = frame_header ty len @ p @ rest" "length p = unat len" "unat len \<le> RTRV_PAYLOAD_CAP"
    and reply: "\<And>w'. avail w' = rest \<Longrightarrow> faults w' = [] \<Longrightarrow> TxErr \<notin> set (tx_plan w') \<Longrightarrow>
      steady w (w'\<lparr>allocs := allocs w\<rparr>) \<Longrightarrow> out w' = out w \<Longrightarrow> tx w' = tx w @ Rtrv_Frame.frame cmd [] \<Longrightarrow>
      allocs w' = (if len = 0 then allocs w else Suc (allocs w)) \<Longrightarrow>
      wp (f (ty, if len = 0 then None else Some p, len)) Q w'"
  shows "wp (attempt (rtrv_write_frame cmd None 0) (\<lambda>_. attempt rtrv_read_frame f g) g) Q w"
  unfolding wp_attempt
proof (rule wp_write_frame [where p = "[]"], goal_cases)
  case (3 q)
  show ?case
    unfolding outcome.case
  proof (rule wp_read_frame_calm [OF _ _ frame(2,3), where ty = ty and rest = rest], goal_cases)
    case (3 w')
    then show ?case
      unfolding outcome.case
      by (intro reply) (use \<open>set q \<subseteq> _\<close> calm in \<open>auto simp: unmoved_def steady_def frame_def\<close>)
  qed (use calm frame in simp_all)
next
  case (4 k q)
  then show ?case using calm by simp
qed simp_all

lemma exchange_andthen:
  "andthen (rtrv_write_frame cmd None 0) (\<lambda>_. andthen rtrv_read_frame f) =
   attempt (rtrv_write_frame cmd None 0) (\<lambda>_. attempt rtrv_read_frame f failed) failed"
  by (simp add: andthen_def)

text \<open>What the reply to a command is read with.\<close>

lemma wp_refuse:
  assumes "length p = unat len" and "allocs w = (if len = 0 then n else Suc n)"
    and "\<And>w'. unmoved w w' \<Longrightarrow> allocs w' = n \<Longrightarrow> Q Fail w'"
  shows "wp (andthen (rtrv_report_error (if len = 0 then None else Some p) len)
      (\<lambda>_. andthen (free (if len = 0 then None else Some p)) (\<lambda>_. failed))) Q w"
    and "wp (andthen (complain d) (\<lambda>_. andthen (free (if len = 0 then None else Some p)) (\<lambda>_. failed))) Q w"
proof -
  show "wp (andthen (rtrv_report_error (if len = 0 then None else Some p) len)
      (\<lambda>_. andthen (free (if len = 0 then None else Some p)) (\<lambda>_. failed))) Q w"
    by (rule wp_report_and_free) (use assms in auto)
  have "Q Fail (w\<lparr>err := err w @ [d], allocs := n\<rparr>)"
    by (rule assms(3)) (simp_all add: unmoved_def)
  then show "wp (andthen (complain d) (\<lambda>_. andthen (free (if len = 0 then None else Some p)) (\<lambda>_. failed))) Q w"
    using assms(2) by (auto simp: wp_simps wp_free_payload)
qed

lemma wp_do_hello:
  assumes ok: "\<And>w' len p. avail w = frame_header RTRV_T_OK len @ p @ avail w' \<Longrightarrow> length p = unat len \<Longrightarrow>
      steady w w' \<Longrightarrow> out w' = out w \<Longrightarrow> tx w' = tx w @ frame RTRV_T_HELLO [] \<Longrightarrow> Q (Ok ()) w'"
    and bad: "\<And>w' k. steady w w' \<Longrightarrow> out w' = out w \<Longrightarrow> tx w' = tx w @ take k (frame RTRV_T_HELLO []) \<Longrightarrow> Q Fail w'"
  shows "wp do_hello Q w"
  unfolding do_hello_def exchange_andthen
proof (rule wp_exchange, goal_cases)
  case (1 w1 ty len p)
  note got = 1
  let ?payload = "if len = 0 then None else Some p"
  have held: "allocs w1 = (if ?payload = None then allocs w else Suc (allocs w))" using got by simp
  have no: "Q Fail w'" if "unmoved (w1\<lparr>allocs := allocs w\<rparr>) w'" "allocs w' = allocs w" for w'
    by (rule bad [of _ "length (frame RTRV_T_HELLO [])"]) (use that got in \<open>simp_all add: unmoved_def steady_def\<close>)
  have error: "wp (andthen (rtrv_report_error ?payload len) (\<lambda>_. andthen (free ?payload) (\<lambda>_. failed))) Q w1"
    by (rule wp_refuse [OF got(2,7)]) (rule no, simp_all add: unmoved_def)
  have "Q Fail (w1\<lparr>allocs := allocs w, err := err w1 @ [d]\<rparr>)" for d
    by (rule no) (simp_all add: unmoved_def)
  moreover have "Q (Ok ()) (w1\<lparr>allocs := allocs w\<rparr>)" if "ty = RTRV_T_OK"
    by (rule ok [of len p]) (use that got in simp_all)
  ultimately have "wp (andthen (free ?payload) (\<lambda>_.
       if ty \<noteq> RTRV_T_OK then die (UnexpectedReply ty ''HELLO'') else ret ())) Q w1"
    by (simp add: wp_andthen wp_free_payload [OF held] wp_simps)
  with error show ?case by simp
next
  case (2 w' k)
  then show ?case by (simp add: wp_simps bad)
qed

lemma wp_print_names: "wp (print_names ns) Q w = Q (Ok ()) (w\<lparr>out := out w @ map Listed ns\<rparr>)"
  by (induction ns arbitrary: w) (simp_all add: wp_simps)

lemma wp_do_list:
  assumes ok: "\<And>w' len p. avail w = frame_header RTRV_T_OK len @ p @ avail w' \<Longrightarrow> length p = unat len \<Longrightarrow>
      steady w w' \<Longrightarrow> out w' = out w @ map Listed (listing p) \<Longrightarrow> tx w' = tx w @ frame RTRV_T_LIST [] \<Longrightarrow> Q (Ok ()) w'"
    and bad: "\<And>w' k. steady w w' \<Longrightarrow> out w' = out w \<Longrightarrow> tx w' = tx w @ take k (frame RTRV_T_LIST []) \<Longrightarrow> Q Fail w'"
  shows "wp do_list Q w"
  unfolding do_list_def exchange_andthen
proof (rule wp_exchange, goal_cases)
  case (1 w1 ty len p)
  note got = 1
  let ?payload = "if len = 0 then None else Some p"
  have held: "allocs w1 = (if ?payload = None then allocs w else Suc (allocs w))" using got by simp
  have no: "Q Fail w'" if "unmoved w1 w'" "allocs w' = allocs w" for w'
    by (rule bad [of _ "length (frame RTRV_T_LIST [])"]) (use that got in \<open>simp_all add: unmoved_def steady_def\<close>)
  have refuse: "wp (andthen (rtrv_report_error ?payload len) (\<lambda>_. andthen (free ?payload) (\<lambda>_. failed))) Q w1"
    "wp (andthen (complain d) (\<lambda>_. andthen (free ?payload) (\<lambda>_. failed))) Q w1" for d
    by (rule wp_refuse [OF got(2,7)], rule no, assumption+)+
  have len: "len = word_of_nat (length p)" using got(2) by simp
  have "list_loop ?payload (word_of_nat (length p)) (word_of_nat 0) (word_of_nat 0) [] = Some ([] @ listing (drop 0 p))"
    by (rule list_loop_spec) (use got(2,3) in \<open>auto simp: RTRV_PAYLOAD_CAP_def\<close>)
  then have names: "list_loop ?payload len 0 0 [] = Some (listing p)" by (simp add: len)
  have "Q (Ok ()) (w1\<lparr>out := out w1 @ map Listed (listing p), allocs := allocs w\<rparr>)" if "ty = RTRV_T_OK"
    by (rule ok [of len p]) (use that got in \<open>simp_all add: steady_def\<close>)
  then have "wp (andthen (access (list_loop ?payload len 0 0 [])) (\<lambda>names.
       andthen (print_names names) (\<lambda>_. free ?payload))) Q w1" if "ty = RTRV_T_OK"
    using that held unfolding names by (simp add: wp_andthen wp_access wp_print_names wp_free_payload [of _ _ "allocs w"])
  with refuse show ?case by simp
next
  case (2 w' k)
  then show ?case by (simp add: wp_simps bad)
qed

text \<open>A goodbye that is heard and answered.\<close>

definition heard :: "world \<Rightarrow> bool" where
  "heard w \<longleftrightarrow> faults w = [] \<and> TxErr \<notin> set (tx_plan w) \<and> avail w = frame RTRV_T_OK []"

lemma wp_do_quit:
  assumes "\<And>w' k. steady w w' \<Longrightarrow> out w' = out w \<Longrightarrow> tx w' = tx w @ take k (frame RTRV_T_QUIT []) \<Longrightarrow>
      (heard w \<longrightarrow> tx w' = tx w @ frame RTRV_T_QUIT []) \<Longrightarrow> Q (Ok ()) w'"
  shows "wp do_quit Q w"
proof -
  have freed: "wp (free (if len = 0 then None else Some (p :: bytes))) Q w'"
    if "steady w (w'\<lparr>allocs := allocs w\<rparr>)" "out w' = out w" "tx w' = tx w @ frame RTRV_T_QUIT []"
      "allocs w' = (if len = 0 then allocs w else Suc (allocs w))" for w' p and len :: u64
  proof -
    have "Q (Ok ()) (w'\<lparr>allocs := allocs w\<rparr>)"
      by (rule assms [of _ "length (frame RTRV_T_QUIT [])"]) (use that in simp_all)
    then show ?thesis using that by (auto simp: wp_free_payload [where n = "allocs w"])
  qed
  show ?thesis
  proof (cases "heard w")
    case True
    then have calm: "faults w = []" "TxErr \<notin> set (tx_plan w)" "avail w = frame_header RTRV_T_OK 0 @ [] @ []"
      by (simp_all add: heard_def frame_def)
    show ?thesis
      unfolding do_quit_def
      by (rule wp_exchange_calm [OF calm]) (use freed [of _ 0] in \<open>simp_all add: RTRV_PAYLOAD_CAP_def\<close>)
  next
    case False
    show ?thesis
      unfolding do_quit_def
    proof (rule wp_exchange, goal_cases)
      case (1 w1 ty len p)
      then show ?case using freed by simp
    next
      case (2 w' k)
      then show ?case using False by (simp add: wp_simps assms)
    qed
  qed
qed

section \<open>The command line\<close>

text \<open>The usage text as a grammar.\<close>

definition command_line :: "string list \<Rightarrow> (string \<times> string \<times> string \<times> string \<times> string) option" where
  "command_line argv =
     (case argv of
        [_, host, port, c] \<Rightarrow> if c = ''list'' then Some (host, port, c, [], []) else None
      | [_, host, port, c, n] \<Rightarrow> if c = ''get'' \<or> c = ''put'' then Some (host, port, c, n, path_base n) else None
      | [_, host, port, c, n, m] \<Rightarrow> if c = ''put'' then Some (host, port, c, n, m) else None
      | [_, host, port, c, n, opt, m] \<Rightarrow> if c = ''get'' \<and> opt = ''-o'' then Some (host, port, c, n, m) else None
      | _ \<Rightarrow> None)"

lemma basename_of_eq: "basename_of p = path_base p"
  by (simp add: basename_of_def path_base_def)

lemma bad_usage_eq:
  "argv \<noteq> [] \<Longrightarrow> andthen (usage argv) (\<lambda>_. failed) w = (Fail, w\<lparr>err := err w @ [Usage (argv ! 0)]\<rparr>)"
  by (simp add: usage_def arg_def andthen_def attempt_def access_def complain_def failed_def)

lemma unknown_usage_eq:
  "argv \<noteq> [] \<Longrightarrow> andthen (complain d) (\<lambda>_. andthen (usage argv) (\<lambda>_. failed)) w
     = (Fail, w\<lparr>err := err w @ [d, Usage (argv ! 0)]\<rparr>)"
  by (simp add: andthen_def [of "complain d"] attempt_def [of "complain d"] complain_def bad_usage_eq)

lemma main_args_eq:
  assumes "argv \<noteq> []"
  shows "main_args argv w =
    (case command_line argv of
       Some x \<Rightarrow> (Ok x, w)
     | None \<Rightarrow>
         (Fail, w\<lparr>err := err w @
            (if 4 \<le> length argv \<and> argv ! 3 \<notin> {''list'', ''get'', ''put''} then [UnknownCommand (argv ! 3)] else []) @
            [Usage (argv ! 0)]\<rparr>))"
proof (cases "length argv < 4")
  case True
  then have "command_line argv = None" by (auto simp: command_line_def split: list.splits)
  then show ?thesis using True by (simp add: main_args_def bad_usage_eq [OF assms])
next
  case False
  then obtain a h p c r where argv: "argv = a # h # p # c # r"
    by (auto simp: not_less numeral_eq_Suc Suc_le_length_iff)
  note defs = argv main_args_def command_line_def Let_def ret_def basename_of_eq bad_usage_eq unknown_usage_eq
  consider "r = []" | n where "r = [n]" | n m where "r = [n, m]" | n opt m where "r = [n, opt, m]"
    | n opt m x y where "r = n # opt # m # x # y"
    by (metis list.exhaust)
  moreover consider "c = ''list''" | "c = ''get''" | "c = ''put''" | "c \<noteq> ''list''" "c \<noteq> ''get''" "c \<noteq> ''put''"
    by blast
  ultimately show ?thesis
    by (cases; cases; simp add: defs)
qed

section \<open>The whole program\<close>

lemma wp_sock_close: "open_files w = Suc n \<Longrightarrow> wp sock_close Q w = Q (Ok ()) (w\<lparr>open_files := n\<rparr>)"
  by (simp add: wp_def sock_close_def)

lemma wp_main_args:
  assumes "argv \<noteq> []" and "\<And>e. command_line argv = None \<Longrightarrow> Q Fail (w\<lparr>err := e\<rparr>)"
    and "\<And>x. command_line argv = Some x \<Longrightarrow> Q (Ok x) w"
  shows "wp (main_args argv) Q w"
  using assms by (auto simp: wp_def main_args_eq split: option.split)

lemma wp_connect:
  assumes "\<And>e. Q Fail (w\<lparr>err := e\<rparr>)" and "Q (Ok ()) (w\<lparr>open_files := Suc (open_files w)\<rparr>)"
  shows "wp (rtrv_connect getaddrinfo host port) Q w"
  using assms by (auto simp: wp_def rtrv_connect_eq split: option.split)

text \<open>The command that a session runs.\<close>

definition session_command :: "string \<Rightarrow> string \<Rightarrow> string \<Rightarrow> unit cmd" where
  "session_command command name other =
     (if command = ''list'' then do_list
      else if command = ''get'' then rtrv_do_get name other
      else rtrv_do_put name other)"

text \<open>
  What a session makes of its command: the descriptor is closed, a failure is exit status 1, and a
  success is exit status 0 whatever becomes of the goodbye; one that can be heard is sent in full.
\<close>

definition session_post :: "(int outcome \<Rightarrow> world \<Rightarrow> bool) \<Rightarrow> nat \<Rightarrow> unit outcome \<Rightarrow> world \<Rightarrow> bool" where
  "session_post Q n r w \<longleftrightarrow> open_files w = Suc n \<and>
     (case r of
        Ok _ \<Rightarrow> \<forall>w' k. steady (w\<lparr>open_files := n\<rparr>) w' \<and> out w' = out w \<and>
          tx w' = tx w @ take k (frame RTRV_T_QUIT []) \<and> (heard w \<longrightarrow> tx w' = tx w @ frame RTRV_T_QUIT []) \<longrightarrow> Q (Ok 0) w'
      | Fail \<Rightarrow> Q (Ok EXIT_SERVER) (w\<lparr>open_files := n\<rparr>)
      | Undef \<Rightarrow> False)"

lemma wp_after_command:
  assumes "wp m (session_post Q n) w"
  shows "wp (attempt m (\<lambda>_. andthen do_quit (\<lambda>_. ret 0)) (ret EXIT_SERVER))
      (\<lambda>r w'. case r of Ok status \<Rightarrow> wp (andthen sock_close (\<lambda>_. ret status)) Q w'
        | Fail \<Rightarrow> Q Fail w' | Undef \<Rightarrow> Q Undef w') w"
  unfolding wp_attempt
proof (rule wp_mono [OF assms], goal_cases)
  case (1 r w2)
  then have o2: "open_files w2 = Suc n" by (simp add: session_post_def)
  show ?case
  proof (cases r)
    case (Ok u)
    then have post: "\<forall>w3 k. steady (w2\<lparr>open_files := n\<rparr>) w3 \<and> out w3 = out w2 \<and>
        tx w3 = tx w2 @ take k (frame RTRV_T_QUIT []) \<and> (heard w2 \<longrightarrow> tx w3 = tx w2 @ frame RTRV_T_QUIT []) \<longrightarrow> Q (Ok 0) w3"
      using 1 by (simp add: session_post_def)
    have "wp do_quit (\<lambda>r w'. case r of Ok _ \<Rightarrow> wp (andthen sock_close (\<lambda>_. ret 0)) Q w'
        | Fail \<Rightarrow> Q Fail w' | Undef \<Rightarrow> Q Undef w') w2"
    proof (rule wp_do_quit, goal_cases)
      case (1 w3 k)
      then have "Q (Ok 0) (w3\<lparr>open_files := n\<rparr>)"
        by (intro post [rule_format, of _ k]) (simp add: steady_def)
      then show ?case using 1 o2 by (simp add: wp_simps wp_sock_close steady_def)
    qed
    then show ?thesis using Ok by (simp add: wp_simps cong: outcome.case_cong)
  qed (use 1 in \<open>simp_all add: session_post_def wp_simps wp_sock_close [OF o2]\<close>)
qed

text \<open>
  The ways a run can end: a usage mistake; no connection, or a refused handshake; the end of the
  command's session.
\<close>

lemma wp_retriever_main:
  assumes argv: "argv \<noteq> []"
    and usage: "\<And>e. command_line argv = None \<Longrightarrow> Q (Ok EXIT_LOCAL) (w\<lparr>err := e\<rparr>)"
    and conn: "\<And>w' k. command_line argv \<noteq> None \<Longrightarrow> steady w w' \<Longrightarrow> out w' = out w \<Longrightarrow>
      tx w' = tx w @ take k (frame RTRV_T_HELLO []) \<Longrightarrow> Q (Ok EXIT_CONN) w'"
    and run: "\<And>host port c n m w1 len p. command_line argv = Some (host, port, c, n, m) \<Longrightarrow>
      avail w = frame_header RTRV_T_OK len @ p @ avail w1 \<Longrightarrow> length p = unat len \<Longrightarrow>
      fs w1 = fs w \<Longrightarrow> allocs w1 = allocs w \<Longrightarrow> open_files w1 = Suc (open_files w) \<Longrightarrow> out w1 = out w \<Longrightarrow>
      tx w1 = tx w @ frame RTRV_T_HELLO [] \<Longrightarrow> wp (session_command c n m) (session_post Q (open_files w)) w1"
  shows "wp (retriever_main getaddrinfo argv) Q w"
proof (cases "command_line argv")
  case None
  then show ?thesis using usage
    unfolding retriever_main_def wp_attempt
    by (intro wp_main_args [OF argv]) (simp_all add: wp_simps)
next
  case (Some x)
  obtain host port c n m where x: "x = (host, port, c, n, m)" by (cases x) auto
  have session: "wp (main_session c n m)
      (\<lambda>r w'. case r of Ok status \<Rightarrow> wp (andthen sock_close (\<lambda>_. ret status)) Q w'
        | Fail \<Rightarrow> Q Fail w' | Undef \<Rightarrow> Q Undef w') (w\<lparr>open_files := Suc (open_files w)\<rparr>)"
    unfolding main_session_def session_command_def [symmetric] wp_attempt [of do_hello]
  proof (rule wp_do_hello, goal_cases)
    case (2 w' k)
    then have "Q (Ok EXIT_CONN) (w'\<lparr>open_files := open_files w\<rparr>)"
      by (intro conn [of _ k]) (simp_all add: Some steady_def)
    then show ?case using 2 by (simp add: wp_simps wp_sock_close steady_def)
  next
    case (1 w1 len p)
    have "wp (session_command c n m) (session_post Q (open_files w)) w1"
      by (rule run [OF Some [unfolded x], of len p]) (use 1 in \<open>simp_all add: steady_def\<close>)
    then show ?case unfolding outcome.case by (rule wp_after_command)
  qed
  have no: "Q (Ok EXIT_CONN) (w\<lparr>err := e\<rparr>)" for e
    by (rule conn [of _ 0]) (simp_all add: Some steady_def)
  have "wp (attempt (rtrv_connect getaddrinfo host port)
            (\<lambda>_. andthen (main_session c n m) (\<lambda>status. andthen sock_close (\<lambda>_. ret status)))
            (ret EXIT_CONN)) Q w"
    unfolding wp_attempt wp_andthen [of "main_session c n m"]
    by (rule wp_connect) (use session no in \<open>simp_all add: wp_simps\<close>)
  then show ?thesis
    unfolding retriever_main_def wp_attempt [of "main_args argv"]
    by (intro wp_main_args [OF argv]) (auto simp: Some x)
qed

text \<open>What a command may change of the files: only a download changes any.\<close>

definition command_frame :: "string \<Rightarrow> string \<Rightarrow> filesys \<Rightarrow> filesys \<Rightarrow> bool" where
  "command_frame c m f f' \<longleftrightarrow>
     (if c = ''get'' then files.same_except (insert (resolve m) (partial_keys m)) f f' else f' = f)"

lemma wp_command_safe:
  "wp (session_command c n m) (\<lambda>r w'. r \<noteq> Undef \<and> allocs w' = allocs w \<and>
     open_files w' = open_files w \<and> command_frame c m (fs w) (fs w')) w"
proof -
  have "wp do_list (\<lambda>r w'. r \<noteq> Undef \<and> allocs w' = allocs w \<and> open_files w' = open_files w \<and> fs w' = fs w) w"
    by (rule wp_do_list) (simp_all add: steady_def)
  moreover have "wp (rtrv_do_put n m) (\<lambda>r w'. r \<noteq> Undef \<and> allocs w' = allocs w \<and> open_files w' = open_files w \<and> fs w' = fs w) w"
    by (rule wp_do_put) simp_all
  moreover note wp_get_safe [of n m w]
  ultimately show ?thesis
    by (auto simp: session_command_def command_frame_def)
qed

text \<open>A predicate that every end of a run satisfies once the command does.\<close>

lemma wp_main_by_command:
  assumes argv: "argv \<noteq> []"
    and quiet: "\<And>w' s. steady w w' \<Longrightarrow> s = EXIT_LOCAL \<or> s = EXIT_CONN \<Longrightarrow> P s w'"
    and command: "\<And>host port c n m w1 len p. command_line argv = Some (host, port, c, n, m) \<Longrightarrow>
      avail w = frame_header RTRV_T_OK len @ p @ avail w1 \<Longrightarrow> length p = unat len \<Longrightarrow>
      fs w1 = fs w \<Longrightarrow> allocs w1 = allocs w \<Longrightarrow>
      wp (session_command c n m) (\<lambda>r w2. (case r of
          Ok _ \<Rightarrow> \<forall>w3. steady (w2\<lparr>open_files := open_files w\<rparr>) w3 \<longrightarrow> P 0 w3
        | Fail \<Rightarrow> P EXIT_SERVER (w2\<lparr>open_files := open_files w\<rparr>) | Undef \<Rightarrow> True)) w1"
  shows "wp (retriever_main getaddrinfo argv) (\<lambda>r w'. case r of Ok s \<Rightarrow> P s w' | _ \<Rightarrow> False) w"
proof (rule wp_retriever_main [OF argv], goal_cases)
  case (3 host port c n m w1 len p)
  have "wp (session_command c n m) (\<lambda>r w2. (case r of
        Ok _ \<Rightarrow> \<forall>w3. steady (w2\<lparr>open_files := open_files w\<rparr>) w3 \<longrightarrow> P 0 w3
      | Fail \<Rightarrow> P EXIT_SERVER (w2\<lparr>open_files := open_files w\<rparr>) | Undef \<Rightarrow> True) \<and>
      r \<noteq> Undef \<and> open_files w2 = open_files w1) w1"
    using command [OF 3(1-5)] wp_command_safe [of c n m w1] by (auto simp: wp_def)
  then show ?case
    by (rule wp_mono) (use 3(6) in \<open>auto simp: session_post_def split: outcome.splits\<close>)
qed (use quiet in \<open>auto simp: steady_def\<close>)

section \<open>Undisturbed sessions\<close>

lemma wp_do_hello_calm:
  assumes calm: "faults w = []" "TxErr \<notin> set (tx_plan w)"
    and frame: "avail w = frame_header RTRV_T_OK len @ p @ rest" "length p = unat len" "unat len \<le> RTRV_PAYLOAD_CAP"
    and Q: "\<And>w'. avail w' = rest \<Longrightarrow> faults w' = [] \<Longrightarrow> TxErr \<notin> set (tx_plan w') \<Longrightarrow>
      steady w w' \<Longrightarrow> out w' = out w \<Longrightarrow> tx w' = tx w @ Rtrv_Frame.frame RTRV_T_HELLO [] \<Longrightarrow> Q (Ok ()) w'"
  shows "wp do_hello Q w"
  unfolding do_hello_def exchange_andthen
proof (rule wp_exchange_calm [OF calm frame], goal_cases)
  case (1 w')
  have "Q (Ok ()) (w'\<lparr>allocs := allocs w\<rparr>)" by (rule Q) (use 1 in simp_all)
  then show ?case
    using 1(7) by (simp add: frame_types wp_andthen wp_free_payload [where n = "allocs w"] wp_simps)
qed

lemma wp_do_list_calm:
  assumes calm: "faults w = []" "TxErr \<notin> set (tx_plan w)"
    and frame: "avail w = frame_header RTRV_T_OK len @ p @ rest" "length p = unat len" "unat len \<le> RTRV_PAYLOAD_CAP"
    and Q: "\<And>w'. avail w' = rest \<Longrightarrow> steady w w' \<Longrightarrow> out w' = out w @ map Listed (listing p) \<Longrightarrow>
      tx w' = tx w @ Rtrv_Frame.frame RTRV_T_LIST [] \<Longrightarrow> faults w' = [] \<Longrightarrow> TxErr \<notin> set (tx_plan w') \<Longrightarrow> Q (Ok ()) w'"
  shows "wp do_list Q w"
  unfolding do_list_def exchange_andthen
proof (rule wp_exchange_calm [OF calm frame], goal_cases)
  case (1 w1)
  let ?payload = "if len = 0 then None else Some p"
  have held: "allocs w1 = (if ?payload = None then allocs w else Suc (allocs w))" using 1 by simp
  have "list_loop ?payload (word_of_nat (length p)) (word_of_nat 0) (word_of_nat 0) [] = Some ([] @ listing (drop 0 p))"
    by (rule list_loop_spec) (use frame(2,3) in \<open>auto simp: RTRV_PAYLOAD_CAP_def\<close>)
  then have names: "list_loop ?payload len 0 0 [] = Some (listing p)" using frame(2) by simp
  have "Q (Ok ()) (w1\<lparr>out := out w1 @ map Listed (listing p), allocs := allocs w\<rparr>)"
    by (rule Q) (use 1 in \<open>simp_all add: steady_def\<close>)
  then have "wp (andthen (access (list_loop ?payload len 0 0 [])) (\<lambda>names.
       andthen (print_names names) (\<lambda>_. free ?payload))) Q w1"
    using held unfolding names by (simp add: wp_andthen wp_access wp_print_names wp_free_payload [of _ _ "allocs w"])
  then show ?case by (simp add: frame_types)
qed

text \<open>A whole run up to the command.\<close>

lemma wp_main_calm:
  assumes argv: "argv \<noteq> []" "command_line argv = Some (host, port, c, n, m)"
    and peer: "getaddrinfo host port = Some as" "Accepts \<in> set as"
    and calm: "faults w = []" "TxErr \<notin> set (tx_plan w)"
    and hello: "avail w = frame_header RTRV_T_OK len @ p @ rest" "length p = unat len" "unat len \<le> RTRV_PAYLOAD_CAP"
    and run: "\<And>w1. avail w1 = rest \<Longrightarrow> faults w1 = [] \<Longrightarrow> TxErr \<notin> set (tx_plan w1) \<Longrightarrow>
      fs w1 = fs w \<Longrightarrow> allocs w1 = allocs w \<Longrightarrow> open_files w1 = Suc (open_files w) \<Longrightarrow> out w1 = out w \<Longrightarrow>
      tx w1 = tx w @ frame RTRV_T_HELLO [] \<Longrightarrow> wp (session_command c n m) (session_post Q (open_files w)) w1"
  shows "wp (retriever_main getaddrinfo argv) Q w"
proof -
  have session: "wp (main_session c n m)
      (\<lambda>r w'. case r of Ok status \<Rightarrow> wp (andthen sock_close (\<lambda>_. ret status)) Q w'
        | Fail \<Rightarrow> Q Fail w' | Undef \<Rightarrow> Q Undef w') (w\<lparr>open_files := Suc (open_files w)\<rparr>)"
    unfolding main_session_def session_command_def [symmetric] wp_attempt [of do_hello]
  proof (rule wp_do_hello_calm [OF _ _ _ hello(2,3), where rest = rest], goal_cases)
    case (4 w1)
    have "wp (session_command c n m) (session_post Q (open_files w)) w1"
      by (rule run) (use 4 in \<open>simp_all add: steady_def\<close>)
    then show ?case unfolding outcome.case by (rule wp_after_command)
  qed (use calm hello in simp_all)
  have c: "rtrv_connect getaddrinfo host port w = (Ok (), w\<lparr>open_files := Suc (open_files w)\<rparr>)"
    using peer by (simp add: rtrv_connect_eq)
  show ?thesis
    unfolding retriever_main_def wp_attempt [of "main_args argv"]
  proof (rule wp_main_args [OF argv(1)], goal_cases)
    case (2 x)
    then show ?case
      using session argv(2)
      by (auto simp: wp_attempt wp_run [where m = "rtrv_connect getaddrinfo host port" and w = w, OF c] wp_andthen)
  qed (use argv in simp)
qed

end
