(* ===== verification/Rtrv_Py_Client.thy ===== *)
theory Rtrv_Py_Client
  imports Rtrv_Py_World Rtrv_Session "HOL-Library.Char_ord" "HOL-Library.List_Lexorder"
begin

text \<open>
  The Python client, \<open>src/retriever/client.py\<close>, with the functions of \<open>src/retriever/protocol.py\<close> that
  only it uses. The command line is taken as parsed. A Python string is represented by the characters
  of its UTF-8 encoding.
\<close>

section \<open>Text\<close>

definition unpack_error :: "bytes \<Rightarrow> (byte \<times> string) proc" where
  "unpack_error payload =
     (if length payload < 3 then Raise (FrameError E_MALFORMED ''error payload shorter than 3 bytes'')
      else let reason = payload ! 0; msg_len = from_bytes (take 2 (drop 1 payload)) in
        if length payload \<noteq> 3 + msg_len
        then Raise (FrameError E_MALFORMED ''error payload length does not match msg_len'')
        else bind (decode_utf8 (drop 3 payload)) (\<lambda>message. Return (reason, message)))"

section \<open>Partials\<close>

fun split_dots :: "string \<Rightarrow> string list" where
  "split_dots [] = [[]]"
| "split_dots (c # s) =
     (if c = CHR ''.'' then [] # split_dots s
      else case split_dots s of [] \<Rightarrow> [[c]] | x # xs \<Rightarrow> (c # x) # xs)"

text \<open>\<open>bytes.fromhex\<close>: pairs of digits, white space between them.\<close>

fun bytes_fromhex :: "string \<Rightarrow> bytes option" where
  "bytes_fromhex [] = Some []"
| "bytes_fromhex (c # s) =
     (if isspace c then bytes_fromhex s
      else case s of
             [] \<Rightarrow> None
           | d # s \<Rightarrow>
               (case (hex_value c, hex_value d) of
                  (Some x, Some y) \<Rightarrow> map_option ((#) (ucast (16 * x + y))) (bytes_fromhex s)
                | _ \<Rightarrow> None))"

definition partial_token :: "string \<Rightarrow> bytes option" where
  "partial_token path =
     (let parts = split_dots (snd (os_path_split path)) in
      if length parts < 4 \<or> last parts \<noteq> ''part'' then None
      else case bytes_fromhex (parts ! (length parts - 2)) of
             None \<Rightarrow> None
           | Some token \<Rightarrow> if length token = TOKEN_SIZE then Some token else None)"

text \<open>
  The names that the pattern \<open>.<base>.*.part\<close> finds when the base is escaped, and the directories to
  look in: \<open>dirs\<close> is what \<open>glob\<close> finds for a directory part with wildcards of its own, which is not
  escaped.
\<close>

definition partial_glob :: "string \<Rightarrow> string \<Rightarrow> bool" where
  "partial_glob base name \<longleftrightarrow> length base + 7 \<le> length name \<and>
     take (length base + 2) name = ''.'' @ base @ ''.'' \<and> drop (length name - 5) name = ''.part''"

definition has_magic :: "string \<Rightarrow> bool" where
  "has_magic s \<longleftrightarrow> CHR ''*'' \<in> set s \<or> CHR ''?'' \<in> set s \<or> CHR ''['' \<in> set s"

definition glob_dir :: "string \<Rightarrow> string \<Rightarrow> string list py" where
  "glob_dir base d =
     py_bind (scandir (if d = [] then ''.'' else d)) (\<lambda>es.
     py_return (map (os_path_join d) (filter (partial_glob base) es)))"

primrec glob_dirs :: "string \<Rightarrow> string list \<Rightarrow> string list py" where
  "glob_dirs base [] = py_return []"
| "glob_dirs base (d # ds) =
     py_bind (glob_dir base d) (\<lambda>ms. py_bind (glob_dirs base ds) (\<lambda>rest. py_return (ms @ rest)))"

definition find_partial :: "(filesys \<Rightarrow> string \<Rightarrow> string list) \<Rightarrow> string \<Rightarrow> string option py" where
  "find_partial dirs name =
     (let (directory, base) = os_path_split name in
      py_bind (py_ask (\<lambda>f. if has_magic directory then dirs f directory else [directory])) (\<lambda>ds.
      py_bind (glob_dirs base ds) (\<lambda>matches.
      py_return (if length matches = 1 then Some (matches ! 0) else None))))"

section \<open>The commands\<close>

definition PY_EXIT_SERVER :: nat where "PY_EXIT_SERVER = 1"
definition PY_EXIT_LOCAL :: nat where "PY_EXIT_LOCAL = 2"
definition PY_EXIT_CONN :: nat where "PY_EXIT_CONN = 3"

definition fail :: "nat \<Rightarrow> diag \<Rightarrow> 'a py" where
  "fail code message w = (Inl (Exit code), w\<lparr>err := err w @ [message]\<rparr>)"

text \<open>\<open>reached\<close> says whether \<open>socket.create_connection\<close> succeeds.\<close>

definition py_connect :: "bool \<Rightarrow> string \<Rightarrow> int \<Rightarrow> unit py" where
  "py_connect reached host port =
     (if \<not> reached then fail PY_EXIT_CONN (CannotReach host port)
      else py_bind (lib sock_open) (\<lambda>_.
           py_bind (net (write_frame T_HELLO [])) (\<lambda>_.
           py_bind (net read_frame) (\<lambda>(frame_type, payload).
           if frame_type = T_ERROR then
             py_bind (net (unpack_error payload)) (\<lambda>(reason, message).
             fail PY_EXIT_SERVER (RefusedConnection message))
           else py_return ()))))"

definition read_error_payload :: "nat \<Rightarrow> (byte \<times> string) proc" where
  "read_error_payload payload_len =
     (if payload_len > the (PAYLOAD_CAPS T_ERROR)
      then Raise (FrameError E_MALFORMED ''oversized error frame from server'')
      else bind (read_exact_bytes payload_len) unpack_error)"

text \<open>\<open>[n.decode("utf-8") for n in payload.split(b"\x00") if n]\<close>\<close>

primrec decode_names :: "bytes list \<Rightarrow> string list proc" where
  "decode_names [] = Return []"
| "decode_names (n # ns) =
     (if n = [] then decode_names ns
      else bind (decode_utf8 n) (\<lambda>s. bind (decode_names ns) (\<lambda>ss. Return (s # ss))))"

primrec print_names :: "string list \<Rightarrow> unit py" where
  "print_names [] = py_return ()"
| "print_names (n # ns) = py_bind (py_print (Listed (encode n))) (\<lambda>_. print_names ns)"

text \<open>Strings are sorted by code points, which is the order of their UTF-8 bytes.\<close>

definition py_do_list :: "unit py" where
  "py_do_list =
     py_bind (net (write_frame T_LIST [])) (\<lambda>_.
     py_bind (net read_frame) (\<lambda>(frame_type, payload).
     if frame_type = T_ERROR then
       py_bind (net (unpack_error payload)) (\<lambda>(_, message). fail PY_EXIT_SERVER (Refused message))
     else
       py_bind (net (decode_names (split_zero payload))) (\<lambda>names.
       py_bind (print_names (sort names)) (\<lambda>_.
       if names = [] then py_warn EmptyListing else py_return ()))))"

text \<open>\<open>given or os.path.basename(filename)\<close>\<close>

definition name_or_base :: "string option \<Rightarrow> string \<Rightarrow> string" where
  "name_or_base given filename =
     (case given of Some s \<Rightarrow> if s \<noteq> [] then s else snd (os_path_split filename) | None \<Rightarrow> snd (os_path_split filename))"

text \<open>The partial to resume from, its size and its token.\<close>

definition py_offer :: "(filesys \<Rightarrow> string \<Rightarrow> string list) \<Rightarrow> string \<Rightarrow> (string option \<times> nat \<times> bytes) py" where
  "py_offer dirs dest =
     py_bind (find_partial dirs dest) (\<lambda>existing. case existing of
       None \<Rightarrow> py_return (None, 0, replicate TOKEN_SIZE 0)
     | Some p \<Rightarrow>
         py_bind (os_path_getsize p) (\<lambda>offset.
         py_return (Some p, offset, case partial_token p of Some t \<Rightarrow> t | None \<Rightarrow> replicate TOKEN_SIZE 0)))"

definition get_payload :: "nat \<Rightarrow> bytes \<Rightarrow> string \<Rightarrow> bytes proc" where
  "get_payload offset token filename =
     bind (encode_utf8 filename) (\<lambda>name_bytes.
     bind (to_bytes 8 offset) (\<lambda>o8.
     bind (to_bytes 2 (length name_bytes)) (\<lambda>l2.
     Return (o8 @ token @ l2 @ name_bytes))))"

function py_get_loop :: "ofile \<Rightarrow> int \<Rightarrow> unit py" where
  "py_get_loop f remaining =
     (if remaining > 0 then
        py_bind (net (call (Recv (nat (min 65536 remaining))) data)) (\<lambda>chunk.
        if chunk = [] then throw ConnectionErr
        else py_bind (file_write f chunk) (\<lambda>_. py_get_loop f (remaining - int (length chunk))))
      else py_return ())"
  by pat_completeness auto
termination
  by (relation "measure (\<lambda>(f, remaining). nat remaining)") auto

declare py_get_loop.simps [simp del]

definition py_publish :: "string \<Rightarrow> string \<Rightarrow> string \<Rightarrow> bytes \<Rightarrow> nat \<Rightarrow> unit py" where
  "py_publish filename dest partial digest total_size =
     py_bind (py_sha256_file partial) (\<lambda>actual.
     if actual \<noteq> digest then
       py_bind (os_remove partial) (\<lambda>_. fail PY_EXIT_CONN HashMismatch)
     else
       py_bind (os_replace partial dest) (\<lambda>_.
       py_print (Downloaded filename (word_of_nat total_size) dest)))"

definition py_receive :: "string \<Rightarrow> string \<Rightarrow> string option \<Rightarrow> bytes \<Rightarrow> unit py" where
  "py_receive filename dest existing meta =
     (let total_size = from_bytes (take 8 meta); start = from_bytes (take 8 (drop 8 meta)); digest = drop 16 meta;
          partial = partial_name dest digest
      in py_bind (if start \<noteq> 0 then py_print (Resuming filename (word_of_nat start))
                  else case existing of Some p \<Rightarrow> os_remove p | None \<Rightarrow> py_return ()) (\<lambda>_.
         py_bind (py_try
            (py_bind (open_out partial (start \<noteq> 0)) (\<lambda>f.
             py_finally (py_get_loop f (int total_size - int start)) (close_out f)))
            (\<lambda>e. fail PY_EXIT_CONN DownloadInterrupted)) (\<lambda>_.
         py_publish filename dest partial digest total_size)))"

definition py_do_get :: "(filesys \<Rightarrow> string \<Rightarrow> string list) \<Rightarrow> string \<Rightarrow> string option \<Rightarrow> unit py" where
  "py_do_get dirs filename output =
     (let dest = name_or_base output filename in
      py_bind (py_ask (\<lambda>f. node_at f dest \<noteq> None)) (\<lambda>exists.
      if exists then fail PY_EXIT_LOCAL (ExistsLocally dest)
      else
        py_bind (py_offer dirs dest) (\<lambda>(existing, offset, token).
        py_bind (net (bind (get_payload offset token filename) (write_frame T_GET))) (\<lambda>_.
        py_bind (net read_frame_header) (\<lambda>(frame_type, payload_len).
        if frame_type = T_ERROR then
          py_bind (net (read_error_payload payload_len)) (\<lambda>(_, message). fail PY_EXIT_SERVER (Refused message))
        else
          py_bind (net (read_exact_bytes GET_META)) (py_receive filename dest existing))))))"

function py_put_loop :: "ifile \<Rightarrow> int \<Rightarrow> unit py" where
  "py_put_loop f remaining =
     (if remaining > 0 then
        py_bind (file_read f (nat (min 65536 remaining))) (\<lambda>(chunk, f).
        if chunk = [] then py_return ()
        else py_bind (net (perform_call (SendAll chunk))) (\<lambda>_.
             py_put_loop f (remaining - int (length chunk))))
      else py_return ())"
  by pat_completeness auto
termination
  by (relation "measure (\<lambda>(f, remaining). nat remaining)") auto

declare py_put_loop.simps [simp del]

definition put_payload :: "nat \<Rightarrow> bytes \<Rightarrow> string \<Rightarrow> bytes proc" where
  "put_payload file_size digest remote =
     bind (encode_utf8 remote) (\<lambda>name_bytes.
     bind (to_bytes 8 file_size) (\<lambda>s8.
     bind (to_bytes 2 (length name_bytes)) (\<lambda>l2.
     Return (s8 @ digest @ l2 @ name_bytes))))"

text \<open>A reply to a PUT: an ERROR frame ends the program.\<close>

definition py_put_reply :: "bytes py" where
  "py_put_reply =
     py_bind (net read_frame) (\<lambda>(frame_type, payload).
     if frame_type = T_ERROR then
       py_bind (net (unpack_error payload)) (\<lambda>(_, message). fail PY_EXIT_SERVER (Refused message))
     else py_return payload)"

definition py_do_put :: "string \<Rightarrow> string option \<Rightarrow> unit py" where
  "py_do_put filename remote_name =
     py_bind (py_ask (\<lambda>f. case node_at f filename of Some (File _) \<Rightarrow> True | _ \<Rightarrow> False)) (\<lambda>isfile.
     if \<not> isfile then fail PY_EXIT_LOCAL (NotFoundLocally filename)
     else
       py_bind (os_path_getsize filename) (\<lambda>file_size.
       py_bind (py_sha256_file filename) (\<lambda>digest.
       let remote = name_or_base remote_name filename in
       py_bind (net (bind (put_payload file_size digest remote) (write_frame T_PUT))) (\<lambda>_.
       py_bind py_put_reply (\<lambda>payload.
       let resume_offset = from_bytes (take 8 payload) in
       py_bind (if resume_offset \<noteq> 0 then py_print (ResumingUpload (word_of_nat resume_offset)) else py_return ()) (\<lambda>_.
       py_bind (py_bind (open_in filename) (\<lambda>f.
          py_finally (py_bind (file_seek f resume_offset) (\<lambda>f. py_put_loop f (int file_size - int resume_offset)))
            (close_in f))) (\<lambda>_.
       py_bind py_put_reply (\<lambda>_.
       py_print (Uploaded filename (word_of_nat file_size) remote)))))))))"

section \<open>The program\<close>

datatype py_command = PyList | PyGet string "string option" | PyPut string "string option"

definition py_command_run :: "(filesys \<Rightarrow> string \<Rightarrow> string list) \<Rightarrow> py_command \<Rightarrow> unit py" where
  "py_command_run dirs command =
     (case command of
        PyList \<Rightarrow> py_do_list
      | PyGet filename output \<Rightarrow> py_do_get dirs filename output
      | PyPut filename remote_name \<Rightarrow> py_do_put filename remote_name)"

definition py_goodbye :: "unit py" where
  "py_goodbye = py_bind (net (write_frame T_QUIT [])) (\<lambda>_. py_bind (net read_frame) (\<lambda>_. py_return ()))"

text \<open>The \<open>except\<close> clauses of \<open>main\<close>; an exception that none of them takes goes on.\<close>

definition py_report :: "exc \<Rightarrow> unit py" where
  "py_report e = (case e of
       FrameError _ message \<Rightarrow> fail PY_EXIT_CONN (ProtocolError message)
     | TimeoutErr \<Rightarrow> fail PY_EXIT_CONN StoppedResponding
     | OtherErr \<Rightarrow> throw OtherErr
     | _ \<Rightarrow> fail PY_EXIT_CONN ConnectionFailed)"

definition py_session :: "(filesys \<Rightarrow> string \<Rightarrow> string list) \<Rightarrow> py_command \<Rightarrow> unit py" where
  "py_session dirs command =
     py_finally (py_try (py_bind (py_command_run dirs command) (\<lambda>_. py_goodbye)) py_report)
       (py_try (lib sock_close) (\<lambda>_. py_return ()))"

definition py_main ::
  "(filesys \<Rightarrow> string \<Rightarrow> string list) \<Rightarrow> bool \<Rightarrow> string \<Rightarrow> int \<Rightarrow> py_command \<Rightarrow> unit py" where
  "py_main dirs reached host port command =
     (if \<not> (1024 \<le> port \<and> port \<le> 65535) then fail 2 BadPort
      else py_bind (py_connect reached host port) (\<lambda>_. py_session dirs command))"

text \<open>The exit status of the process; an exception that nobody handles ends it with 1.\<close>

definition py_status :: "stop + unit \<Rightarrow> nat" where
  "py_status r = (case r of Inr _ \<Rightarrow> 0 | Inl (Exit code) \<Rightarrow> code | Inl (Thrown _) \<Rightarrow> 1)"

end
