(* ===== verification/Rtrv_Py_Paths.thy ===== *)
theory Rtrv_Py_Paths
  imports Rtrv_Py_Client
begin

text \<open>
  The partials of the Python client: they lie where those of the C client lie, and a token that is
  written into a name is read back from it.
\<close>

section \<open>Where a partial lives\<close>

lemma comps_slashes: "list_all (\<lambda>c. c = CHR ''/'') s \<Longrightarrow> comps (a @ s) = comps a"
proof (induction s arbitrary: a)
  case (Cons c s)
  have "comps ((a @ [c]) @ s) = comps (a @ [c])" using Cons by (intro Cons.IH) simp
  moreover have "comps (a @ [c]) = comps a"
    using Cons.prems comps_slash [of a "[]"] by (simp add: comps_def)
  ultimately show ?case by simp
qed simp

lemma strip_slashes:
  obtains t where "s = rev (dropWhile (\<lambda>c. c = CHR ''/'') (rev s)) @ t" "list_all (\<lambda>c. c = CHR ''/'') t"
proof (rule that [of "rev (takeWhile (\<lambda>c. c = CHR ''/'') (rev s))"])
  show "s = rev (dropWhile (\<lambda>c. c = CHR ''/'') (rev s)) @ rev (takeWhile (\<lambda>c. c = CHR ''/'') (rev s))"
    by (metis rev_append rev_rev_ident takeWhile_dropWhile_id)
qed (auto simp: list_all_iff dest: set_takeWhileD)

lemma split_base: "snd (os_path_split p) = path_base p"
  by (auto simp: os_path_split_def path_base_def Let_def split: option.split)

text \<open>The directory part, with a name joined to it.\<close>

lemma split_dir_cases:
  obtains (none) "CHR ''/'' \<notin> set p" "fst (os_path_split p) = []"
  | (root) i where "last_slash p = Some i" "fst (os_path_split p) = take (Suc i) p" "list_all (\<lambda>c. c = CHR ''/'') (take (Suc i) p)"
  | (dir) i d t where "last_slash p = Some i" "fst (os_path_split p) = d" "take (Suc i) p = d @ t" "d \<noteq> []" "last d \<noteq> CHR ''/''"
      "list_all (\<lambda>c. c = CHR ''/'') t" "hd d = hd p"
proof (cases "last_slash p")
  case None
  then show ?thesis by (intro none) (simp_all add: os_path_split_def flip: last_slash_None)
next
  case (Some i)
  let ?h = "take (Suc i) p" and ?sl = "\<lambda>c. c = CHR ''/''"
  show ?thesis
  proof (cases "list_all ?sl ?h")
    case True
    with Some show ?thesis by (intro root) (simp_all add: os_path_split_def)
  next
    case False
    let ?d = "rev (dropWhile ?sl (rev ?h))"
    obtain t where t: "?h = ?d @ t" "list_all ?sl t" by (rule strip_slashes)
    have ne: "dropWhile ?sl (rev ?h) \<noteq> []" using False by (auto simp: list_all_iff)
    then have "?d \<noteq> []" by simp
    moreover have "last ?d \<noteq> CHR ''/''" using hd_dropWhile [OF ne] by (simp add: last_rev)
    moreover have "hd ?d = hd p"
      using t(1) \<open>?d \<noteq> []\<close> by (metis hd_append2 hd_take zero_less_Suc)
    moreover have "fst (os_path_split p) = ?d" using Some False by (simp add: os_path_split_def)
    ultimately show ?thesis using dir [OF Some _ t(1) _ _ t(2)] by blast
  qed
qed

lemma resolve_join_sibling:
  assumes "name \<noteq> []" and "hd name \<noteq> CHR ''/''"
  shows "resolve (os_path_join (fst (os_path_split dest)) name) = (fst (resolve dest), comps (path_dir dest) @ comps name)"
proof -
  have name: "take 1 name \<noteq> ''/''" using assms by (cases name) auto
  show ?thesis
  proof (cases rule: split_dir_cases [of dest])
    case none
    then show ?thesis using resolve_sibling [OF assms, of dest] name by (simp add: os_path_join_def)
  next
    case (root i)
    let ?h = "take (Suc i) dest"
    have ne: "?h \<noteq> []" "i < length dest" using last_slash_Some [OF root(1)] by auto
    have ends: "last ?h = CHR ''/''" "hd ?h = CHR ''/''"
      using root(3) last_in_set [OF ne(1)] list.set_sel(1) [OF ne(1)] unfolding list_all_iff by blast+
    have "hd dest = hd ?h" using ne by (simp add: hd_take)
    then have "fst (resolve dest)" using ends ne by (auto simp: resolve_comps)
    moreover have "os_path_join (fst (os_path_split dest)) name = ?h @ name"
      unfolding root(2) os_path_join_def using name ends(1) by simp
    moreover have "hd (?h @ name) = CHR ''/''" "?h @ name \<noteq> []" using ends(2) ne(1) hd_append2 [OF ne(1), of name] by auto
    moreover have "comps (?h @ name) = comps name"
    proof -
      obtain u where u: "?h = u @ ''/''" "list_all (\<lambda>c. c = CHR ''/'') u"
        using ne(1) root(3) ends(1) by (metis append_butlast_last_id list_all_append)
      then show ?thesis using comps_slash [of u name] comps_slashes [OF u(2), of "[]"] by (simp add: comps_def)
    qed
    moreover have "comps (path_dir dest) = []"
    proof -
      have "list_all (\<lambda>c. c = CHR ''/'') (path_dir dest)"
        using root(1,3) set_take_subset_set_take [of i "Suc i" dest] by (auto simp: path_dir_def list_all_iff)
      then show ?thesis using comps_slashes [of "path_dir dest" "[]"] by (simp add: comps_def)
    qed
    ultimately show ?thesis by (simp only: resolve_comps append_Nil fst_conv)
  next
    case (dir i d t)
    have "dest \<noteq> []" using last_slash_Some [OF dir(1)] by auto
    have "comps (take (Suc i) dest) = comps d" using dir(3,6) by (simp add: comps_slashes)
    moreover have "comps (take (Suc i) dest) = comps (path_dir dest)"
    proof -
      have "take (Suc i) dest = take i dest @ ''/''"
        using last_slash_Some [OF dir(1)] by (metis append_take_drop_id nth_append_length take_Suc_conv_app_nth length_take min.absorb4)
      then show ?thesis using comps_slash [of "take i dest" "[]"] dir(1) by (simp add: path_dir_def comps_def)
    qed
    ultimately have "comps (d @ CHR ''/'' # name) = comps (path_dir dest) @ comps name" by (simp add: comps_slash)
    then show ?thesis
      using dir(2,4,5,7) name \<open>dest \<noteq> []\<close> by (simp add: os_path_join_def resolve_comps)
  qed
qed

lemma partial_name_eq: "partial_name dest digest =
    os_path_join (fst (os_path_split dest)) (partial_entry dest (hex_of (take 8 digest)))"
  by (simp add: partial_name_def partial_entry_def split_base TOKEN_SIZE_def case_prod_beta)

text \<open>Both clients keep the partial of a destination in the same place.\<close>

lemma resolve_partial_name: "resolve (partial_name dest digest) = resolve (partial_path dest digest)"
proof -
  let ?e = "partial_entry dest (hex_of (take 8 digest))"
  have "?e \<noteq> []" "hd ?e \<noteq> CHR ''/''" by (simp_all add: partial_entry_def)
  then show ?thesis
    by (simp add: partial_name_eq partial_path_def resolve_join_sibling resolve_partial_with RTRV_TOKEN_SIZE_def)
qed

lemma join_last: "name \<noteq> [] \<Longrightarrow> os_path_join d name \<noteq> [] \<and> last (os_path_join d name) = last name"
  by (auto simp: os_path_join_def)

lemma partial_name_end: "partial_name dest digest \<noteq> []" "last (partial_name dest digest) \<noteq> CHR ''/''"
  using join_last [of "partial_entry dest (hex_of (take 8 digest))" "fst (os_path_split dest)"]
  by (simp_all add: partial_name_eq partial_entry_def)

lemma partial_path_end: "partial_path dest digest \<noteq> []" "last (partial_path dest digest) \<noteq> CHR ''/''"
  by (simp_all add: partial_path_def partial_with_def partial_entry_def)

lemma partial_same_node: "node_at f (partial_name dest digest) = node_at f (partial_path dest digest)"
  "creatable f (partial_name dest digest) = creatable f (partial_path dest digest)"
  by (simp_all add: node_at_def creatable_def resolve_partial_name partial_name_end partial_path_end cong: node.case_cong option.case_cong)

text \<open>A name joined to a directory; the directory part of a path is the C client's.\<close>

lemma resolve_join:
  assumes "CHR ''/'' \<notin> set name" and "name \<notin> {[], ''.''}" and d: "d' = (if d = [] then ''.'' else d)"
  shows "resolve (os_path_join d name) = (fst (resolve d'), snd (resolve d') @ [name])"
proof -
  have name: "take 1 name \<noteq> ''/''" "hd name \<noteq> CHR ''/''" using assms by (cases name; auto)+
  have one: "comps name = [name]" using assms by (simp add: comps_plain)
  have slash: "resolve (u @ CHR ''/'' # name) = (fst (resolve (u @ ''/'')), snd (resolve (u @ ''/'')) @ [name])" for u
    using comps_slash [of u name] comps_slash [of u "[]"] one by (cases u) (simp_all add: resolve_comps comps_def)
  consider "d = []" | "d \<noteq> []" "last d = CHR ''/''" | "d \<noteq> []" "last d \<noteq> CHR ''/''" by blast
  then show ?thesis
  proof cases
    case 1
    then show ?thesis using one assms name by (simp add: os_path_join_def resolve_comps) (simp add: comps_def)
  next
    case 2
    then obtain u where "d = u @ ''/''" by (metis append_butlast_last_id)
    then show ?thesis using 2 name slash [of u] d by (simp add: os_path_join_def)
  next
    case 3
    then show ?thesis using name slash [of d] d comps_slash [of d "[]"]
      by (cases d) (simp_all add: os_path_join_def resolve_comps comps_def)
  qed
qed

lemma resolve_split_dir:
  "resolve (if fst (os_path_split dest) = [] then ''.'' else fst (os_path_split dest)) = resolve (path_dir dest)"
proof -
  have "resolve (os_path_join (fst (os_path_split dest)) ''a'') = (fst (resolve dest), comps (path_dir dest) @ [''a''])"
    using resolve_join_sibling [of "''a''" dest] by (simp add: comps_def)
  moreover have "resolve (path_dir dest) = (fst (resolve dest), comps (path_dir dest))"
    using resolve_partial_plain [OF hex_of_no_slash, of dest "[]"] by (simp add: parent_def)
  ultimately show ?thesis
    using resolve_join [OF _ _ refl, of "''a''" "fst (os_path_split dest)"] by (simp add: prod_eq_iff)
qed

text \<open>A suffix without a slash changes the last component only.\<close>

lemma last_slash_suffix: "CHR ''/'' \<notin> set s \<Longrightarrow> last_slash (p @ s) = last_slash p"
  by (induction p) (simp_all add: last_slash_None)

lemma split_suffix:
  assumes "CHR ''/'' \<notin> set s"
  shows "path_base (p @ s) = path_base p @ s" "fst (os_path_split (p @ s)) = fst (os_path_split p)"
  using last_slash_Some [of p] by (auto simp: path_base_def os_path_split_def Let_def last_slash_suffix [OF assms] split: option.split)

section \<open>Tokens\<close>

lemma bytes_fromhex_hex: "bytes_fromhex (hex_of bs @ s) = map_option ((@) bs) (bytes_fromhex s)"
proof (induction bs)
  case Nil
  then show ?case by (simp add: hex_of_def option.map_ident)
next
  case (Cons b bs)
  let ?hi = "hex_digits ! unat (drop_bit 4 b AND 0x0F)" and ?lo = "hex_digits ! unat (b AND 0x0F)"
  have "hex_of (b # bs) @ s = ?hi # ?lo # hex_of bs @ s" by (simp add: hex_of_def hex_pair_def)
  then show ?case
    using hex_digit_value [OF nibble_less_16 [of "drop_bit 4 b"]] hex_digit_value [OF nibble_less_16 [of b]]
      nibbles_join [of b] Cons
    by (simp add: ucast_byte_u32 option.map_comp comp_def)
qed

lemma split_dots_dot: "split_dots (a @ CHR ''.'' # b) = split_dots a @ split_dots b"
proof -
  have "split_dots s \<noteq> []" for s by (induction s) (auto split: list.splits)
  then show ?thesis by (induction a) (auto split: list.splits)
qed

lemma split_dots_plain: "CHR ''.'' \<notin> set a \<Longrightarrow> split_dots a = [a]"
  by (induction a) auto

lemma split_dots_Cons: obtains x xs where "split_dots s = x # xs"
proof -
  have "split_dots s \<noteq> []" by (induction s) (auto split: list.splits)
  then show ?thesis using that by (cases "split_dots s") auto
qed

lemma hex_of_no_dot: "CHR ''.'' \<notin> set (hex_of bs)"
proof -
  have "hex_digits ! n \<noteq> CHR ''.''" if "n < 16" for n
    using hex_digit_value [OF that] by (auto simp: hex_value_def)
  then have "CHR ''.'' \<notin> set (hex_pair b)" for b
    using nibble_less_16 [of "drop_bit 4 b"] nibble_less_16 [of b] unfolding hex_pair_def by (metis list.set_intros(1) empty_iff insert_iff list.simps(15) set_empty2)
  then show ?thesis by (auto simp: hex_of_def)
qed

text \<open>What \<open>partial_token\<close> makes of a name that ends with a token and the suffix.\<close>

lemma partial_token_hex:
  assumes "path_base p = ''.'' @ base @ ''.'' @ hex_of token @ ''.part''" and "length token = 8"
  shows "partial_token p = Some token"
proof -
  have "path_base p = [] @ CHR ''.'' # base @ CHR ''.'' # hex_of token @ CHR ''.'' # ''part''" using assms(1) by simp
  then have "split_dots (path_base p) = [[]] @ split_dots base @ [hex_of token] @ [''part'']"
    using split_dots_plain [OF hex_of_no_dot [of token]]
    by (simp only: split_dots_dot split_dots.simps(1) split_dots_plain [of "''part''"]) simp
  then have parts: "split_dots (path_base p) = ([] # split_dots base) @ [hex_of token, ''part'']" by simp
  have len: "4 \<le> length (split_dots (path_base p))"
    by (rule split_dots_Cons [of base]) (simp add: parts)
  have "split_dots (path_base p) ! (length (split_dots (path_base p)) - 2) = hex_of token"
    unfolding parts by (simp add: nth_append)
  moreover have "last (split_dots (path_base p)) = ''part''" unfolding parts by simp
  moreover have "bytes_fromhex (hex_of token) = Some token" using bytes_fromhex_hex [of token "[]"] by simp
  ultimately show ?thesis using len assms(2) by (simp add: partial_token_def split_base TOKEN_SIZE_def)
qed

lemma path_base_join:
  assumes "CHR ''/'' \<notin> set name" and "name \<noteq> []"
  shows "path_base (os_path_join d name) = name"
proof -
  have plain: "last_slash (a @ CHR ''/'' # name) = Some (length a)" for a
  proof (induction a)
    case Nil
    have "last_slash name = None" using assms by (simp add: last_slash_None)
    then show ?case by simp
  qed simp
  have none: "last_slash name = None" using assms by (simp add: last_slash_None)
  have name: "take 1 name \<noteq> ''/''" using assms by (cases name) auto
  have slash: "path_base (a @ CHR ''/'' # name) = name" for a using plain [of a] by (simp add: path_base_def)
  consider "d = []" | "d \<noteq> []" "last d = CHR ''/''" | "d \<noteq> []" "last d \<noteq> CHR ''/''" by blast
  then show ?thesis
  proof cases
    case 2
    then obtain u where "d = u @ ''/''" by (metis append_butlast_last_id)
    then show ?thesis using name slash [of u] by (simp add: os_path_join_def)
  qed (use name none slash [of d] in \<open>simp_all add: os_path_join_def path_base_def\<close>)
qed

lemma partial_token_name: "8 \<le> length digest \<Longrightarrow> partial_token (partial_name dest digest) = Some (take 8 digest)"
proof -
  let ?e = "partial_entry dest (hex_of (take 8 digest))"
  assume "8 \<le> length digest"
  moreover have "CHR ''/'' \<notin> set ?e" "?e \<noteq> []"
    using path_base_no_slash [of dest] hex_of_no_slash by (simp_all add: partial_entry_def)
  ultimately show ?thesis
    by (intro partial_token_hex [where base = "path_base dest"])
      (simp_all add: partial_name_eq path_base_join partial_entry_def)
qed

end
