(* ===== verification/Rtrv_Py_Get.thy ===== *)
theory Rtrv_Py_Get
  imports Rtrv_Py_Paths Rtrv_Resume
begin

text \<open>
  The download of the Python client: one rule per phase for every behaviour of the environment, each
  saying what can still go wrong when nothing fails for outside reasons.
\<close>

section \<open>Finding and offering a partial\<close>

text \<open>The names that a directory shows, and the paths that the search for a partial finds.\<close>

definition py_listing :: "filesys \<Rightarrow> string \<Rightarrow> string list" where
  "py_listing f d =
     (let d = (if d = [] then ''.'' else d) in
      if is_dir f (resolve d) then filter (\<lambda>e. e \<notin> {''.'', ''..''}) (entries f (resolve d)) else [])"

definition glob_matches :: "filesys \<Rightarrow> string \<Rightarrow> string \<Rightarrow> string list" where
  "glob_matches f base d = map (os_path_join d) (filter (partial_glob base) (py_listing f d))"

definition py_matches :: "(filesys \<Rightarrow> string \<Rightarrow> string list) \<Rightarrow> filesys \<Rightarrow> string \<Rightarrow> string list" where
  "py_matches dirs f dest =
     (let d = fst (os_path_split dest) in
      concat (map (glob_matches f (path_base dest)) (if has_magic d then dirs f d else [d])))"

definition the_match :: "string list \<Rightarrow> string option" where
  "the_match ms = (if length ms = 1 then Some (ms ! 0) else None)"

lemma wpy_glob_dir:
  assumes "\<And>g ms. faults w = [] \<longrightarrow> g = [] \<and> ms = glob_matches (fs w) base d \<Longrightarrow> Q (Inr ms) (w\<lparr>faults := g\<rparr>)"
  shows "wpy (glob_dir base d) Q w"
  unfolding glob_dir_def wpy_bind
proof (rule wpy_scandir, goal_cases)
  case (1 g)
  then have "Q (Inr []) (w\<lparr>faults := g\<rparr>)"
    by (intro assms) (auto simp: glob_matches_def py_listing_def Let_def split: if_splits)
  then show ?case by (simp add: wpy_simps)
next
  case (2 g)
  then show ?case by (auto simp: wpy_simps glob_matches_def py_listing_def Let_def intro!: assms)
qed

lemma wpy_glob_dirs:
  assumes "\<And>g ms. faults w = [] \<longrightarrow> g = [] \<and> ms = concat (map (glob_matches (fs w) base) ds) \<Longrightarrow> Q (Inr ms) (w\<lparr>faults := g\<rparr>)"
  shows "wpy (glob_dirs base ds) Q w"
  using assms
proof (induction ds arbitrary: Q w)
  case Nil
  from Nil [of "faults w" "[]"] show ?case by (simp add: wpy_simps)
next
  case (Cons d ds)
  show ?case
    unfolding glob_dirs.simps wpy_bind
  proof (rule wpy_glob_dir, goal_cases)
    case (1 g ms)
    note first = 1
    have "wpy (glob_dirs base ds) (\<lambda>r w'. case r of Inl s \<Rightarrow> Q (Inl s) w' | Inr ms' \<Rightarrow> Q (Inr (ms @ ms')) w') (w\<lparr>faults := g\<rparr>)"
    proof (rule Cons.IH, goal_cases)
      case (1 g' ms')
      then show ?case using first Cons.prems [of g' "ms @ ms'"] by auto
    qed
    then show ?case by (simp add: wpy_simps cong: sum.case_cong)
  qed
qed

lemma wpy_find_partial:
  assumes "\<And>g x. faults w = [] \<longrightarrow> g = [] \<and> x = the_match (py_matches dirs (fs w) dest) \<Longrightarrow> Q (Inr x) (w\<lparr>faults := g\<rparr>)"
  shows "wpy (find_partial dirs dest) Q w"
proof -
  let ?d = "fst (os_path_split dest)"
  have eq: "find_partial dirs dest = py_bind (py_ask (\<lambda>f. if has_magic ?d then dirs f ?d else [?d])) (\<lambda>ds.
      py_bind (glob_dirs (path_base dest) ds) (\<lambda>ms. py_return (the_match ms)))"
    by (simp add: find_partial_def case_prod_beta split_base the_match_def)
  show ?thesis
    unfolding eq wpy_bind wpy_ask sum.case
    by (rule wpy_glob_dirs) (auto simp: wpy_simps py_matches_def Let_def intro!: assms)
qed

text \<open>The search finds the one matching name that is put where there was none.\<close>

lemma py_matches_added:
  assumes none: "py_matches dirs f dest = []" and plain: "\<not> has_magic (fst (os_path_split dest))"
    and dir: "is_dir f (resolve (path_dir dest))" and glob: "partial_glob (path_base dest) e"
    and e: "CHR ''/'' \<notin> set e" "e \<notin> {[], ''.'', ''..''}" and p: "p = os_path_join (fst (os_path_split dest)) e"
  shows "py_matches dirs (AList.update (resolve p) (File v) f) dest = [p]"
proof -
  let ?f = "AList.update (resolve p) (File v) f"
  have r: "resolve p = (fst (resolve (path_dir dest)), snd (resolve (path_dir dest)) @ [e])"
    "parent (resolve p) = resolve (path_dir dest)"
    using resolve_join [OF _ _ refl, of e "fst (os_path_split dest)"] e unfolding resolve_split_dir p
    by (simp_all add: parent_def)
  have listing: "py_listing g (fst (os_path_split dest)) =
      (if is_dir g (parent (resolve p)) then filter (\<lambda>e. e \<notin> {''.'', ''..''}) (entries g (parent (resolve p))) else [])" for g
    unfolding py_listing_def Let_def resolve_split_dir r(2) ..
  have "resolve p \<notin> set (map fst f)"
  proof
    assume "resolve p \<in> set (map fst f)"
    then have "e \<in> set (entries f (parent (resolve p)))" using r(1) by (force simp: entries_def)
    then show False using none plain dir glob e listing [of f] r(2)
      by (auto simp: py_matches_def glob_matches_def filter_empty_conv)
  qed
  then have "entries ?f (parent (resolve p)) = entries f (parent (resolve p)) @ [e]"
    using entries_update_new [of "resolve p" f "File v"] r(1) by simp
  moreover have "is_dir ?f (parent (resolve p))"
    using dir r by (auto simp: is_dir_def update_conv' parent_def prod_eq_iff)
  ultimately show ?thesis
    using none plain glob e dir listing r(2)
    by (simp add: py_matches_def glob_matches_def p)
qed

lemma partial_entry_plain:
  "CHR ''/'' \<notin> set (partial_entry dest (hex_of bs))" "partial_entry dest t \<notin> {[], ''.'', ''..''}"
  using path_base_no_slash [of dest] hex_of_no_slash by (auto simp: partial_entry_def)

lemma py_matches_new:
  assumes "py_matches dirs f dest = []" and "\<not> has_magic (fst (os_path_split dest))"
    and "is_dir f (resolve (path_dir dest))"
  shows "py_matches dirs (AList.update (resolve (partial_path dest digest)) (File v) f) dest = [partial_name dest digest]"
  unfolding resolve_partial_name [symmetric]
  by (rule py_matches_added [OF assms _ partial_entry_plain partial_name_eq]) (simp add: partial_glob_def partial_entry_def)

text \<open>The partial of a longer name is taken for a partial of the name.\<close>

lemma py_matches_other:
  assumes "py_matches dirs f dest = []" and "\<not> has_magic (fst (os_path_split dest))"
    and "is_dir f (resolve (path_dir dest))" and "CHR ''/'' \<notin> set ext" and "p = partial_name (dest @ ''.'' @ ext) digest"
  shows "py_matches dirs (AList.update (resolve p) (File v) f) dest = [p]"
proof (rule py_matches_added [OF assms(1-3) _ partial_entry_plain])
  have "CHR ''/'' \<notin> set (''.'' @ ext)" using assms(4) by simp
  note dot = split_suffix [OF this, of dest]
  show "partial_glob (path_base dest) (partial_entry (dest @ ''.'' @ ext) (hex_of (take 8 digest)))"
    by (simp only: partial_glob_def partial_entry_def dot) simp
  show "p = os_path_join (fst (os_path_split dest)) (partial_entry (dest @ ''.'' @ ext) (hex_of (take 8 digest)))"
    unfolding assms(5) partial_name_eq dot(2) ..
qed

text \<open>What is offered for a partial.\<close>

definition offer_for :: "filesys \<Rightarrow> string option \<Rightarrow> string option \<times> nat \<times> bytes" where
  "offer_for f x =
     (case x of
        None \<Rightarrow> (None, 0, replicate TOKEN_SIZE 0)
      | Some p \<Rightarrow> (Some p, st_size (the (node_at f p)), case partial_token p of Some t \<Rightarrow> t | None \<Rightarrow> replicate TOKEN_SIZE 0))"

lemma offer_token: "offer_for f x = (existing, offset, token) \<Longrightarrow> length token = 8"
  by (auto simp: offer_for_def partial_token_def Let_def TOKEN_SIZE_def split: option.splits if_splits)

lemma wpy_offer:
  assumes gone: "\<And>g p. faults w = [] \<longrightarrow> g = [] \<and> the_match (py_matches dirs (fs w) dest) = Some p \<Longrightarrow>
      node_at (fs w) p = None \<Longrightarrow> Q (Inl (Thrown OsErr)) (w\<lparr>faults := g\<rparr>)"
    and found: "\<And>g x. faults w = [] \<longrightarrow> g = [] \<and> x = the_match (py_matches dirs (fs w) dest) \<Longrightarrow>
      Q (Inr (offer_for (fs w) x)) (w\<lparr>faults := g\<rparr>)"
  shows "wpy (py_offer dirs dest) Q w"
  unfolding py_offer_def wpy_bind
proof (rule wpy_find_partial, goal_cases)
  case (1 g x)
  show ?case
  proof (cases x)
    case None
    then show ?thesis using found [of g x] 1 by (simp add: wpy_simps offer_for_def)
  next
    case (Some p)
    then show ?thesis using found [of g x] gone [of g p] 1
      by (cases "node_at (fs w) p") (auto simp: wpy_simps offer_for_def)
  qed
qed

section \<open>The request\<close>

text \<open>A request that the protocol can carry.\<close>

definition sendable :: "nat \<Rightarrow> string \<Rightarrow> bool" where
  "sendable n name \<longleftrightarrow> utf8 (encode name) \<and> n < 2 ^ 64 \<and> length name < 2 ^ 16"

lemma net_get_payload:
  "net (get_payload offset token name) =
     (if sendable offset name then py_return (get_request (word_of_nat offset) token name) else throw OtherErr)"
proof (cases "sendable offset name")
  case True
  then show ?thesis by (simp add: get_payload_def encode_utf8_def net_bind net_to_bytes sendable_def get_request_def)
next
  case False
  then show ?thesis by (auto simp: get_payload_def encode_utf8_def net_bind to_bytes_def sendable_def)
qed

lemma wpy_send_get:
  assumes token: "length token = 8"
    and bad: "\<not> sendable offset name \<Longrightarrow> Q (Inl (Thrown OtherErr)) w"
    and good: "\<And>q. sendable offset name \<Longrightarrow> set q \<subseteq> set (tx_plan w) \<Longrightarrow>
      Q (Inr ()) (w\<lparr>tx := tx w @ frame RTRV_T_GET (get_request (word_of_nat offset) token name), tx_plan := q\<rparr>)"
    and lost: "\<And>e k q g. TxErr \<in> set (tx_plan w) \<Longrightarrow> net_broken w e g \<Longrightarrow> Q (Inl (Thrown e))
      (w\<lparr>tx := tx w @ take k (frame RTRV_T_GET (get_request (word_of_nat offset) token name)), tx_plan := q, faults := g\<rparr>)"
  shows "wpy (net (bind (get_payload offset token name) (write_frame T_GET))) Q w"
proof (cases "sendable offset name")
  case False
  then show ?thesis using bad by (simp add: net_bind net_get_payload wpy_simps)
next
  case True
  then have "length (get_request (word_of_nat offset) token name) < 2 ^ 64" using token by (simp add: sendable_def)
  then have "wpy (net (write_frame T_GET (get_request (word_of_nat offset) token name))) Q w"
    by (rule wpy_write_frame) (use True good lost in \<open>simp_all add: same_wire\<close>)
  then show ?thesis using True by (simp add: net_bind net_get_payload)
qed

section \<open>The body\<close>

text \<open>One turn of the loop: the stream has ended or broken, the write fails, or the loop goes on behind the piece.\<close>

lemma wpy_get_step:
  assumes pos: "0 < remaining" and held: "map_of (fs w) (of_path h) = Some (File c)"
    and ended: "\<And>e r g. avail w = [] \<Longrightarrow> faults w = [] \<longrightarrow> g = [] \<Longrightarrow> Q (Inl (Thrown e)) (w\<lparr>rx := r, faults := g\<rparr>)"
    and failed: "\<And>bs r g m. avail w = bs @ rx_bytes r \<Longrightarrow> length bs \<le> nat remaining \<Longrightarrow> faults w \<noteq> [] \<Longrightarrow>
      Q (Inl (Thrown OsErr)) (w\<lparr>rx := r, faults := g, fs := AList.update (of_path h) (File (c @ take m bs)) (fs w)\<rparr>)"
    and on: "\<And>bs r g. avail w = bs @ rx_bytes r \<Longrightarrow> bs \<noteq> [] \<Longrightarrow> length bs \<le> nat remaining \<Longrightarrow> faults w = [] \<longrightarrow> g = [] \<Longrightarrow>
      wpy (py_get_loop h (remaining - int (length bs))) Q
        (w\<lparr>rx := r, faults := g, fs := AList.update (of_path h) (File (c @ bs)) (fs w)\<rparr>)"
  shows "wpy (py_get_loop h remaining) Q w"
proof -
  let ?n = "nat (min 65536 remaining)" and ?recv = "net (call (Recv (nat (min 65536 remaining))) data)"
  have unfold: "wpy (py_get_loop h remaining) Q w =
      wpy ?recv (\<lambda>r w'. case r of Inl s \<Rightarrow> Q (Inl s) w' | Inr chunk \<Rightarrow>
        wpy (if chunk = [] then throw ConnectionErr
          else py_bind (file_write h chunk) (\<lambda>_. py_get_loop h (remaining - int (length chunk)))) Q w') w"
    using pos by (subst py_get_loop.simps) (simp add: wpy_bind)
  have "0 < ?n" using pos by simp
  then show ?thesis
  proof (cases rule: net_recv_cases [where w = w])
    case (closed r)
    have "Q (Inl (Thrown ConnectionErr)) (w\<lparr>rx := r\<rparr>)" using ended [OF closed(2), of "faults w" ConnectionErr r] by simp
    then show ?thesis by (simp add: unfold wpy_run [where m = ?recv and w = w, OF closed(1)] wpy_simps)
  next
    case (broken e r g)
    have "Q (Inl (Thrown e)) (w\<lparr>rx := r, faults := g\<rparr>)"
      using ended [OF broken(2)] broken(3) by (simp add: net_broken_def)
    then show ?thesis by (simp add: unfold wpy_run [where m = ?recv and w = w, OF broken(1)])
  next
    case (piece bs r)
    have le: "length bs \<le> nat remaining" using piece(3) by simp
    have "wpy (py_bind (file_write h bs) (\<lambda>_. py_get_loop h (remaining - int (length bs)))) Q (w\<lparr>rx := r\<rparr>)"
      unfolding wpy_bind
      by (rule wpy_file_write) (use failed [OF piece(4) le] on [OF piece(4,2) le] contents_File [OF held] in simp_all)
    then show ?thesis using piece(2) by (simp add: unfold wpy_run [where m = ?recv and w = w, OF piece(1)])
  qed
qed

lemma take_through:
  assumes "s = bs @ s'" and "length bs \<le> n"
  shows "take n s = bs @ take (n - length bs) s'" "drop n s = drop (n - length bs) s'"
  using assms by simp_all

text \<open>
  The loop appends what arrives to the partial. When it stops early, the partial holds what it held
  and an initial part of the bytes that came; without a failure of a file operation, all of them.
\<close>

lemma wpy_get_loop:
  assumes held: "map_of (fs w) (of_path h) = Some (File c)"
    and good: "\<And>w'. nat remaining \<le> length (avail w) \<Longrightarrow>
      fs w' = AList.update (of_path h) (File (c @ take (nat remaining) (avail w))) (fs w) \<Longrightarrow>
      avail w' = drop (nat remaining) (avail w) \<Longrightarrow> offline w w' \<Longrightarrow> open_files w' = open_files w \<Longrightarrow>
      faults w = [] \<longrightarrow> faults w' = [] \<Longrightarrow> Q (Inr ()) w'"
    and bad: "\<And>w' e j. length c \<le> j \<Longrightarrow>
      fs w' = AList.update (of_path h) (File (take j (c @ take (nat remaining) (avail w)))) (fs w) \<Longrightarrow>
      offline w w' \<Longrightarrow> open_files w' = open_files w \<Longrightarrow>
      faults w = [] \<longrightarrow> faults w' = [] \<and> length (avail w) < nat remaining \<and> j = length c + length (avail w) \<Longrightarrow>
      Q (Inl (Thrown e)) w'"
  shows "wpy (py_get_loop h remaining) Q w"
  using assms
proof (induction "nat remaining" arbitrary: remaining w c rule: less_induct)
  case less
  note held = less.prems(1) and good = less.prems(2) and bad = less.prems(3)
  show ?case
  proof (cases "0 < remaining")
    case False
    then have "Q (Inr ()) w" by (intro good) (simp_all add: update_triv held)
    with False show ?thesis by (simp add: py_get_loop.simps [of h] wpy_simps)
  next
    case pos: True
    show ?thesis
    proof (rule wpy_get_step [where c = c], goal_cases)
      case (3 e r g)
      show ?case by (rule bad [of "length c"]) (use 3 pos in \<open>simp_all add: update_triv held\<close>)
    next
      case (4 bs r g m)
      note all = take_through [OF 4(1,2)]
      show ?case
        by (rule bad [of "length c + min m (length bs)"]) (use 4 all in \<open>simp_all add: min_def\<close>)
    next
      case (5 bs r g)
      let ?left = "remaining - int (length bs)"
      have left: "nat ?left = nat remaining - length bs" using 5(3) pos by (simp add: nat_diff_distrib)
      have smaller: "nat ?left < nat remaining" using pos 5(2) by (simp add: left)
      note all = take_through [OF 5(1,3)]
      show ?case
      proof (rule less.hyps [OF smaller, where c = "c @ bs"], goal_cases)
        case (2 w')
        then show ?case by (intro good) (use 5 all left in \<open>auto simp: update_last\<close>)
      next
        case (3 j w' e)
        then show ?case by (intro bad [of j]) (use 5 all left in \<open>auto simp: update_last\<close>)
      qed (simp add: update_conv')
    qed (use pos held in simp_all)
  qed
qed

section \<open>Publication\<close>

lemma wpy_fail [wpy_simps]: "wpy (fail code d) Q w = Q (Inl (Exit code)) (w\<lparr>err := err w @ [d]\<rparr>)"
  by (simp add: wpy_def fail_def)

lemma wpy_publish:
  assumes held: "node_at (fs w) p = Some (File c)"
    and bad: "\<And>s w'. fs w' = fs w \<or> fs w' = AList.delete (resolve p) (fs w) \<Longrightarrow> offline w w' \<Longrightarrow>
      open_files w' = open_files w \<Longrightarrow> faults w = [] \<longrightarrow> \<not> (sha256 c = digest \<and> creatable (fs w) dest) \<and> faults w' = [] \<Longrightarrow>
      Q (Inl s) w'"
    and good: "\<And>w'. sha256 c = digest \<Longrightarrow> creatable (fs w) dest \<Longrightarrow> avail w' = avail w \<Longrightarrow>
      fs w' = AList.update (resolve dest) (File c) (AList.delete (resolve p) (fs w)) \<Longrightarrow>
      offline w w' \<Longrightarrow> open_files w' = open_files w \<Longrightarrow> faults w = [] \<longrightarrow> faults w' = [] \<Longrightarrow>
      out w' = out w @ [Downloaded name (word_of_nat n) dest] \<Longrightarrow> Q (Inr ()) w'"
  shows "wpy (py_publish name dest p digest n) Q w"
  unfolding py_publish_def wpy_bind [of "py_sha256_file p"]
proof (rule wpy_sha256_file, goal_cases)
  case (1 g)
  then show ?case using held by (auto intro!: bad)
next
  case (2 g c')
  then have c': "c' = c" using held by simp
  show ?case
  proof (cases "sha256 c = digest")
    case False
    have "wpy (py_bind (os_remove p) (\<lambda>_. fail PY_EXIT_CONN HashMismatch)) Q (w\<lparr>faults := g\<rparr>)"
      unfolding wpy_bind
      by (rule wpy_os_remove) (use False 2(1) held in \<open>auto simp: wpy_simps intro!: bad\<close>)
    then show ?thesis using False c' by simp
  next
    case True
    have "wpy (py_bind (os_replace p dest) (\<lambda>_. py_print (Downloaded name (word_of_nat n) dest))) Q (w\<lparr>faults := g\<rparr>)"
      unfolding wpy_bind
      by (rule wpy_os_replace) (use True 2(1) held in \<open>auto simp: wpy_simps intro!: bad good\<close>)
    then show ?thesis using True c' by simp
  qed
qed

section \<open>From the metadata to the file\<close>

text \<open>The partial is opened, filled and closed; every exception ends the program.\<close>

definition py_fill :: "string \<Rightarrow> bool \<Rightarrow> int \<Rightarrow> unit py" where
  "py_fill p app remaining =
     py_try (py_bind (open_out p app) (\<lambda>f. py_finally (py_get_loop f remaining) (close_out f)))
       (\<lambda>e. fail PY_EXIT_CONN DownloadInterrupted)"

lemma wpy_fill:
  assumes base: "base = (if app then contents (fs w) (resolve p) else [])"
    and body: "body = take (nat remaining) (avail w)"
    and bad: "\<And>w'. fs w' = fs w \<or> (\<exists>j\<ge>length base. fs w' = AList.update (resolve p) (File (take j (base @ body))) (fs w)) \<Longrightarrow>
      offline w w' \<Longrightarrow> open_files w' = open_files w \<Longrightarrow>
      faults w = [] \<and> creatable (fs w) p \<longrightarrow> faults w' = [] \<and> length (avail w) < nat remaining \<and>
        fs w' = AList.update (resolve p) (File (base @ avail w)) (fs w) \<Longrightarrow>
      Q (Inl (Exit PY_EXIT_CONN)) w'"
    and good: "\<And>w'. creatable (fs w) p \<Longrightarrow> nat remaining \<le> length (avail w) \<Longrightarrow>
      fs w' = AList.update (resolve p) (File (base @ body)) (fs w) \<Longrightarrow>
      avail w' = drop (nat remaining) (avail w) \<Longrightarrow> offline w w' \<Longrightarrow> open_files w' = open_files w \<Longrightarrow>
      faults w = [] \<longrightarrow> faults w' = [] \<Longrightarrow> Q (Inr ()) w'"
  shows "wpy (py_fill p app remaining) Q w"
  unfolding py_fill_def wpy_try wpy_bind [of "open_out p app"]
proof (rule wpy_open_out, goal_cases)
  case (1 g)
  then show ?case by (auto simp: wpy_simps intro!: bad)
next
  case (2 g c)
  note opened = 2
  have c: "c = base" using 2(3) base by simp
  let ?h = "\<lparr>of_path = resolve p, of_base = length base\<rparr>"
  show ?case
    unfolding sum.case wpy_finally c
  proof (rule wpy_get_loop [where c = base], goal_cases)
    case 1
    show ?case by (simp add: update_conv')
  next
    case (2 w1)
    have fs1: "fs w1 = AList.update (resolve p) (File (base @ body)) (fs w)" using 2(2) by (simp add: body update_last)
    have n: "open_files w1 = Suc (open_files w)" using 2 by simp
    show ?case
    proof (rule wpy_close_out [OF n], goal_cases)
      case (1 g')
      then show ?case by simp (rule good, use 2 opened fs1 in \<open>auto simp: offline_def\<close>)
    next
      case (2 g' m)
      then show ?case
        by (simp add: wpy_simps) (rule bad, use \<open>offline _ w1\<close> \<open>_ \<longrightarrow> faults w1 = []\<close> opened fs1 in \<open>auto simp: update_last offline_def\<close>)
    qed
  next
    case (3 w1 e j)
    have fs1: "fs w1 = AList.update (resolve p) (File (take j (base @ body))) (fs w)" using 3(2) by (simp add: body update_last)
    have n: "open_files w1 = Suc (open_files w)" using 3 by simp
    have calm: "faults w = [] \<longrightarrow> faults w1 = [] \<and> length (avail w) < nat remaining \<and> take j (base @ body) = base @ avail w"
      using 3(5) opened(1) body by auto
    show ?case
    proof (rule wpy_close_out [OF n], goal_cases)
      case (1 g')
      then show ?case
        by (simp add: wpy_simps) (rule bad, use 3(1,3) calm fs1 in \<open>auto simp: offline_def\<close>)
    next
      case (2 g' m)
      have "take m (take j (base @ body)) = take (min m j) (base @ body)" by (simp only: take_take)
      then have "\<exists>i\<ge>length base. AList.update (resolve p) (File (take m (take j (base @ body)))) (fs w) =
          AList.update (resolve p) (File (take i (base @ body))) (fs w)"
        using 2(2) 3(1) by (intro exI [of _ "min m j"]) (simp del: take_append)
      then show ?case using 2(1)
        by (simp add: wpy_simps del: take_append take_take)
          (rule bad, use 3(3) calm fs1 in \<open>auto simp: offline_def update_last simp del: take_append take_take\<close>)
    qed
  qed
qed

text \<open>The files once a useless partial has been removed, and the places that receiving may touch.\<close>

definition py_cleared :: "filesys \<Rightarrow> u64 \<Rightarrow> string option \<Rightarrow> filesys" where
  "py_cleared f start existing =
     (case existing of Some p \<Rightarrow> if start = 0 then AList.delete (resolve p) f else f | None \<Rightarrow> f)"

definition py_keys :: "string \<Rightarrow> bytes \<Rightarrow> string option \<Rightarrow> path set" where
  "py_keys dest digest existing =
     insert (resolve (partial_path dest digest)) (case existing of Some p \<Rightarrow> {resolve p} | None \<Rightarrow> {})"

lemma cleared_facts:
  "files.same_except (py_keys dest digest existing) f (py_cleared f start existing)"
  "resume_base (py_cleared f start existing) k start = resume_base f k start"
  "map_of (py_cleared f start existing) k = map_of f k \<or> map_of (py_cleared f start existing) k = None"
  by (auto simp: py_cleared_def py_keys_def resume_base_def delete_conv' intro!: files.same_except_del
      split: option.split)

lemma wpy_clear:
  assumes bad: "\<And>s w'. fs w' = fs w \<Longrightarrow> offline w w' \<Longrightarrow> open_files w' = open_files w \<Longrightarrow>
      faults w = [] \<longrightarrow> start = 0 \<and> (\<exists>p. existing = Some p \<and> (\<nexists>c. node_at (fs w) p = Some (File c))) \<Longrightarrow> Q (Inl s) w'"
    and good: "\<And>w'. fs w' = py_cleared (fs w) start existing \<Longrightarrow> avail w' = avail w \<Longrightarrow> offline w w' \<Longrightarrow>
      open_files w' = open_files w \<Longrightarrow> faults w = [] \<longrightarrow> faults w' = [] \<Longrightarrow> Q (Inr ()) w'"
  shows "wpy (if unat start \<noteq> 0 then py_print m else case existing of Some p \<Rightarrow> os_remove p | None \<Rightarrow> py_return ()) Q w"
proof (cases "start = 0 \<and> existing \<noteq> None")
  case True
  then obtain p where p: "existing = Some p" by blast
  have "wpy (os_remove p) Q w"
    by (rule wpy_os_remove) (use True p in \<open>auto simp: py_cleared_def intro!: bad good\<close>)
  with True p show ?thesis by simp
next
  case False
  then show ?thesis by (auto simp: wpy_simps unat_eq_zero py_cleared_def intro!: good split: option.splits)
qed

text \<open>What receiving needs of the files when nothing fails for outside reasons.\<close>

definition receivable :: "filesys \<Rightarrow> string \<Rightarrow> bytes \<Rightarrow> string option \<Rightarrow> bool" where
  "receivable f dest digest existing \<longleftrightarrow> creatable f dest \<and> creatable f (partial_path dest digest) \<and>
     (case existing of
        None \<Rightarrow> True
      | Some p \<Rightarrow> (\<exists>c. node_at f p = Some (File c)) \<and> resolve p \<noteq> parent (resolve dest) \<and>
          resolve p \<noteq> parent (resolve (partial_path dest digest)))"

lemma receivable_cleared:
  assumes "receivable f dest digest existing"
  shows "creatable (py_cleared f start existing) (partial_path dest digest)"
    and "creatable (AList.update (resolve (partial_path dest digest)) (File c) (py_cleared f start existing)) dest"
  using assms partial_path_keys(2) [of dest digest]
  by (auto simp: receivable_def py_cleared_def intro!: creatable_delete creatable_update split: option.splits)

lemma py_receive_eq:
  assumes "length digest = 32"
  shows "py_receive name dest existing (get_meta total_size start digest) =
    py_bind (if unat start \<noteq> 0 then py_print (Resuming name start)
             else case existing of Some p \<Rightarrow> os_remove p | None \<Rightarrow> py_return ()) (\<lambda>_.
    py_bind (py_fill (partial_name dest digest) (unat start \<noteq> 0) (int (unat total_size) - int (unat start))) (\<lambda>_.
    py_publish name dest (partial_name dest digest) digest (unat total_size)))"
proof -
  have "from_bytes (take 8 (get_meta total_size start digest)) = unat total_size"
    "from_bytes (take 8 (drop 8 (get_meta total_size start digest))) = unat start"
    by (simp_all add: get_meta_def)
  then show ?thesis by (simp only: py_receive_def Let_def py_fill_def get_meta_fields) simp
qed

text \<open>Filling and publishing: what the partial's place can hold afterwards.\<close>

definition py_fetch :: "string \<Rightarrow> string \<Rightarrow> u64 \<Rightarrow> u64 \<Rightarrow> bytes \<Rightarrow> unit py" where
  "py_fetch name dest total_size start digest =
     py_bind (py_fill (partial_name dest digest) (unat start \<noteq> 0) (int (unat total_size) - int (unat start))) (\<lambda>_.
     py_publish name dest (partial_name dest digest) digest (unat total_size))"

definition left_over :: "path \<Rightarrow> bytes \<Rightarrow> bytes \<Rightarrow> filesys \<Rightarrow> filesys \<Rightarrow> bool" where
  "left_over k base body f f' \<longleftrightarrow> f' = f \<or> f' = AList.delete k f \<or>
     (\<exists>j\<ge>length base. f' = AList.update k (File (take j (base @ body))) f)"

lemma wpy_fetch:
  assumes n: "n = unat total_size - unat start" and k: "k = resolve (partial_path dest digest)"
    and base: "base = resume_base (fs w) k start" and body: "body = take n (avail w)"
    and bad: "\<And>s w'. left_over k base body (fs w) (fs w') \<Longrightarrow> offline w w' \<Longrightarrow> open_files w' = open_files w \<Longrightarrow>
      faults w = [] \<and> creatable (fs w) (partial_path dest digest) \<and> creatable (AList.update k (File (base @ body)) (fs w)) dest \<longrightarrow>
        faults w' = [] \<and> (length (avail w) < n \<and> s = Exit PY_EXIT_CONN \<and> fs w' = AList.update k (File (base @ avail w)) (fs w) \<or>
          n \<le> length (avail w) \<and> sha256 (base @ body) \<noteq> digest) \<Longrightarrow> Q (Inl s) w'"
    and good: "\<And>w'. length body = n \<Longrightarrow> avail w = body @ avail w' \<Longrightarrow> sha256 (base @ body) = digest \<Longrightarrow>
      creatable (AList.update k (File (base @ body)) (fs w)) dest \<Longrightarrow>
      fs w' = AList.update (resolve dest) (File (base @ body)) (AList.delete k (fs w)) \<Longrightarrow>
      offline w w' \<Longrightarrow> open_files w' = open_files w \<Longrightarrow> faults w = [] \<longrightarrow> faults w' = [] \<Longrightarrow> Q (Inr ()) w'"
  shows "wpy (py_fetch name dest total_size start digest) Q w"
proof -
  let ?p = "partial_name dest digest"
  have p: "resolve ?p = k" "creatable (fs w) ?p = creatable (fs w) (partial_path dest digest)"
    by (simp_all add: resolve_partial_name k partial_same_node)
  have rem: "nat (int (unat total_size) - int (unat start)) = n" using n by (simp add: nat_diff_distrib' flip: of_nat_diff)
  have base1: "base = (if unat start \<noteq> 0 then contents (fs w) (resolve ?p) else [])"
    by (cases "start = 0") (simp_all add: base p(1) resume_base_def unat_eq_zero word_neq_0_conv)
  have body1: "body = take (nat (int (unat total_size) - int (unat start))) (avail w)" unfolding rem by (rule body)
  show ?thesis
    unfolding py_fetch_def wpy_bind
  proof (rule wpy_fill [OF base1 body1], unfold rem p, goal_cases)
    case (1 w')
    then show ?case by (auto simp: left_over_def intro!: bad simp del: take_append)
  next
    case (2 w2)
    note fill = 2
    have held: "node_at (fs w2) ?p = Some (File (base @ body))"
      by (rule node_at_creatable [of "fs w"]) (use fill(1,3) p in \<open>simp_all add: update_conv'\<close>)
    have whole: "left_over k base body (fs w) (AList.update k (File (base @ body)) (fs w))"
      unfolding left_over_def by (intro disjI2 exI [of _ "length (base @ body)"]) simp
    show ?case
      unfolding sum.case
    proof (rule wpy_publish [OF held], unfold p, goal_cases)
      case (1 s w')
      have "left_over k base body (fs w) (fs w')"
        using 1(1) whole fill(3) by (auto simp: left_over_def delete_update_same)
      then show ?case using 1 fill by (intro bad) (auto intro: offline_trans)
    next
      case (2 w')
      have "length body = n" "avail w = body @ avail w'" using 2(3) fill(2,4) body by simp_all
      then show ?case using 2 fill by (intro good) (auto simp: delete_update_same intro: offline_trans)
    qed
  qed
qed

lemma left_over_facts:
  assumes "left_over k base body (py_cleared f start existing) f'"
    and k: "k = resolve (partial_path dest digest)" and base: "base = resume_base f k start"
  shows "files.same_except (py_keys dest digest existing) f f'" "partial_kept f dest digest start body f'"
    "map_of f' (resolve dest) = map_of f (resolve dest) \<or> map_of f' (resolve dest) = None"
proof -
  note clear = cleared_facts(1) [of dest digest existing f start] cleared_facts(3) [of f start existing]
  show "files.same_except (py_keys dest digest existing) f f'"
    using assms(1) clear(1)
    by (auto simp: left_over_def py_keys_def k intro!: files.same_except_put files.same_except_del)
  show "partial_kept f dest digest start body f'"
    using assms(1) clear(2) [of k]
    by (auto simp: left_over_def partial_kept_def Let_def k [symmetric] base [symmetric] update_conv' delete_conv' simp del: take_append)
  show "map_of f' (resolve dest) = map_of f (resolve dest) \<or> map_of f' (resolve dest) = None"
    using assms(1) clear(2) [of "resolve dest"] partial_path_keys(1) [of dest digest]
    by (auto simp: left_over_def k update_conv' delete_conv')
qed

lemma wpy_receive:
  assumes digest: "length digest = 32" and n: "n = unat total_size - unat start"
    and k: "k = resolve (partial_path dest digest)" and base: "base = resume_base (fs w) k start"
    and body: "body = take n (avail w)"
    and bad: "\<And>s w'. files.same_except (py_keys dest digest existing) (fs w) (fs w') \<Longrightarrow>
      partial_kept (fs w) dest digest start body (fs w') \<Longrightarrow> offline w w' \<Longrightarrow> open_files w' = open_files w \<Longrightarrow>
      faults w = [] \<and> receivable (fs w) dest digest existing \<longrightarrow> faults w' = [] \<and>
        (length (avail w) < n \<and> s = Exit PY_EXIT_CONN \<and>
           fs w' = AList.update k (File (base @ avail w)) (py_cleared (fs w) start existing) \<or>
         n \<le> length (avail w) \<and> sha256 (base @ body) \<noteq> digest) \<Longrightarrow>
      map_of (fs w') (resolve dest) = map_of (fs w) (resolve dest) \<or> map_of (fs w') (resolve dest) = None \<Longrightarrow>
      Q (Inl s) w'"
    and good: "\<And>w'. length body = n \<Longrightarrow> avail w = body @ avail w' \<Longrightarrow>
      published (fs w) dest digest start body (fs w') \<Longrightarrow>
      files.same_except (insert (resolve dest) (py_keys dest digest existing)) (fs w) (fs w') \<Longrightarrow>
      fs w' = AList.update (resolve dest) (File (base @ body)) (AList.delete k (py_cleared (fs w) start existing)) \<Longrightarrow>
      offline w w' \<Longrightarrow> open_files w' = open_files w \<Longrightarrow> faults w = [] \<longrightarrow> faults w' = [] \<Longrightarrow> Q (Inr ()) w'"
  shows "wpy (py_receive name dest existing (get_meta total_size start digest)) Q w"
  unfolding py_receive_eq [OF digest] py_fetch_def [symmetric] wpy_bind [of "if _ then _ else _"]
proof (rule wpy_clear, goal_cases)
  case (1 s w')
  have "faults w = [] \<longrightarrow> \<not> receivable (fs w) dest digest existing" using 1(4) by (auto simp: receivable_def)
  then show ?case using 1 by (auto intro!: bad simp: partial_kept_def Let_def)
next
  case (2 w1)
  let ?f = "py_cleared (fs w) start existing"
  have base1: "base = resume_base (fs w1) k start" by (simp add: base 2(1) cleared_facts(2))
  have body1: "body = take n (avail w1)" unfolding 2(2) by (rule body)
  note open1 = receivable_cleared [where f = "fs w" and dest = dest and digest = digest and existing = existing and start = start]
  show ?case
    unfolding sum.case
  proof (rule wpy_fetch [OF n k base1 body1], unfold 2(1,2), goal_cases)
    case (1 s w')
    note left = left_over_facts [OF 1(1) k base]
    show ?case
      by (rule bad [OF left(1,2) _ _ _ left(3)]) (use 1 2(3-5) open1 k in \<open>auto intro: offline_trans\<close>)
  next
    case (2 w')
    have "node_at (fs w') dest = Some (File (base @ body))"
      by (rule node_at_creatable [OF 2(4)]) (simp add: 2(5) update_conv')
    then have "published (fs w) dest digest start body (fs w')"
      using 2(3) partial_path_keys(1) [of dest digest]
      by (simp add: published_def Let_def k [symmetric] base [symmetric] 2(5) update_conv' delete_conv')
    moreover have "files.same_except (insert (resolve dest) (py_keys dest digest existing)) (fs w) (fs w')"
      unfolding 2(5) by (rule files.same_except_put [OF files.same_except_mono [OF left_over_facts(1) [OF _ k base, of body]]])
        (auto simp: left_over_def)
    ultimately show ?case
      using 2 \<open>offline w w1\<close> \<open>open_files w1 = open_files w\<close> \<open>faults w = [] \<longrightarrow> faults w1 = []\<close>
      by (intro good) (auto intro: offline_trans)
  qed
qed

section \<open>The whole download\<close>

text \<open>The request for a partial that was found, or none; the reply that a download goes on with.\<close>

definition py_get_frame :: "filesys \<Rightarrow> string option \<Rightarrow> string \<Rightarrow> bytes" where
  "py_get_frame f x name =
     (case offer_for f x of (_, offset, token) \<Rightarrow> frame RTRV_T_GET (get_request (word_of_nat offset) token name))"

definition good_reply :: "bytes \<Rightarrow> byte \<Rightarrow> u64 \<Rightarrow> u64 \<Rightarrow> u64 \<Rightarrow> bytes \<Rightarrow> bytes \<Rightarrow> bool" where
  "good_reply s ty len total_size start digest rest \<longleftrightarrow> PAYLOAD_CAPS ty \<noteq> None \<and> ty \<noteq> T_ERROR \<and> length digest = 32 \<and>
     s = frame_header ty len @ get_meta total_size start digest @ rest"

lemma offer_existing: "offer_for f x = (existing, offset, token) \<Longrightarrow> existing = x"
  by (auto simp: offer_for_def split: option.splits)

text \<open>What the client does with the answer to its request.\<close>

definition py_answer :: "string \<Rightarrow> string \<Rightarrow> string option \<Rightarrow> unit py" where
  "py_answer name dest existing =
     py_bind (net read_frame_header) (\<lambda>(frame_type, payload_len).
     if frame_type = T_ERROR then
       py_bind (net (read_error_payload payload_len)) (\<lambda>(_, message). fail PY_EXIT_SERVER (Refused message))
     else py_bind (net (read_exact_bytes GET_META)) (py_receive name dest existing))"

lemma net_unpack_cases: "(\<exists>e. net (unpack_error p) = throw e) \<or> (\<exists>m. net (unpack_error p) = py_return m)"
proof -
  consider "length p < 3" | "\<not> length p < 3" "length p \<noteq> 3 + from_bytes (take 2 (drop 1 p))"
    | "\<not> length p < 3" "length p = 3 + from_bytes (take 2 (drop 1 p))" "utf8 (drop 3 p)"
    | "\<not> length p < 3" "length p = 3 + from_bytes (take 2 (drop 1 p))" "\<not> utf8 (drop 3 p)"
    by blast
  then show ?thesis
    by cases (simp only: unpack_error_def Let_def decode_utf8_def net_bind net.simps py_bind_return if_True if_False simp_thms, blast)+
qed

lemma wpy_error_payload:
  assumes bad: "\<And>r g s. faults w = [] \<longrightarrow> g = [] \<Longrightarrow> Q (Inl s) (w\<lparr>rx := r, faults := g\<rparr>)"
    and good: "\<And>r m. Q (Inr m) (w\<lparr>rx := r\<rparr>)"
  shows "wpy (net (read_error_payload n)) Q w"
proof (cases "the (PAYLOAD_CAPS T_ERROR) < n")
  case True
  then show ?thesis using bad [of "faults w" _ "rx w"] by (simp add: read_error_payload_def wpy_simps)
next
  case False
  have unpack: "wpy (net (unpack_error p)) Q (w\<lparr>rx := r\<rparr>)" for p r
    using net_unpack_cases [of p] bad [of "faults w" _ r] good [of _ r] by (auto simp: wpy_simps)
  have "wpy (net (bind (read_exact_bytes n) unpack_error)) Q w"
    unfolding net_bind wpy_bind
    by (rule wpy_read_exact) (use unpack bad in \<open>simp_all add: net_broken_def\<close>)
  then show ?thesis using False by (simp add: read_error_payload_def)
qed

lemma wpy_answer:
  assumes early: "\<And>s w'. unmoved w w' \<Longrightarrow>
      faults w = [] \<longrightarrow> (\<nexists>ty len total_size start digest rest. good_reply (avail w) ty len total_size start digest rest) \<Longrightarrow> Q (Inl s) w'"
    and late: "\<And>r total_size start digest ty len. good_reply (avail w) ty len total_size start digest (rx_bytes r) \<Longrightarrow>
      wpy (py_receive name dest existing (get_meta total_size start digest)) Q (w\<lparr>rx := r\<rparr>)"
  shows "wpy (py_answer name dest existing) Q w"
  unfolding py_answer_def wpy_bind [of "net read_frame_header"]
proof (rule wpy_read_frame_header, goal_cases)
  case (2 e r g)
  then have "\<not> good_reply (avail w) ty len total_size start digest rest" for ty len total_size start digest rest
    unfolding good_reply_def by blast
  then show ?case by (auto intro!: early simp: unmoved_def)
next
  case (1 ty len r)
  note hdr = 1
  show ?case
  proof (cases "ty = T_ERROR")
    case True
    have "wpy (py_bind (net (read_error_payload (unat len))) (\<lambda>(_, message). fail PY_EXIT_SERVER (Refused message))) Q (w\<lparr>rx := r\<rparr>)"
      unfolding wpy_bind
      by (rule wpy_error_payload)
        (use hdr True in \<open>auto simp: wpy_simps unmoved_def good_reply_def frame_header_inject intro!: early\<close>)
    then show ?thesis using True by simp
  next
    case False
    have "wpy (py_bind (net (read_exact_bytes GET_META)) (py_receive name dest existing)) Q (w\<lparr>rx := r\<rparr>)"
      unfolding wpy_bind
    proof (rule wpy_read_exact, goal_cases)
      case (1 r')
      have len48: "length (take GET_META (rx_bytes r)) = 48" using 1(1) by (simp add: GET_META_def HASH_SIZE_def)
      obtain total_size start digest where m: "take GET_META (rx_bytes r) = get_meta total_size start digest" "length digest = 32"
        using get_meta_exists [OF len48] by blast
      have "good_reply (avail w) ty len total_size start digest (rx_bytes r')"
        using hdr False 1 m by (simp add: good_reply_def flip: m(1))
      then show ?case using late [of ty len total_size start digest r'] m(1) by simp
    next
      case (2 e r' g)
      have "\<not> good_reply (avail w) ty' len' total_size start digest rest" for ty' len' total_size start digest rest
        using 2(1) hdr(1) by (auto simp: good_reply_def frame_header_inject get_meta_def GET_META_def HASH_SIZE_def)
      then show ?case by (auto intro!: early simp: unmoved_def)
    qed
    then show ?thesis using False by simp
  qed
qed

text \<open>The request for what was found, and the answer.\<close>

definition py_request :: "string \<Rightarrow> string \<Rightarrow> string option \<times> nat \<times> bytes \<Rightarrow> unit py" where
  "py_request name dest = (\<lambda>(existing, offset, token).
     py_bind (net (bind (get_payload offset token name) (write_frame T_GET))) (\<lambda>_. py_answer name dest existing))"

lemma wpy_request:
  assumes early: "\<And>s w' k. fs w' = fs w \<Longrightarrow> open_files w' = open_files w \<Longrightarrow>
      tx w' = tx w @ take k (py_get_frame (fs w) x name) \<Longrightarrow>
      faults w = [] \<and> TxErr \<notin> set (tx_plan w) \<longrightarrow> \<not> sendable (fst (snd (offer_for (fs w) x))) name \<or>
        (\<nexists>ty len total_size start digest rest. good_reply (avail w) ty len total_size start digest rest) \<Longrightarrow> Q (Inl s) w'"
    and late: "\<And>w1 total_size start digest ty len. good_reply (avail w) ty len total_size start digest (avail w1) \<Longrightarrow>
      fs w1 = fs w \<Longrightarrow> open_files w1 = open_files w \<Longrightarrow> tx w1 = tx w @ py_get_frame (fs w) x name \<Longrightarrow>
      set (tx_plan w1) \<subseteq> set (tx_plan w) \<Longrightarrow> faults w1 = faults w \<Longrightarrow>
      wpy (py_receive name dest x (get_meta total_size start digest)) Q w1"
  shows "wpy (py_request name dest (offer_for (fs w) x)) Q w"
proof -
  obtain offset token where offer: "offer_for (fs w) x = (x, offset, token)"
    using offer_existing by (cases "offer_for (fs w) x") blast
  have f: "py_get_frame (fs w) x name = frame RTRV_T_GET (get_request (word_of_nat offset) token name)"
    by (simp add: py_get_frame_def offer)
  show ?thesis
    unfolding offer py_request_def prod.case wpy_bind
  proof (rule wpy_send_get [OF offer_token [OF offer]], goal_cases)
    case 1
    show ?case unfolding sum.case by (rule early [of _ 0]) (use 1 in \<open>simp_all add: offer\<close>)
  next
    case sent: (2 q)
    show ?case
      unfolding sum.case
    proof (rule wpy_answer, goal_cases)
      case (1 s w')
      then show ?case by (intro early [of _ "length (py_get_frame (fs w) x name)"]) (use f in \<open>auto simp: unmoved_def\<close>)
    next
      case (2 r total_size start digest ty len)
      show ?case by (rule late [of ty len]) (use 2 sent f in auto)
    qed
  next
    case (3 e k q g)
    then show ?case unfolding sum.case by (intro early [of _ k]) (use f in auto)
  qed
qed

lemma py_do_get_eq:
  "py_do_get dirs name output =
     (let dest = name_or_base output name in
      py_bind (py_ask (\<lambda>f. node_at f dest \<noteq> None)) (\<lambda>exists.
      if exists then fail PY_EXIT_LOCAL (ExistsLocally dest)
      else py_bind (py_offer dirs dest) (py_request name dest)))"
  by (simp only: py_do_get_def py_answer_def py_request_def)

text \<open>
  The ways a download ends: before the metadata block is read, with the files as they were; later,
  with only the partial and what was found in its place changed; or with the file published.
\<close>

lemma wpy_do_get:
  assumes dest: "dest = name_or_base output name"
    and old: "\<And>w'. node_at (fs w) dest \<noteq> None \<Longrightarrow> w' = w\<lparr>err := err w @ [ExistsLocally dest]\<rparr> \<Longrightarrow>
      Q (Inl (Exit PY_EXIT_LOCAL)) w'"
    and early: "\<And>s w' x k. node_at (fs w) dest = None \<Longrightarrow> fs w' = fs w \<Longrightarrow> open_files w' = open_files w \<Longrightarrow>
      tx w' = tx w @ take k (py_get_frame (fs w) x name) \<Longrightarrow>
      faults w = [] \<and> TxErr \<notin> set (tx_plan w) \<longrightarrow> x = the_match (py_matches dirs (fs w) dest) \<and>
        ((\<exists>p. x = Some p \<and> node_at (fs w) p = None) \<or> \<not> sendable (fst (snd (offer_for (fs w) x))) name \<or>
         (\<nexists>ty len total_size start digest rest. good_reply (avail w) ty len total_size start digest rest)) \<Longrightarrow> Q (Inl s) w'"
    and late: "\<And>w1 x total_size start digest ty len. node_at (fs w) dest = None \<Longrightarrow>
      good_reply (avail w) ty len total_size start digest (avail w1) \<Longrightarrow> fs w1 = fs w \<Longrightarrow> open_files w1 = open_files w \<Longrightarrow>
      tx w1 = tx w @ py_get_frame (fs w) x name \<Longrightarrow> set (tx_plan w1) \<subseteq> set (tx_plan w) \<Longrightarrow>
      faults w = [] \<longrightarrow> faults w1 = [] \<and> x = the_match (py_matches dirs (fs w) dest) \<Longrightarrow>
      wpy (py_receive name dest x (get_meta total_size start digest)) Q w1"
  shows "wpy (py_do_get dirs name output) Q w"
proof (cases "node_at (fs w) dest = None")
  case False
  then show ?thesis using old by (simp add: py_do_get_eq wpy_simps flip: dest)
next
  case new: True
  have "wpy (py_bind (py_offer dirs dest) (py_request name dest)) Q w"
    unfolding wpy_bind
  proof (rule wpy_offer, goal_cases)
    case (1 g p)
    show ?case
      unfolding sum.case
    proof (rule early [OF new, of _ 0 "Some p"], goal_cases)
      case 4
      show ?case using 1 by metis
    qed simp_all
  next
    case (2 g x)
    have "wpy (py_request name dest (offer_for (fs (w\<lparr>faults := g\<rparr>)) x)) Q (w\<lparr>faults := g\<rparr>)"
    proof (rule wpy_request, goal_cases)
      case (1 s w' k)
      then show ?case by (intro early [OF new, of _ k x]) (use 2 in auto)
    next
      case late': (2 w1 total_size start digest ty len)
      show ?case by (rule late [OF new, of ty len]) (use late' 2 in auto)
    qed
    then show ?case by simp
  qed
  then show ?thesis using new by (simp add: py_do_get_eq wpy_simps flip: dest)
qed

end
