(* ===== verification/Rtrv_Py_Put.thy ===== *)
theory Rtrv_Py_Put
  imports Rtrv_Py_Get
begin

text \<open>
  The upload and the listing of the Python client, for every behaviour of the environment.
\<close>

section \<open>The upload\<close>

lemma net_put_payload:
  "net (put_payload n digest name) =
     (if sendable n name then py_return (put_request (word_of_nat n) digest name) else throw OtherErr)"
proof (cases "sendable n name")
  case True
  then show ?thesis by (simp add: put_payload_def encode_utf8_def net_bind net_to_bytes sendable_def put_request_def)
next
  case False
  then show ?thesis by (auto simp: put_payload_def encode_utf8_def net_bind to_bytes_def sendable_def)
qed

text \<open>One turn of the loop: the read fails, the file has ended, the send fails, or the loop goes on behind the piece.\<close>

lemma wpy_put_step:
  assumes pos: "0 < remaining" and src: "\<not> if_error h" "\<not> is_dir (fs w) (if_path h)" and c: "c = contents (fs w) (if_path h)"
    and unread: "\<And>g. faults w \<noteq> [] \<Longrightarrow> Q (Inl (Thrown OsErr)) (w\<lparr>faults := g\<rparr>)"
    and ended: "\<And>g. faults w = [] \<longrightarrow> g = [] \<Longrightarrow> drop (if_pos h) c = [] \<Longrightarrow> Q (Inr ()) (w\<lparr>faults := g\<rparr>)"
    and unsent: "\<And>bs s e k q g. drop (if_pos h) c = bs @ s \<Longrightarrow> length bs \<le> nat remaining \<Longrightarrow> TxErr \<in> set (tx_plan w) \<Longrightarrow>
      Q (Inl (Thrown e)) (w\<lparr>tx := tx w @ take k bs, tx_plan := q, faults := g\<rparr>)"
    and on: "\<And>bs g q. drop (if_pos h) c = bs @ drop (if_pos h + length bs) c \<Longrightarrow> bs \<noteq> [] \<Longrightarrow> length bs \<le> nat remaining \<Longrightarrow>
      faults w = [] \<longrightarrow> g = [] \<Longrightarrow> set q \<subseteq> set (tx_plan w) \<Longrightarrow>
      wpy (py_put_loop (h\<lparr>if_pos := if_pos h + length bs\<rparr>) (remaining - int (length bs))) Q
        (w\<lparr>faults := g, tx := tx w @ bs, tx_plan := q\<rparr>)"
  shows "wpy (py_put_loop h remaining) Q w"
proof -
  let ?n = "nat (min 65536 remaining)"
  have "wpy (py_bind (file_read h ?n) (\<lambda>(chunk, f). if chunk = [] then py_return ()
      else py_bind (net (perform_call (SendAll chunk))) (\<lambda>_. py_put_loop f (remaining - int (length chunk))))) Q w"
    unfolding wpy_bind [of "file_read h ?n"]
  proof (rule wpy_file_read [OF src], goal_cases)
    case (1 g)
    then show ?case using unread by simp
  next
    case (2 g bs)
    have le: "length bs \<le> nat remaining" using 2(2) by simp
    have bs: "drop (if_pos h) c = bs @ drop (if_pos h + length bs) c"
      using 2(2) c by (metis append_eq_conv_conj append_take_drop_id drop_drop add.commute)
    show ?case
    proof (cases "bs = []")
      case True
      then have "drop (if_pos h) c = []" using 2(2) pos c by (auto simp: min_def split: if_splits)
      then show ?thesis using True 2(1) ended by (simp add: wpy_simps)
    next
      case False
      have "wpy (py_bind (net (perform_call (SendAll bs)))
          (\<lambda>_. py_put_loop (h\<lparr>if_pos := if_pos h + length bs\<rparr>) (remaining - int (length bs)))) Q (w\<lparr>faults := g\<rparr>)"
        unfolding wpy_bind
        by (rule wpy_sendall) (use on [OF bs False le 2(1)] unsent [OF bs le] in \<open>simp_all\<close>)
      then show ?thesis using False by simp
    qed
  qed
  then show ?thesis using pos by (subst py_put_loop.simps) simp
qed

text \<open>The loop sends the file from the position on, at most \<open>remaining\<close> bytes.\<close>

lemma wpy_put_loop:
  assumes src: "\<not> if_error h" "\<not> is_dir (fs w) (if_path h)" and c: "c = contents (fs w) (if_path h)"
    and good: "\<And>w'. tx w' = tx w @ take (nat remaining) (drop (if_pos h) c) \<Longrightarrow> set (tx_plan w') \<subseteq> set (tx_plan w) \<Longrightarrow>
      fs w' = fs w \<Longrightarrow> open_files w' = open_files w \<Longrightarrow> avail w' = avail w \<Longrightarrow> out w' = out w \<Longrightarrow>
      faults w = [] \<longrightarrow> faults w' = [] \<Longrightarrow> Q (Inr ()) w'"
    and bad: "\<And>w' e k. tx w' = tx w @ take k (take (nat remaining) (drop (if_pos h) c)) \<Longrightarrow> fs w' = fs w \<Longrightarrow>
      open_files w' = open_files w \<Longrightarrow> faults w \<noteq> [] \<or> TxErr \<in> set (tx_plan w) \<Longrightarrow> Q (Inl (Thrown e)) w'"
  shows "wpy (py_put_loop h remaining) Q w"
  using assms
proof (induction "nat remaining" arbitrary: remaining w h rule: less_induct)
  case less
  note src = less.prems(1,2) and c = less.prems(3) and good = less.prems(4) and bad = less.prems(5)
  show ?case
  proof (cases "0 < remaining")
    case False
    then have "Q (Inr ()) w" by (intro good) simp_all
    with False show ?thesis by (simp add: py_put_loop.simps [of h] wpy_simps)
  next
    case pos: True
    show ?thesis
    proof (rule wpy_put_step [OF pos src c], goal_cases)
      case (1 g)
      show ?case by (rule bad [of _ 0]) (use 1 in simp_all)
    next
      case (2 g)
      show ?case by (rule good) (use 2 in simp_all)
    next
      case (3 bs s e k q g)
      show ?case by (rule bad [of _ "min k (length bs)"]) (use 3 take_through(1) [OF 3(1,2)] in \<open>simp_all add: min_def\<close>)
    next
      case (4 bs g q)
      let ?left = "remaining - int (length bs)"
      have left: "nat ?left = nat remaining - length bs" using 4(3) pos by (simp add: nat_diff_distrib)
      have smaller: "nat ?left < nat remaining" using pos 4(2) by (simp add: left)
      note all = take_through(1) [OF 4(1,3)]
      show ?case
      proof (rule less.hyps [OF smaller], goal_cases)
        case (4 w')
        then show ?case by (intro good) (use \<open>faults w = [] \<longrightarrow> g = []\<close> \<open>set q \<subseteq> set (tx_plan w)\<close> all left in auto)
      next
        case (5 w' k e)
        then show ?case
          by (intro bad [of _ "length bs + k"]) (use \<open>faults w = [] \<longrightarrow> g = []\<close> \<open>set q \<subseteq> set (tx_plan w)\<close> all left in auto)
      qed (use src c in simp_all)
    qed
  qed
qed

lemma wpy_put_reply:
  assumes good: "\<And>ty payload r. avail w = frame ty payload @ rx_bytes r \<Longrightarrow> frame_within ty payload \<Longrightarrow> ty \<noteq> T_ERROR \<Longrightarrow>
      Q (Inr payload) (w\<lparr>rx := r\<rparr>)"
    and bad: "\<And>s w'. unmoved w w' \<Longrightarrow>
      faults w = [] \<longrightarrow> (\<nexists>ty payload rest. avail w = frame ty payload @ rest \<and> frame_within ty payload \<and> ty \<noteq> T_ERROR) \<Longrightarrow>
      Q (Inl s) w'"
  shows "wpy py_put_reply Q w"
  unfolding py_put_reply_def wpy_bind [of "net read_frame"]
proof (rule wpy_read_frame, goal_cases)
  case (1 ty payload r)
  show ?case
  proof (cases "ty = T_ERROR")
    case True
    have "\<not> (avail w = frame ty' p @ rest \<and> frame_within ty' p \<and> ty' \<noteq> T_ERROR)" for ty' p rest
      using 1 True by (auto simp: frame_def frame_header_inject)
    then have no: "Q (Inl s) (w\<lparr>rx := r, err := m\<rparr>)" "Q (Inl s) (w\<lparr>rx := r\<rparr>)" for s m
      by (auto intro!: bad simp: unmoved_def)
    from net_unpack_cases [of payload]
    have "wpy (py_bind (net (unpack_error payload)) (\<lambda>(_, message). fail PY_EXIT_SERVER (Refused message))) Q (w\<lparr>rx := r\<rparr>)"
      using no by (elim disjE exE) (simp_all add: wpy_simps split: prod.split)
    then show ?thesis using True by simp
  qed (use 1 good in \<open>simp add: wpy_simps\<close>)
next
  case (2 e r g)
  then show ?case unfolding sum.case by (intro bad) (auto simp: unmoved_def)
qed

text \<open>Sending the file, from the offset that the server holds.\<close>

definition py_put_body :: "string \<Rightarrow> nat \<Rightarrow> nat \<Rightarrow> unit py" where
  "py_put_body filename file_size resume_offset =
     py_bind (open_in filename) (\<lambda>f.
     py_finally (py_bind (file_seek f resume_offset) (\<lambda>f. py_put_loop f (int file_size - int resume_offset))) (close_in f))"

lemma wpy_put_body:
  assumes c: "node_at (fs w) p = Some (File c)"
    and good: "\<And>w'. off < 2 ^ 63 \<Longrightarrow> tx w' = tx w @ drop off c \<Longrightarrow> set (tx_plan w') \<subseteq> set (tx_plan w) \<Longrightarrow>
      fs w' = fs w \<Longrightarrow> open_files w' = open_files w \<Longrightarrow> avail w' = avail w \<Longrightarrow> out w' = out w \<Longrightarrow>
      faults w = [] \<longrightarrow> faults w' = [] \<Longrightarrow> Q (Inr ()) w'"
    and bad: "\<And>w' e k. tx w' = tx w @ take k (drop off c) \<Longrightarrow> fs w' = fs w \<Longrightarrow> open_files w' = open_files w \<Longrightarrow>
      faults w \<noteq> [] \<or> TxErr \<in> set (tx_plan w) \<or> 2 ^ 63 \<le> off \<Longrightarrow> Q (Inl (Thrown e)) w'"
  shows "wpy (py_put_body p (length c) off) Q w"
  unfolding py_put_body_def wpy_bind [of "open_in p"]
proof (rule wpy_open_in, goal_cases)
  case (1 g)
  then show ?case using c by simp (rule bad [of _ 0], simp_all)
next
  case (2 g c')
  let ?h = "\<lparr>if_path = resolve p, if_pos = 0, if_error = False\<rparr>"
  let ?w = "w\<lparr>faults := g, open_files := Suc (open_files w)\<rparr>"
  have src: "contents (fs w) (resolve p) = c" "\<not> is_dir (fs w) (resolve p)"
    using c by (auto simp: node_at_def contents_def is_dir_def split: if_splits option.splits node.splits)
  have close: "wpy (close_in ?h) R w' = R (Inr ()) (w'\<lparr>open_files := open_files w\<rparr>)"
    if "open_files w' = Suc (open_files w)" for R w'
    using that by (simp add: wpy_simps)
  show ?case
    unfolding sum.case wpy_finally
  proof (cases "off < 2 ^ 63")
    case False
    then show "wpy (py_bind (file_seek ?h off) (\<lambda>f. py_put_loop f (int (length c) - int off)))
       (\<lambda>r w'. wpy (close_in ?h) (\<lambda>r' w''. case r' of Inl s \<Rightarrow> Q (Inl s) w'' | Inr _ \<Rightarrow> Q r w'') w') ?w"
      by (simp add: file_seek_def wpy_simps) (rule bad [of _ 0], simp_all)
  next
    case True
    show "wpy (py_bind (file_seek ?h off) (\<lambda>f. py_put_loop f (int (length c) - int off)))
       (\<lambda>r w'. wpy (close_in ?h) (\<lambda>r' w''. case r' of Inl s \<Rightarrow> Q (Inl s) w'' | Inr _ \<Rightarrow> Q r w'') w') ?w"
      unfolding wpy_bind
    proof (rule wpy_file_seek [OF True], goal_cases)
      case (1 g')
      then show ?case using 2(1) by (simp add: close ) (rule bad [of _ 0], simp_all)
    next
      case seek: (2 g')
      have all: "take (nat (int (length c) - int off)) (drop off c) = drop off c" by simp
      show ?case
        unfolding sum.case
      proof (rule wpy_put_loop [where c = c], goal_cases)
        case (4 w')
        then show ?case using seek 2(1) True all
          by (simp add: close) (rule good, auto)
      next
        case (5 w' e k)
        then show ?case using seek 2(1) all
          by (simp add: close) (rule bad [of _ k], auto)
      qed (use src in simp_all)
    qed
  qed
qed

text \<open>
  What is sent once the server has named its offset, and its verdict.
\<close>

definition py_put_finish :: "string \<Rightarrow> bytes \<Rightarrow> string \<Rightarrow> nat \<Rightarrow> unit py" where
  "py_put_finish filename c remote off =
     py_bind (py_put_body filename (length c) off) (\<lambda>_.
     py_bind py_put_reply (\<lambda>_. py_print (Uploaded filename (word_of_nat (length c)) remote)))"

definition py_send_put :: "string \<Rightarrow> bytes \<Rightarrow> string \<Rightarrow> unit py" where
  "py_send_put filename c remote =
     py_bind (net (bind (put_payload (length c) (sha256 c) remote) (write_frame T_PUT))) (\<lambda>_.
     py_bind py_put_reply (\<lambda>payload.
     py_bind (if from_bytes (take 8 payload) \<noteq> 0 then py_print (ResumingUpload (word_of_nat (from_bytes (take 8 payload)))) else py_return ()) (\<lambda>_.
     py_put_finish filename c remote (from_bytes (take 8 payload)))))"

text \<open>
  The replies that an upload of \<open>c\<close> ends well with: an offset that \<open>seek\<close> can take, and a verdict.
\<close>

definition put_replies :: "bytes \<Rightarrow> nat \<Rightarrow> bytes \<Rightarrow> bool" where
  "put_replies s off rest \<longleftrightarrow> off < 2 ^ 63 \<and>
     (\<exists>t1 p1 t2 p2. frame_within t1 p1 \<and> frame_within t2 p2 \<and> t1 \<noteq> T_ERROR \<and> t2 \<noteq> T_ERROR \<and>
        off = from_bytes (take 8 p1) \<and> s = frame t1 p1 @ frame t2 p2 @ rest)"

text \<open>A verdict: a frame that is no ERROR.\<close>

definition verdict :: "bytes \<Rightarrow> bytes \<Rightarrow> bool" where
  "verdict s rest \<longleftrightarrow> (\<exists>ty payload. frame_within ty payload \<and> ty \<noteq> T_ERROR \<and> s = frame ty payload @ rest)"

lemma put_replies_iff:
  assumes "s = frame ty payload @ s'" and "frame_within ty payload" and "ty \<noteq> T_ERROR"
  shows "put_replies s off rest \<longleftrightarrow> off = from_bytes (take 8 payload) \<and> off < 2 ^ 63 \<and> verdict s' rest"
proof
  assume "put_replies s off rest"
  then obtain t1 p1 t2 p2 where r: "off < 2 ^ 63" "frame_within t1 p1" "frame_within t2 p2" "t1 \<noteq> T_ERROR" "t2 \<noteq> T_ERROR"
      "off = from_bytes (take 8 p1)" "s = frame t1 p1 @ frame t2 p2 @ rest"
    unfolding put_replies_def by blast
  then show "off = from_bytes (take 8 payload) \<and> off < 2 ^ 63 \<and> verdict s' rest"
    using frame_unique [of ty payload s' t1 p1 "frame t2 p2 @ rest"] assms(1,2) by (auto simp: verdict_def)
next
  assume "off = from_bytes (take 8 payload) \<and> off < 2 ^ 63 \<and> verdict s' rest"
  then show "put_replies s off rest" using assms by (auto simp: put_replies_def verdict_def)
qed

lemma wpy_put_finish:
  assumes c: "node_at (fs w) path = Some (File c)"
    and good: "\<And>w'. off < 2 ^ 63 \<Longrightarrow> verdict (avail w) (avail w') \<Longrightarrow> tx w' = tx w @ drop off c \<Longrightarrow>
      set (tx_plan w') \<subseteq> set (tx_plan w) \<Longrightarrow> fs w' = fs w \<Longrightarrow> open_files w' = open_files w \<Longrightarrow>
      faults w = [] \<longrightarrow> faults w' = [] \<Longrightarrow> Q (Inr ()) w'"
    and bad: "\<And>s w' k. tx w' = tx w @ take k (drop off c) \<Longrightarrow> fs w' = fs w \<Longrightarrow> open_files w' = open_files w \<Longrightarrow>
      faults w = [] \<and> TxErr \<notin> set (tx_plan w) \<longrightarrow> \<not> (off < 2 ^ 63 \<and> (\<exists>rest. verdict (avail w) rest)) \<Longrightarrow> Q (Inl s) w'"
  shows "wpy (py_put_finish path c remote off) Q w"
  unfolding py_put_finish_def wpy_bind [of "py_put_body _ _ _"]
proof (rule wpy_put_body [OF c], goal_cases)
  case (1 w2)
  note body = 1
  show ?case
    unfolding sum.case wpy_bind
  proof (rule wpy_put_reply, goal_cases)
    case (1 ty payload r)
    then have "verdict (avail w) (rx_bytes r)" using body(6) by (auto simp: verdict_def)
    then show ?case using body by (simp add: wpy_simps) (rule good, simp_all)
  next
    case (2 s w')
    then show ?case unfolding sum.case using body
      by (intro bad [of _ "length c"]) (auto simp: unmoved_def verdict_def)
  qed
next
  case (2 w' e k)
  then show ?case unfolding sum.case by (intro bad [of _ k]) auto
qed

lemma wpy_send_put:
  assumes c: "node_at (fs w) path = Some (File c)"
    and good: "\<And>w' off. put_replies (avail w) off (avail w') \<Longrightarrow> sendable (length c) remote \<Longrightarrow>
      tx w' = tx w @ put_frame c remote @ drop off c \<Longrightarrow> set (tx_plan w') \<subseteq> set (tx_plan w) \<Longrightarrow> fs w' = fs w \<Longrightarrow>
      open_files w' = open_files w \<Longrightarrow> faults w = [] \<longrightarrow> faults w' = [] \<Longrightarrow> Q (Inr ()) w'"
    and bad: "\<And>s w' off k. tx w' = tx w @ take k (put_frame c remote @ drop off c) \<Longrightarrow> fs w' = fs w \<Longrightarrow>
      open_files w' = open_files w \<Longrightarrow>
      faults w = [] \<and> TxErr \<notin> set (tx_plan w) \<longrightarrow> \<not> (sendable (length c) remote \<and> (\<exists>off rest. put_replies (avail w) off rest)) \<Longrightarrow>
      Q (Inl s) w'"
  shows "wpy (py_send_put path c remote) Q w"
proof (cases "sendable (length c) remote")
  case False
  have "Q (Inl (Thrown OtherErr)) w" by (rule bad [of _ 0]) (use False in simp_all)
  then show ?thesis using False by (simp add: py_send_put_def net_bind net_put_payload wpy_simps)
next
  case ok: True
  let ?m = "length (put_frame c remote)"
  have short: "length (put_request (word_of_nat (length c)) (sha256 c) remote) < 2 ^ 64" using ok by (simp add: sendable_def)
  have frame: "frame T_PUT (put_request (word_of_nat (length c)) (sha256 c) remote) = put_frame c remote"
    by (simp add: put_frame_def same_wire)
  show ?thesis
    unfolding py_send_put_def net_bind net_put_payload if_P [OF ok] py_bind_return(1) wpy_bind [of "net (write_frame _ _)"]
  proof (rule wpy_write_frame [OF short], unfold frame, goal_cases)
    case (2 e k q g)
    have "Q (Inl (Thrown e)) (w\<lparr>tx := tx w @ take k (put_frame c remote), tx_plan := q, faults := g\<rparr>)"
      by (rule bad [of _ "min k ?m"]) (use 2 in \<open>auto simp: min_def\<close>)
    then show ?case by simp
  next
    case sent: (1 q)
    let ?w = "w\<lparr>tx := tx w @ put_frame c remote, tx_plan := q\<rparr>"
    show ?case
      unfolding sum.case wpy_bind [of py_put_reply]
    proof (rule wpy_put_reply, goal_cases)
      case (2 s w')
      then show ?case unfolding sum.case by (intro bad [of _ ?m]) (auto simp: unmoved_def put_replies_def)
    next
      case (1 ty payload r)
      let ?off = "from_bytes (take 8 payload)"
      have "avail w = frame ty payload @ rx_bytes r" using 1(1) by simp
      note replies = put_replies_iff [OF this 1(2,3)]
      have finish: "wpy (py_put_finish path c remote ?off) Q (?w\<lparr>rx := r, out := m\<rparr>)" for m
      proof (rule wpy_put_finish, goal_cases)
        case (2 w')
        then show ?case using ok sent by (intro good [of ?off]) (auto simp: replies)
      next
        case (3 s w' k)
        then show ?case using sent by (intro bad [of _ "?m + k" ?off]) (auto simp: replies take_add)
      qed (use c in simp)
      show ?case
        using finish [of "out w"] finish [of "out w @ [ResumingUpload (word_of_nat ?off)]"]
        by (cases "?off = 0") (simp_all add: wpy_simps)
    qed
  qed
qed

lemma py_do_put_eq:
  "py_do_put path remote_name =
     py_bind (py_ask (\<lambda>f. case node_at f path of Some (File _) \<Rightarrow> True | _ \<Rightarrow> False)) (\<lambda>isfile.
     if \<not> isfile then fail PY_EXIT_LOCAL (NotFoundLocally path)
     else py_bind (os_path_getsize path) (\<lambda>file_size. py_bind (py_sha256_file path) (\<lambda>digest.
       py_bind (net (bind (put_payload file_size digest (name_or_base remote_name path)) (write_frame T_PUT))) (\<lambda>_.
       py_bind py_put_reply (\<lambda>payload.
       py_bind (if from_bytes (take 8 payload) \<noteq> 0 then py_print (ResumingUpload (word_of_nat (from_bytes (take 8 payload)))) else py_return ()) (\<lambda>_.
       py_bind (py_put_body path file_size (from_bytes (take 8 payload))) (\<lambda>_.
       py_bind py_put_reply (\<lambda>_.
       py_print (Uploaded path (word_of_nat file_size) (name_or_base remote_name path))))))))))"
  by (simp only: py_do_put_def py_put_body_def Let_def)

lemma wpy_do_put:
  assumes remote: "remote = name_or_base remote_name path"
    and good: "\<And>w' c off. node_at (fs w) path = Some (File c) \<Longrightarrow> put_replies (avail w) off (avail w') \<Longrightarrow>
      sendable (length c) remote \<Longrightarrow> tx w' = tx w @ put_frame c remote @ drop off c \<Longrightarrow>
      set (tx_plan w') \<subseteq> set (tx_plan w) \<Longrightarrow> fs w' = fs w \<Longrightarrow>
      open_files w' = open_files w \<Longrightarrow> faults w = [] \<longrightarrow> faults w' = [] \<Longrightarrow> Q (Inr ()) w'"
    and bad: "\<And>s w' c off k. k = 0 \<or> node_at (fs w) path = Some (File c) \<Longrightarrow>
      tx w' = tx w @ take k (put_frame c remote @ drop off c) \<Longrightarrow> fs w' = fs w \<Longrightarrow> open_files w' = open_files w \<Longrightarrow>
      faults w = [] \<and> TxErr \<notin> set (tx_plan w) \<longrightarrow>
        \<not> (\<exists>c off rest. node_at (fs w) path = Some (File c) \<and> sendable (length c) remote \<and> put_replies (avail w) off rest) \<Longrightarrow>
      Q (Inl s) w'"
  shows "wpy (py_do_put path remote_name) Q w"
proof (cases "\<exists>c. node_at (fs w) path = Some (File c)")
  case False
  have "Q (Inl (Exit PY_EXIT_LOCAL)) (w\<lparr>err := err w @ [NotFoundLocally path]\<rparr>)"
    by (rule bad [of 0]) (use False in auto)
  then show ?thesis using False
    by (simp add: py_do_put_eq wpy_simps split: option.split node.split)
next
  case True
  then obtain c where c: "node_at (fs w) path = Some (File c)" by blast
  have "wpy (py_bind (py_sha256_file path) (\<lambda>digest.
       py_bind (net (bind (put_payload (length c) digest remote) (write_frame T_PUT))) (\<lambda>_.
       py_bind py_put_reply (\<lambda>payload.
       py_bind (if from_bytes (take 8 payload) \<noteq> 0 then py_print (ResumingUpload (word_of_nat (from_bytes (take 8 payload)))) else py_return ()) (\<lambda>_.
       py_bind (py_put_body path (length c) (from_bytes (take 8 payload))) (\<lambda>_.
       py_bind py_put_reply (\<lambda>_.
       py_print (Uploaded path (word_of_nat (length c)) remote)))))))) Q w"
    unfolding wpy_bind [of "py_sha256_file path"]
  proof (rule wpy_sha256_file, goal_cases)
    case (1 g)
    then show ?case unfolding sum.case using c by (intro bad [of 0]) auto
  next
    case (2 g c')
    then have "c' = c" using c by simp
    have "wpy (py_send_put path c remote) Q (w\<lparr>faults := g\<rparr>)"
    proof (rule wpy_send_put, goal_cases)
      case (2 w' off)
      then show ?case by (intro good [OF c]) (use \<open>faults w = [] \<longrightarrow> g = []\<close> in auto)
    next
      case (3 s w' off k)
      then show ?case
        by (intro bad [of k c _ off, OF disjI2 [OF c]]) (use c \<open>faults w = [] \<longrightarrow> g = []\<close> in auto)
    qed (use c in simp)
    then show ?case unfolding sum.case \<open>c' = c\<close> py_send_put_def py_put_finish_def .
  qed
  then show ?thesis using c unfolding py_do_put_eq remote [symmetric] by (simp add: wpy_getsize wpy_bind wpy_ask st_size_def)
qed

end
