(* ===== verification/Rtrv_Threads.thy ===== *)
theory Rtrv_Threads
  imports Rtrv_Server
begin

text \<open>
  The server as a system of threads: the accept loop of \<open>start_server\<close> with its semaphore, and the
  sessions, whose system calls interleave in any order and with any answers. A static discipline on
  programs says who may touch a partial and when; the locale \<open>disciplined_server\<close> shows what follows
  for every interleaving of programs that keep it.
\<close>

section \<open>The system\<close>

definition MAX_CLIENTS :: nat where "MAX_CLIENTS = 32"

text \<open>A session is a program, or it has closed its socket and given back its slot.\<close>

datatype thread = Running "bool proc" | Finished

record sys =
  mem :: shared
  threads :: "thread list"

definition live :: "thread list \<Rightarrow> nat" where
  "live ts = length (filter (\<lambda>t. t \<noteq> Finished) ts)"

text \<open>
  One step of the system, for the two programs of a session: a client is admitted when a slot is free,
  a session makes a call, it goes on to the next command, or it ends.
\<close>

datatype event = Accepted | Called nat action choice answer | Turned nat | Ended nat

inductive server_step :: "bool proc \<Rightarrow> bool proc \<Rightarrow> sys \<Rightarrow> event \<Rightarrow> sys \<Rightarrow> bool" for hello turn where
  accepted: "live (threads s) < MAX_CLIENTS \<Longrightarrow>
    server_step hello turn s Accepted (s\<lparr>threads := threads s @ [Running hello]\<rparr>)"
| called: "i < length (threads s) \<Longrightarrow> threads s ! i = Running (Act a k) \<Longrightarrow> perform i a c (mem s) = Some (r, S) \<Longrightarrow>
    server_step hello turn s (Called i a c r) (s\<lparr>mem := S, threads := (threads s)[i := Running (k r)]\<rparr>)"
| turned: "i < length (threads s) \<Longrightarrow> threads s ! i = Running (Return True) \<Longrightarrow>
    server_step hello turn s (Turned i) (s\<lparr>threads := (threads s)[i := Running turn]\<rparr>)"
| ended: "i < length (threads s) \<Longrightarrow> threads s ! i = Running (Return False) \<or> threads s ! i = Running (Raise e) \<Longrightarrow>
    server_step hello turn s (Ended i) (s\<lparr>threads := (threads s)[i := Finished]\<rparr>)"

inductive server_run :: "bool proc \<Rightarrow> bool proc \<Rightarrow> sys \<Rightarrow> event list \<Rightarrow> sys \<Rightarrow> bool" for hello turn where
  start: "server_run hello turn s [] s"
| more: "server_run hello turn s es s' \<Longrightarrow> server_step hello turn s' e s'' \<Longrightarrow> server_run hello turn s (es @ [e]) s''"

section \<open>The discipline\<close>

text \<open>
  What a thread holds: the lock; a partial that it has seen not to be in flight, while it has the
  lock; the partial that it has put in flight; its open stream to that partial; the hash that the
  partial is known to have; the name that it has linked the partial to and not yet removed it from.
\<close>

record auth =
  locked :: bool
  absent :: "string option"
  held :: "string option"
  stream :: "nat option"
  sealed :: "bytes option"
  linked :: "string option"

definition idle :: auth where
  "idle = \<lparr>locked = False, absent = None, held = None, stream = None, sealed = None, linked = None\<rparr>"

fun permitted :: "auth \<Rightarrow> action \<Rightarrow> bool" where
  "permitted t Lock \<longleftrightarrow> \<not> locked t"
| "permitted t Unlock \<longleftrightarrow> locked t"
| "permitted t (InFlight p) \<longleftrightarrow> locked t"
| "permitted t (FlightAdd p) \<longleftrightarrow> locked t \<and> absent t = Some p \<and> held t = None \<and> glob_partial p"
| "permitted t (FlightDiscard p) \<longleftrightarrow> locked t \<and> held t = Some p \<and> stream t = None \<and> linked t = None"
| "permitted t (OpenAppend p) \<longleftrightarrow> held t = Some p \<and> stream t = None \<and> linked t = None"
| "permitted t (Append i bs) \<longleftrightarrow> stream t = Some i"
| "permitted t (Remove p) \<longleftrightarrow> held t = Some p \<and> stream t = None"
| "permitted t (Link p q) \<longleftrightarrow> held t = Some p \<and> stream t = None \<and> linked t = None \<and>
     (\<exists>d. sealed t = Some d \<and> p = partial_name q d)"
| "permitted t _ \<longleftrightarrow> True"

text \<open>The answers that a call can have for a thread that holds \<open>t\<close>.\<close>

fun feasible :: "auth \<Rightarrow> action \<Rightarrow> answer \<Rightarrow> bool" where
  "feasible t (Recv n) r \<longleftrightarrow> (\<exists>bs. r = Data bs) \<or> (\<exists>e. r = Err e)"
| "feasible t (SendAll bs) r \<longleftrightarrow> r = Done \<or> (\<exists>e. r = Err e)"
| "feasible t ListDir r \<longleftrightarrow> (\<exists>ns. r = Names ns) \<or> (\<exists>e. r = Err e)"
| "feasible t (IsFile p) r \<longleftrightarrow> (\<exists>b. r = Yes b)"
| "feasible t (Exists p) r \<longleftrightarrow> (\<exists>b. r = Yes b)"
| "feasible t (GetSize p) r \<longleftrightarrow> (\<exists>n. r = Num n) \<or> (\<exists>e. r = Err e)"
| "feasible t (Sha256File p) r \<longleftrightarrow> (\<exists>d. r = Data d) \<or> (\<exists>e. r = Err e)"
| "feasible t (OpenRead p) r \<longleftrightarrow> (\<exists>i. r = Num i) \<or> (\<exists>e. r = Err e)"
| "feasible t (ReadAt i pos n) r \<longleftrightarrow> (\<exists>bs. r = Data bs) \<or> (\<exists>e. r = Err e)"
| "feasible t (OpenAppend p) r \<longleftrightarrow> (\<exists>i. r = Num i) \<or> (\<exists>e. r = Err e)"
| "feasible t (Append i bs) r \<longleftrightarrow> r = Done \<or> (\<exists>e. r = Err e)"
| "feasible t (Close i) r \<longleftrightarrow> r = Done \<or> (\<exists>e. r = Err e)"
| "feasible t (Remove p) r \<longleftrightarrow> r = Done \<or> linked t = None \<and> (\<exists>e. r = Err e)"
| "feasible t (Link p q) r \<longleftrightarrow> r = Done \<or> (\<exists>e. r = Err e)"
| "feasible t (InFlight p) r \<longleftrightarrow> (\<exists>b. r = Yes b)"
| "feasible t _ r \<longleftrightarrow> r = Done"

text \<open>What the thread holds after the call.\<close>

fun holding :: "auth \<Rightarrow> action \<Rightarrow> answer \<Rightarrow> auth" where
  "holding t Lock r = t\<lparr>locked := True\<rparr>"
| "holding t Unlock r = t\<lparr>locked := False, absent := None\<rparr>"
| "holding t (InFlight p) r = t\<lparr>absent := (if r = Yes False then Some p else None)\<rparr>"
| "holding t (FlightAdd p) r = t\<lparr>held := Some p, absent := None\<rparr>"
| "holding t (FlightDiscard p) r = t\<lparr>held := None, sealed := None\<rparr>"
| "holding t (OpenAppend p) r = (case r of Num i \<Rightarrow> t\<lparr>stream := Some i, sealed := None\<rparr> | _ \<Rightarrow> t)"
| "holding t (Close i) r = (if stream t = Some i then t\<lparr>stream := None\<rparr> else t)"
| "holding t (Sha256File p) r =
     (case r of Data d \<Rightarrow> if held t = Some p \<and> stream t = None then t\<lparr>sealed := Some d\<rparr> else t | _ \<Rightarrow> t)"
| "holding t (Remove p) r = t\<lparr>sealed := None, linked := None\<rparr>"
| "holding t (Link p q) r = (if r = Done then t\<lparr>linked := Some q\<rparr> else t)"
| "holding t _ r = t"

text \<open>
  A program keeps the discipline, and ends in \<open>Q\<close> when it returns and in \<open>E\<close> when it raises.
\<close>

primrec keeps :: "(auth \<Rightarrow> 'a \<Rightarrow> bool) \<Rightarrow> (auth \<Rightarrow> exc \<Rightarrow> bool) \<Rightarrow> 'a proc \<Rightarrow> auth \<Rightarrow> bool" where
  "keeps Q E (Return x) t \<longleftrightarrow> Q t x"
| "keeps Q E (Raise e) t \<longleftrightarrow> E t e"
| "keeps Q E (Act a k) t \<longleftrightarrow> permitted t a \<and> (\<forall>r. feasible t a r \<longrightarrow> keeps Q E (k r) (holding t a r))"

named_theorems keeps_simps "the discipline on composed programs"

lemma keeps_bind [keeps_simps]: "keeps Q E (bind p f) t = keeps (\<lambda>t x. keeps Q E (f x) t) E p t"
  by (induction p arbitrary: t) auto

lemma keeps_bindI: "keeps (\<lambda>t x. keeps Q E (f x) t) E p t \<Longrightarrow> keeps Q E (bind p f) t"
  by (simp add: keeps_bind)

lemma keeps_catch [keeps_simps]: "keeps Q E (catch p h) t = keeps Q (\<lambda>t e. keeps Q E (h e) t) p t"
  by (induction p arbitrary: t) auto

lemma keeps_finally [keeps_simps]:
  "keeps Q E (finally_do p q) t =
     keeps (\<lambda>t x. keeps (\<lambda>t _. Q t x) E q t) (\<lambda>t e. keeps (\<lambda>t _. E t e) E q t) p t"
  by (induction p arbitrary: t) (auto simp: keeps_simps)

lemma keeps_call [keeps_simps]:
  "keeps Q E (call a f) t \<longleftrightarrow> permitted t a \<and>
     (\<forall>r. feasible t a r \<longrightarrow> (case r of Err e \<Rightarrow> E (holding t a r) e | _ \<Rightarrow> Q (holding t a r) (f r)))"
  by (auto simp: call_def split: answer.splits)

lemma keeps_mono:
  assumes "keeps Q E p t" and "\<And>t x. Q t x \<Longrightarrow> Q' t x" and "\<And>t e. E t e \<Longrightarrow> E' t e"
  shows "keeps Q' E' p t"
  using assms(1) by (induction p arbitrary: t) (auto simp: assms(2,3))

text \<open>A program that leaves alone what the thread holds.\<close>

definition stays :: "auth \<Rightarrow> 'a proc \<Rightarrow> bool" where
  "stays t p \<longleftrightarrow> keeps (\<lambda>t' _. t' = t) (\<lambda>t' _. t' = t) p t"

lemma stays_keeps: "stays t p \<Longrightarrow> (\<And>x. Q t x) \<Longrightarrow> (\<And>e. E t e) \<Longrightarrow> keeps Q E p t"
  unfolding stays_def by (erule keeps_mono) simp_all

lemma stays_bind [intro]: "stays t p \<Longrightarrow> (\<And>x. stays t (f x)) \<Longrightarrow> stays t (bind p f)"
  by (simp add: stays_def [of _ "bind p f"] keeps_bind) (erule stays_keeps, simp_all add: stays_def)

lemma stays_leaf [simp]: "stays t (Return x)" "stays t (Raise e)"
  by (simp_all add: stays_def)

lemma stays_to_bytes [simp]: "stays t (to_bytes n v)"
  by (simp add: to_bytes_def)

lemma stays_calls [simp]:
  "stays t (call (Recv n) f)" "stays t (call (SendAll bs) g)" "stays t (call ListDir h)"
  "stays t (call (IsFile p) yes)" "stays t (call (Exists p) yes)" "stays t (call (GetSize p) num)"
  "stays t (call (OpenRead p) num)" "stays t (call (ReadAt i pos n) data)"
  by (auto simp: stays_def keeps_simps split: answer.splits)

lemma stays_append: "stream t = Some i \<Longrightarrow> stays t (call (Append i bs) f)"
  by (auto simp: stays_def keeps_simps split: answer.splits)

lemma stays_read_exact_more: "stays t (read_exact_more n acc)"
proof (induction n acc rule: read_exact_more.induct)
  case (1 n acc)
  then show ?case by (subst read_exact_more.simps) (auto intro!: stays_bind)
qed

lemma stays_frames [simp]:
  "stays t (write_frame_header ty n)" "stays t (write_frame ty p)" "stays t (send_error reason msg)" "stays t read_frame"
  by (auto simp: write_frame_header_def write_frame_def send_error_def pack_error_def read_frame_def
      read_frame_header_def read_exact_bytes_def Let_def split: prod.splits intro!: stays_bind stays_read_exact_more)

lemma stays_parse_name [simp]: "stays t (parse_name payload)"
  by (simp add: parse_name_def Let_def)

lemma stays_send_file_loop: "stays t (send_file_loop f pos n)"
proof (induction f pos n rule: send_file_loop.induct)
  case (1 f pos n)
  then show ?case by (subst send_file_loop.simps) (auto intro!: stays_bind)
qed

lemma stays_upload_loop: "stream t = Some i \<Longrightarrow> stays t (upload_loop i written n)"
proof (induction i written n rule: upload_loop.induct)
  case (1 i written n)
  then show ?case by (subst upload_loop.simps) (auto intro!: stays_bind stays_append)
qed

lemma stays_idle_calls [simp]:
  "stays idle (call (Sha256File p) data)" "stays idle (call (Close i) f)"
  by (auto simp: stays_def keeps_simps idle_def split: answer.splits)

lemma stays_finally: "stays t p \<Longrightarrow> stays t q \<Longrightarrow> stays t (finally_do p q)"
  by (simp add: stays_def [of _ "finally_do p q"] keeps_finally)
    (erule stays_keeps, simp_all add: stays_def)

lemma stays_handle_get: "stays idle (handle_get payload)"
  unfolding handle_get_def Let_def
  by (auto split: prod.splits intro!: stays_bind stays_finally stays_send_file_loop)

lemma stays_handle_list: "stays t handle_list"
  unfolding handle_list_def encode_names_eq by (auto intro!: stays_bind)

section \<open>Uploads keep the discipline\<close>

definition resting :: "string \<Rightarrow> auth \<Rightarrow> bool" where
  "resting p t \<longleftrightarrow> \<not> locked t \<and> absent t = None \<and> held t = Some p \<and> stream t = None \<and> linked t = None"

text \<open>The calls of an upload, one rule each.\<close>

lemma keeps_sha256_file:
  assumes "held t = Some p" and "stream t = None" and "\<And>d. Q (t\<lparr>sealed := Some d\<rparr>) d" and "\<And>e. E t e"
  shows "keeps Q E (call (Sha256File p) data) t"
  using assms by (auto simp: keeps_call)

lemma keeps_remove:
  assumes "held t = Some p" and "stream t = None" and "Q (t\<lparr>sealed := None, linked := None\<rparr>) ()"
    and "\<And>e. linked t = None \<Longrightarrow> E (t\<lparr>sealed := None, linked := None\<rparr>) e"
  shows "keeps Q E (perform_call (Remove p)) t"
  using assms by (auto simp: keeps_call)

lemma keeps_open_append:
  assumes "held t = Some p" and "stream t = None" and "linked t = None"
    and "\<And>i. Q (t\<lparr>stream := Some i, sealed := None\<rparr>) i" and "\<And>e. E t e"
  shows "keeps Q E (call (OpenAppend p) num) t"
  using assms by (auto simp: keeps_call)

lemma keeps_close:
  assumes "stream t = Some i \<or> stream t = None" and "Q (t\<lparr>stream := None\<rparr>) ()" and "\<And>e. E (t\<lparr>stream := None\<rparr>) e"
  shows "keeps Q E (perform_call (Close i)) t"
proof (cases "stream t")
  case None
  then have "t\<lparr>stream := None\<rparr> = t" by (cases t) simp
  then have "Q t ()" "E t e" for e using assms(2,3) by metis+
  then show ?thesis using None by (auto simp: keeps_call)
qed (use assms in \<open>auto simp: keeps_call\<close>)

lemma keeps_link:
  assumes "held t = Some p" and "stream t = None" and "linked t = None" and "sealed t = Some d" and "p = partial_name q d"
    and "Q (t\<lparr>linked := Some q\<rparr>) ()" and "\<And>e. E t e"
  shows "keeps Q E (perform_call (Link p q)) t"
  using assms by (auto simp: keeps_call)

lemma resting_updates [simp]:
  "resting p (t\<lparr>sealed := d\<rparr>) = resting p t"
  "resting p t \<Longrightarrow> resting p (t\<lparr>stream := None\<rparr>)" "resting p t \<Longrightarrow> resting p (t\<lparr>linked := None\<rparr>)"
  "resting p t \<Longrightarrow> resting p (t\<lparr>sealed := d', linked := None\<rparr>)"
  by (simp_all add: resting_def)

lemma restingD:
  "resting p t \<Longrightarrow> held t = Some p" "resting p t \<Longrightarrow> stream t = None" "resting p t \<Longrightarrow> linked t = None"
  by (simp_all add: resting_def)

text \<open>Removing the partial and answering, from a state in which it may be linked.\<close>

lemma keeps_remove_then:
  assumes "resting p (t\<lparr>linked := None\<rparr>)" and "\<And>t. stays t f"
  shows "keeps (\<lambda>t _. resting p t) (\<lambda>t _. resting p t) (bind (perform_call (Remove p)) (\<lambda>_. f)) t"
  unfolding keeps_bind using assms by (intro keeps_remove stays_keeps [of _ f]) (simp_all add: resting_def)

lemma keeps_publish_upload:
  assumes "resting p t" and "p = partial_name name digest"
  shows "keeps (\<lambda>t _. resting p t) (\<lambda>t _. resting p t) (publish_upload name p digest) t"
proof -
  have link: "keeps (\<lambda>t _. resting p t) (\<lambda>t _. resting p t)
      (bind (catch (bind (perform_call (Link p name)) (\<lambda>_. Return True))
                   (\<lambda>e. if e = FileExistsErr then Return False else Raise e)) (\<lambda>linked.
       if \<not> linked then
         bind (perform_call (Remove p)) (\<lambda>_. send_error E_ALREADY_EXISTS ''file already exists on server'')
       else
         bind (perform_call (Remove p)) (\<lambda>_. write_frame T_OK []))) t"
    if "resting p t" "sealed t = Some digest" for t
    unfolding keeps_bind [of _ _ "catch a b" for a b] keeps_catch keeps_bind [of _ _ "perform_call (Link p name)"]
    by (rule keeps_link [OF restingD [OF that(1)] that(2) assms(2)])
      (use that(1) in \<open>simp_all add: keeps_remove_then\<close>)
  show ?thesis
    unfolding publish_upload_def keeps_bind [of _ _ "call (Sha256File p) data"]
  proof (rule keeps_sha256_file [OF restingD(1,2) [OF assms(1)]], goal_cases)
    case (1 d)
    show ?case
    proof (cases "d = digest")
      case True
      have "resting p (t\<lparr>sealed := Some digest\<rparr>)" "sealed (t\<lparr>sealed := Some digest\<rparr>) = Some digest"
        using assms(1) by simp_all
      note t = this
      show ?thesis
        unfolding True if_not_P [OF not_not [THEN iffD2, OF refl]] keeps_bind [of _ _ "call (OpenRead p) num"]
          keeps_bind [of _ _ "finally_do a b" for a b] keeps_finally
        by (intro stays_keeps [of _ "call (OpenRead p) num"] stays_keeps [of _ "call (ReadAt f 0 8) data" for f]
            keeps_close stays_calls disjI2) (use t link in \<open>simp_all add: restingD\<close>)
    next
      case False
      then show ?thesis using assms(1) by (simp add: keeps_remove_then restingD)
    qed
  qed (rule assms(1))
qed

lemma keeps_receive_upload:
  assumes "resting p t" and "p = partial_name name digest"
  shows "keeps (\<lambda>t _. resting p t) (\<lambda>t _. resting p t) (receive_upload name p n digest) t"
proof -
  have receive: "keeps (\<lambda>t _. resting p t) (\<lambda>t _. resting p t)
      (bind (bind (to_bytes 8 off) (write_frame T_OK)) (\<lambda>_.
       bind (call (OpenAppend p) num) (\<lambda>file.
       bind (finally_do (upload_loop file off n) (perform_call (Close file))) (\<lambda>_.
       publish_upload name p digest)))) t" if "resting p t" for off t
    unfolding keeps_bind keeps_finally
    by (intro stays_keeps [of _ "to_bytes 8 off"] stays_keeps [of _ "write_frame T_OK b" for b] keeps_open_append
        stays_keeps [of _ "upload_loop f off n" for f] stays_upload_loop keeps_close keeps_publish_upload)
      (use that assms(2) in \<open>simp_all add: resting_def\<close>)
  have start: "keeps (\<lambda>t _. resting p t) (\<lambda>t _. resting p t)
      (bind (if old > n then bind (perform_call (Remove p)) (\<lambda>_. Return 0) else Return old) (\<lambda>off.
       bind (bind (to_bytes 8 off) (write_frame T_OK)) (\<lambda>_.
       bind (call (OpenAppend p) num) (\<lambda>file.
       bind (finally_do (upload_loop file off n) (perform_call (Close file))) (\<lambda>_.
       publish_upload name p digest))))) t" for old
  proof (cases "old > n")
    case True
    then show ?thesis
      using assms(1) by (auto simp: bind_assoc [of "perform_call (Remove p)"] restingD
          intro!: keeps_bindI [of _ _ _ "perform_call (Remove p)"] keeps_remove receive)
  qed (use assms(1) receive in simp)
  show ?thesis
    unfolding receive_upload_def
  proof (rule keeps_bindI, rule keeps_bindI, rule stays_keeps [OF stays_calls(5)], goal_cases)
    case (1 there)
    show ?case
    proof (cases there)
      case True
      show ?thesis
        unfolding if_P [OF True] by (rule stays_keeps [OF stays_calls(6)]) (rule start assms(1))+
    next
      case False
      show ?thesis unfolding if_not_P [OF False] keeps.simps by (rule start)
    qed
  qed (rule assms(1))
qed

section \<open>Sessions keep the discipline\<close>

lemma keeps_with_lock:
  assumes "\<not> locked t"
    and "keeps (\<lambda>t x. locked t \<and> Q (t\<lparr>locked := False, absent := None\<rparr>) x)
      (\<lambda>t e. locked t \<and> E (t\<lparr>locked := False, absent := None\<rparr>) e) p (t\<lparr>locked := True\<rparr>)"
  shows "keeps Q E (with_lock p) t"
  using assms by (auto simp: with_lock_def keeps_simps elim!: keeps_mono)

lemma keeps_admission:
  assumes "glob_partial p"
  shows "keeps (\<lambda>t x. t = (if x then idle\<lparr>held := Some p\<rparr> else idle)) (\<lambda>t _. t = idle)
    (with_lock (bind (call (InFlight p) yes) (\<lambda>busy.
       if busy then bind (send_error reason msg) (\<lambda>_. Return False)
       else bind (perform_call (FlightAdd p)) (\<lambda>_. Return True)))) idle"
  using assms
  by (intro keeps_with_lock)
    (auto simp: keeps_simps idle_def intro!: stays_keeps [of _ "send_error reason msg"])

lemma keeps_discard:
  assumes "resting p t"
  shows "keeps (\<lambda>t _. t = idle) (\<lambda>t _. t = idle) (with_lock (perform_call (FlightDiscard p))) t"
  using assms by (intro keeps_with_lock) (auto simp: keeps_simps idle_def resting_def)

lemma stays_admit_upload:
  assumes "glob_partial p" and "p = partial_name name digest"
  shows "stays idle (admit_upload name p n digest)"
  unfolding stays_def admit_upload_def
proof (rule keeps_bindI, rule keeps_mono [OF keeps_admission [OF assms(1)]], goal_cases)
  case (1 t admitted)
  have "resting p (idle\<lparr>held := Some p\<rparr>)" by (simp add: resting_def idle_def)
  from keeps_mono [OF keeps_receive_upload [OF this assms(2)] keeps_discard keeps_discard]
  show ?case using 1 by (auto simp: keeps_finally)
qed

lemma stays_handle_put: "stays idle (handle_put payload)"
  unfolding handle_put_def Let_def
  by (auto intro!: stays_bind stays_admit_upload glob_partial_name)

lemma stays_catch: "stays t p \<Longrightarrow> (\<And>e. stays t (h e)) \<Longrightarrow> stays t (catch p h)"
  by (simp add: stays_def [of _ "catch p h"] keeps_catch) (erule stays_keeps, simp_all add: stays_def)

lemma stays_guarded: "stays t p \<Longrightarrow> stays t (guarded p)"
  by (auto simp: guarded_def quietly_def intro!: stays_catch stays_bind split: exc.split)

lemma stays_session_hello: "stays idle session_hello"
  unfolding session_hello_def by (auto intro!: stays_guarded stays_bind)

lemma stays_session_turn: "stays idle session_turn"
  unfolding session_turn_def
  by (auto intro!: stays_guarded stays_bind stays_catch stays_handle_list stays_handle_get stays_handle_put
      split: option.split)

end
