(* ===== verification/Rtrv_Concurrent.thy ===== *)
theory Rtrv_Concurrent
  imports Rtrv_Threads
begin

text \<open>
  What holds in every state that the server can reach, for every interleaving of its sessions: the
  invariant that relates what the threads hold with the shared memory, and what follows from it.
\<close>

section \<open>What a thread holds, in the shared memory\<close>

definition owns :: "shared \<Rightarrow> nat \<Rightarrow> auth \<Rightarrow> bool" where
  "owns S i t \<longleftrightarrow>
     (locked t \<longleftrightarrow> lock S = Some i) \<and>
     (\<forall>p. absent t = Some p \<longrightarrow> locked t \<and> p \<notin> in_flight S) \<and>
     (\<forall>p. held t = Some p \<longrightarrow> p \<in> in_flight S \<and> glob_partial p) \<and>
     (\<forall>h. stream t = Some h \<longrightarrow> linked t = None \<and> (\<exists>p. held t = Some p \<and> entry S p = Some (Ino h))) \<and>
     (\<forall>q. linked t = Some q \<longrightarrow> stream t = None \<and> (\<exists>p h. held t = Some p \<and> entry S p = Some (Ino h)))"

lemma entry_dot: "entry S ''.'' = Some (Subdir 0)"
  by (simp add: entry_def)

lemma glob_not_dot: "glob_partial p \<Longrightarrow> p \<noteq> ''.''"
  by (auto simp: glob_partial_def)

text \<open>The calls by what they do to the shared memory.\<close>

inductive effect :: "nat \<Rightarrow> shared \<Rightarrow> action \<Rightarrow> answer \<Rightarrow> shared \<Rightarrow> bool" for i S where
  nothing: "a \<notin> {Lock, Unlock} \<Longrightarrow> (\<forall>p. a \<noteq> FlightAdd p \<and> a \<noteq> FlightDiscard p \<and> (a = OpenAppend p \<longrightarrow> (\<exists>e. r = Err e)) \<and>
      (a = Remove p \<longrightarrow> (\<exists>e. r = Err e) \<and> (\<forall>h. entry S p \<noteq> Some (Ino h))) \<and>
      (a = InFlight p \<longrightarrow> r = Yes (p \<in> in_flight S)) \<and>
      (a = Sha256File p \<longrightarrow> (\<forall>d. r = Data d \<longrightarrow> (\<exists>b. file_of S p = Some b \<and> d = sha256 b)))) \<Longrightarrow>
    (\<forall>h bs. a \<noteq> Append h bs) \<Longrightarrow> (\<forall>p q. a = Link p q \<longrightarrow> (\<exists>e. r = Err e)) \<Longrightarrow> effect i S a r S"
| lock: "lock S = None \<Longrightarrow> effect i S Lock Done (S\<lparr>lock := Some i\<rparr>)"
| unlock: "lock S \<noteq> None \<Longrightarrow> effect i S Unlock Done (S\<lparr>lock := None\<rparr>)"
| unlock_free: "lock S = None \<Longrightarrow> effect i S Unlock (Err OtherErr) S"
| flight_add: "effect i S (FlightAdd p) Done (S\<lparr>in_flight := insert p (in_flight S)\<rparr>)"
| flight_discard: "effect i S (FlightDiscard p) Done (S\<lparr>in_flight := in_flight S - {p}\<rparr>)"
| open_old: "entry S p = Some (Ino h) \<Longrightarrow> effect i S (OpenAppend p) (Num h) S"
| open_new: "entry S p = None \<Longrightarrow> effect i S (OpenAppend p) (Num (next_ino S))
    (S\<lparr>dirents := dirents S @ [(p, Ino (next_ino S))], inode := (inode S)(next_ino S := []), next_ino := Suc (next_ino S)\<rparr>)"
| append: "r = Done \<or> r = Err OsErr \<Longrightarrow> effect i S (Append h bs) r (S\<lparr>inode := (inode S)(h := inode S h @ bs')\<rparr>)"
| remove: "entry S p = Some (Ino h) \<Longrightarrow> effect i S (Remove p) Done (S\<lparr>dirents := AList.delete p (dirents S)\<rparr>)"
| link: "entry S p = Some (Ino h) \<Longrightarrow> entry S q = None \<Longrightarrow>
    effect i S (Link p q) Done (S\<lparr>dirents := dirents S @ [(q, Ino h)]\<rparr>)"

inductive_cases effect_RemoveE: "effect i S (Remove p) r S'"
inductive_cases effect_LinkE: "effect i S (Link p q) r S'"
inductive_cases effect_OpenAppendE: "effect i S (OpenAppend p) r S'"
inductive_cases effect_AppendE: "effect i S (Append h bs) r S'"
inductive_cases effect_Sha256FileE: "effect i S (Sha256File p) r S'"

lemma attempt_call_SomeD:
  "attempt_call es c S x = Some y \<Longrightarrow> y = x \<or> (\<exists>e\<in>es. y = (Err e, S))"
  by (auto simp: attempt_call_def split: choice.splits if_splits)

lemma perform_effect:
  assumes "perform i a c S = Some (r, S')"
  shows "effect i S a r S'"
proof (cases a)
  case (OpenAppend p)
  then show ?thesis using assms
    by (auto dest!: attempt_call_SomeD split: option.splits dirent.splits intro!: effect.intros)
next
  case (Append h bs)
  then show ?thesis using assms
    by (auto dest!: attempt_call_SomeD split: choice.splits if_splits intro!: effect.intros)
next
  case (Remove p)
  then show ?thesis using assms
    by (auto dest!: attempt_call_SomeD split: option.splits dirent.splits intro: effect.remove intro!: effect.nothing)
next
  case (Link p q)
  then show ?thesis using assms
    by (auto dest!: attempt_call_SomeD split: option.splits dirent.splits if_splits intro: effect.link intro!: effect.nothing)
next
  case Lock
  then show ?thesis using assms by (auto dest!: attempt_call_SomeD split: if_splits intro!: effect.intros)
next
  case Unlock
  then show ?thesis using assms
    by (auto dest!: attempt_call_SomeD split: if_splits intro: effect.unlock effect.unlock_free)
next
  case (FlightAdd p)
  then show ?thesis using assms by (auto dest!: attempt_call_SomeD intro!: effect.intros)
next
  case (FlightDiscard p)
  then show ?thesis using assms by (auto dest!: attempt_call_SomeD intro!: effect.intros)
qed (use assms in \<open>auto dest!: attempt_call_SomeD split: choice.splits if_splits option.splits intro!: effect.nothing\<close>)

text \<open>A permitted call has a feasible answer and leaves the thread with what the discipline says.\<close>

lemma perform_feasible:
  assumes "perform i a c S = Some (r, S')" and "permitted t a" and "owns S i t"
  shows "feasible t a r"
proof (cases a)
  case (Recv n)
  then show ?thesis using assms(1) by (auto simp: attempt_call_def split: choice.splits if_splits)
next
  case (Remove p)
  then show ?thesis using assms
    by (auto simp: owns_def dest!: attempt_call_SomeD split: option.splits dirent.splits)
next
  case Unlock
  then show ?thesis using assms by (auto simp: owns_def dest!: attempt_call_SomeD)
qed (use assms in \<open>auto dest!: attempt_call_SomeD split: choice.splits if_splits option.splits dirent.splits\<close>)

lemma owns_self:
  assumes "effect i S a r S'" and "permitted t a" and "owns S i t" and "feasible t a r"
  shows "owns S' i (holding t a r)"
  using assms(1)
proof cases
  case nothing
  then show ?thesis using assms(2-4) by (cases a) (auto simp: owns_def split: answer.splits)
qed (use assms(2-4) in \<open>auto simp: owns_def entry_add entry_delete\<close>)

text \<open>It leaves alone what the other threads hold.\<close>

lemma owns_other:
  assumes "effect i S a r S'" and "permitted t a" and "owns S i t" and "owns S j u" and "i \<noteq> j"
    and "held t = held u \<Longrightarrow> held t = None"
  shows "owns S' j u"
proof -
  have lk: "locked t \<longleftrightarrow> lock S = Some i" using assms(3) by (simp add: owns_def)
  have L: "lock S' = Some j \<longleftrightarrow> lock S = Some j"
    using assms(1,2,5) lk by cases auto
  have F: "in_flight S' = in_flight S \<or> locked t"
    using assms(1,2) by cases auto
  have K: "p \<in> in_flight S \<Longrightarrow> held t \<noteq> Some p \<Longrightarrow> p \<in> in_flight S'" for p
    using assms(1,2) by cases auto
  have E: "entry S p = Some (Ino h) \<Longrightarrow> held t \<noteq> Some p \<Longrightarrow> entry S' p = Some (Ino h)" for p h
    using assms(1,2) by cases (auto simp: entry_add entry_delete)
  have other: "held u = Some p \<Longrightarrow> held t \<noteq> Some p" for p using assms(6) by auto
  have lu: "locked u \<longleftrightarrow> lock S' = Some j" using assms(4) L by (simp add: owns_def)
  have "absent u = Some p \<Longrightarrow> locked u \<and> p \<notin> in_flight S'" for p
    using assms(4,5) F lk by (auto simp: owns_def)
  moreover have "held u = Some p \<Longrightarrow> p \<in> in_flight S' \<and> glob_partial p" for p
    using assms(4) K other [of p] by (simp add: owns_def)
  moreover have "stream u = Some h \<Longrightarrow> linked u = None \<and> (\<exists>p. held u = Some p \<and> entry S' p = Some (Ino h))" for h
    using assms(4) E [of _ h] other unfolding owns_def by blast
  moreover have "linked u = Some q \<Longrightarrow> stream u = None \<and> (\<exists>p h. held u = Some p \<and> entry S' p = Some (Ino h))" for q
    using assms(4) E other unfolding owns_def by blast
  ultimately show ?thesis using lu unfolding owns_def by blast
qed

section \<open>The invariant\<close>

fun typed :: "thread \<Rightarrow> auth \<Rightarrow> bool" where
  "typed (Running p) t \<longleftrightarrow> keeps (\<lambda>t _. t = idle) (\<lambda>t _. t = idle) p t"
| "typed Finished t \<longleftrightarrow> t = idle"

text \<open>
  \<open>ts\<close> says what each thread holds: every thread has a program that keeps the discipline, the shared
  memory is as the threads hold it, and no two threads hold the same partial.
\<close>

definition coherent :: "sys \<Rightarrow> auth list \<Rightarrow> bool" where
  "coherent s ts \<longleftrightarrow>
     length ts = length (threads s) \<and>
     (\<forall>i < length ts. typed (threads s ! i) (ts ! i) \<and> owns (mem s) i (ts ! i)) \<and>
     (\<forall>i < length ts. \<forall>j < length ts. held (ts ! i) = held (ts ! j) \<longrightarrow> held (ts ! i) \<noteq> None \<longrightarrow> i = j) \<and>
     (\<forall>p \<in> in_flight (mem s). \<exists>i < length ts. held (ts ! i) = Some p) \<and>
     (\<forall>i. lock (mem s) = Some i \<longrightarrow> i < length ts) \<and>
     live (threads s) \<le> MAX_CLIENTS"

text \<open>A server that has just started: no sessions, nothing in flight, the lock free.\<close>

definition started :: "sys \<Rightarrow> bool" where
  "started s \<longleftrightarrow> threads s = [] \<and> in_flight (mem s) = {} \<and> lock (mem s) = None"

lemma coherent_started: "started s \<Longrightarrow> coherent s []"
  by (simp add: started_def coherent_def live_def)

lemma owns_idle: "owns S i idle \<longleftrightarrow> lock S \<noteq> Some i"
  by (simp add: owns_def idle_def)

lemma live_finish: "live (ts[i := Finished]) \<le> live ts"
  by (induction ts arbitrary: i) (auto simp: live_def le_SucI split: nat.splits)

lemma live_keep: "i < length ts \<Longrightarrow> ts ! i \<noteq> Finished \<Longrightarrow> live (ts[i := t]) \<le> live ts"
  by (induction ts arbitrary: i) (auto simp: live_def le_SucI less_Suc_eq_0_disj)

lemma coherentD:
  assumes "coherent s ts"
  shows "length ts = length (threads s)"
    "i < length ts \<Longrightarrow> typed (threads s ! i) (ts ! i)" "i < length ts \<Longrightarrow> owns (mem s) i (ts ! i)"
    "i < length ts \<Longrightarrow> j < length ts \<Longrightarrow> held (ts ! i) = held (ts ! j) \<Longrightarrow> held (ts ! i) \<noteq> None \<Longrightarrow> i = j"
    "p \<in> in_flight (mem s) \<Longrightarrow> \<exists>i < length ts. held (ts ! i) = Some p"
    "lock (mem s) = Some i \<Longrightarrow> i < length ts" "live (threads s) \<le> MAX_CLIENTS"
  using assms unfolding coherent_def by blast+

text \<open>Replacing what one thread holds.\<close>

lemma coherentI:
  assumes co: "coherent s ts" and i: "i < length ts"
    and new: "typed x t" "owns S i t" "live ((threads s)[i := x]) \<le> MAX_CLIENTS"
    and others: "\<And>j. j < length ts \<Longrightarrow> j \<noteq> i \<Longrightarrow> owns S j (ts ! j) \<and> (held (ts ! j) = held t \<longrightarrow> held t = None)"
    and flight: "\<And>p. p \<in> in_flight S \<Longrightarrow> held t = Some p \<or> (\<exists>j < length ts. j \<noteq> i \<and> held (ts ! j) = Some p)"
    and lock: "\<And>j. lock S = Some j \<Longrightarrow> j < length ts"
  shows "coherent (s\<lparr>mem := S, threads := (threads s)[i := x]\<rparr>) (ts[i := t])"
proof -
  note c = co [unfolded coherent_def]
  have "j = k" if "j < length ts" "k < length ts" "held (ts[i := t] ! j) = held (ts[i := t] ! k)" "held (ts[i := t] ! j) \<noteq> None"
    for j k
    using that c i others by (cases "j = i"; cases "k = i") auto
  moreover have "\<exists>j < length ts. held (ts[i := t] ! j) = Some p" if p: "p \<in> in_flight S" for p
    using flight [OF p]
  proof
    assume "held t = Some p"
    then show ?thesis using i by (intro exI [of _ i]) simp
  next
    assume "\<exists>j < length ts. j \<noteq> i \<and> held (ts ! j) = Some p"
    then show ?thesis by auto
  qed
  moreover have "typed ((threads s)[i := x] ! j) (ts[i := t] ! j) \<and> owns S j (ts[i := t] ! j)" if "j < length ts" for j
    using that c i new others by (cases "j = i") auto
  ultimately show ?thesis using c lock new(3) by (simp add: coherent_def)
qed

lemma held_holding:
  "held (holding t a r) = (case a of FlightAdd p \<Rightarrow> Some p | FlightDiscard p \<Rightarrow> None | _ \<Rightarrow> held t)"
  by (cases a) (auto split: answer.split)

lemma in_flight_effect:
  assumes "effect i S a r S'"
  shows "in_flight S' =
     (case a of FlightAdd p \<Rightarrow> insert p (in_flight S) | FlightDiscard p \<Rightarrow> in_flight S - {p} | _ \<Rightarrow> in_flight S)"
  using assms
proof cases
  case nothing
  from this have "a \<noteq> FlightAdd p" "a \<noteq> FlightDiscard p" for p by simp_all
  then show ?thesis using \<open>S' = S\<close> by (cases a) auto
qed auto

text \<open>A thread that puts a partial in flight holds one that no other thread holds.\<close>

lemma held_apart:
  assumes perm: "permitted t a" and own: "owns S i t" "owns S j u"
    and apart: "held t = held u \<Longrightarrow> held t = None" and same: "held u = held (holding t a r)"
  shows "held (holding t a r) = None"
proof (cases a)
  case (FlightAdd p)
  then have "p \<notin> in_flight S" using perm own(1) by (simp add: owns_def)
  moreover have "held u = Some p \<Longrightarrow> p \<in> in_flight S" using own(2) by (simp add: owns_def)
  ultimately show ?thesis using FlightAdd same by auto
qed (use apart same in \<open>simp_all add: held_holding del: holding.simps\<close>)

text \<open>Only the lock makes a thread wait.\<close>

lemma perform_enabled:
  assumes "a = Lock \<longrightarrow> lock S = None"
  shows "\<exists>c r S'. perform i a c S = Some (r, S')"
proof (cases "\<exists>n. a = Recv n")
  case True
  then show ?thesis by (auto intro: exI [of _ "Arrive []"])
next
  case False
  then have "perform i a Fine S \<noteq> None" using assms by (cases a) (simp_all add: attempt_call_def)
  then show ?thesis by (metis not_None_eq surj_pair)
qed

text \<open>Every partial in flight belongs to a live session.\<close>

lemma in_flight_bounded:
  assumes "coherent s ts"
  shows "card (in_flight (mem s)) \<le> live (threads s)"
proof -
  note c = coherentD [OF assms]
  let ?live = "{i. i < length (threads s) \<and> threads s ! i \<noteq> Finished}"
  have "in_flight (mem s) \<subseteq> (\<lambda>i. the (held (ts ! i))) ` ?live"
  proof
    fix p
    assume "p \<in> in_flight (mem s)"
    then obtain i where i: "i < length ts" "held (ts ! i) = Some p" using c(5) by blast
    then have "threads s ! i \<noteq> Finished" using c(2) [OF i(1)] by (auto simp: idle_def)
    then show "p \<in> (\<lambda>i. the (held (ts ! i))) ` ?live" using i c(1) by force
  qed
  then have "card (in_flight (mem s)) \<le> card ?live" by (rule surj_card_le [rotated]) simp
  then show ?thesis by (simp add: live_def length_filter_conv_card)
qed

locale disciplined_server =
  fixes hello turn :: "bool proc"
  assumes hello: "stays idle hello" and turn: "stays idle turn"
begin

lemma coherent_accepted:
  assumes "coherent s ts" and "live (threads s) < MAX_CLIENTS"
  shows "coherent (s\<lparr>threads := threads s @ [Running hello]\<rparr>) (ts @ [idle])"
proof -
  note c = assms(1) [unfolded coherent_def]
  have free: "lock (mem s) \<noteq> Some (length ts)" using c by auto
  have "\<exists>j < Suc (length ts). held ((ts @ [idle]) ! j) = Some p" if p: "p \<in> in_flight (mem s)" for p
  proof -
    obtain j where "j < length ts" "held (ts ! j) = Some p" using coherentD(5) [OF assms(1) p] by blast
    then show ?thesis by (intro exI [of _ j]) (simp add: nth_append)
  qed
  moreover have "held idle = None" by (simp add: idle_def)
  ultimately show ?thesis
    using c assms(2) hello free
    by (auto simp: coherent_def live_def nth_append owns_idle less_Suc_eq stays_def)
qed

lemma coherent_called:
  assumes co: "coherent s ts" and i: "i < length (threads s)" and prog: "threads s ! i = Running (Act a k)"
    and step: "perform i a c (mem s) = Some (r, S)"
  shows "permitted (ts ! i) a" "feasible (ts ! i) a r"
    "coherent (s\<lparr>mem := S, threads := (threads s)[i := Running (k r)]\<rparr>) (ts[i := holding (ts ! i) a r])"
proof -
  note c = co [unfolded coherent_def]
  have n: "i < length ts" using c i by simp
  then have t: "typed (Running (Act a k)) (ts ! i)" "owns (mem s) i (ts ! i)" using c prog by metis+
  then show perm: "permitted (ts ! i) a" by simp
  show feas: "feasible (ts ! i) a r" using step perm t(2) by (rule perform_feasible)
  note eff = perform_effect [OF step]
  have apart: "held (ts ! i) = held (ts ! j) \<Longrightarrow> held (ts ! i) = None" if "j < length ts" "j \<noteq> i" for j
    using that c n by blast
  show "coherent (s\<lparr>mem := S, threads := (threads s)[i := Running (k r)]\<rparr>) (ts[i := holding (ts ! i) a r])"
  proof (rule coherentI [OF co n], goal_cases)
    case 1
    then show ?case using t(1) feas by simp
  next
    case 2
    show ?case using eff perm t(2) feas by (rule owns_self)
  next
    case 3
    then show ?case using live_keep [OF i, of "Running (k r)"] prog c by simp
  next
    case (4 j)
    have "owns S j (ts ! j)"
      by (rule owns_other [OF eff perm t(2) _ _ apart [OF 4]]) (use 4 c in auto)
    moreover have "held (ts ! j) = held (holding (ts ! i) a r) \<Longrightarrow> held (holding (ts ! i) a r) = None"
      by (rule held_apart [OF perm t(2) coherentD(3) [OF co 4(1)] apart [OF 4]])
    ultimately show ?case by blast
  next
    case (5 p)
    show ?case
    proof (cases "held (holding (ts ! i) a r) = Some p")
      case False
      then have "p \<in> in_flight (mem s)" "held (ts ! i) \<noteq> Some p"
        using 5 perm in_flight_effect [OF eff] by (auto simp: held_holding split: action.splits)
      then show ?thesis using c by blast
    qed simp
  next
    case (6 j)
    have "lock S = lock (mem s) \<or> lock S = None \<or> lock S = Some i" using eff by cases auto
    then show ?case using 6 c n by auto
  qed
qed

lemma coherent_replaced:
  assumes co: "coherent s ts" and i: "i < length (threads s)"
    and now: "threads s ! i = Running (Return b) \<or> threads s ! i = Running (Raise e)"
    and new: "typed x idle"
  shows "coherent (s\<lparr>threads := (threads s)[i := x]\<rparr>) ts"
proof -
  note c = coherentD [OF co]
  have n: "i < length ts" using c(1) i by simp
  have t: "ts ! i = idle" using c(2) [OF n] now by auto
  have "coherent (s\<lparr>mem := mem s, threads := (threads s)[i := x]\<rparr>) (ts[i := idle])"
  proof (rule coherentI [OF co n new], goal_cases)
    case 1
    show ?case using c(3) [OF n] t by simp
  next
    case 2
    show ?case using live_keep [OF i, of x] now c(7) by auto
  next
    case (3 j)
    then show ?case using c(3) [of j] by (simp add: idle_def)
  next
    case (4 p)
    then obtain j where "j < length ts" "held (ts ! j) = Some p" using c(5) by blast
    then show ?case using t by (auto simp: idle_def)
  next
    case (5 j)
    then show ?case by (rule c(6))
  qed
  moreover have "ts[i := idle] = ts" using t by (metis list_update_id)
  ultimately show ?thesis by simp
qed

lemma coherent_step:
  assumes "server_step hello turn s e s'" and "coherent s ts"
  shows "\<exists>ts'. coherent s' ts'"
  using assms(1)
proof cases
  case accepted
  then show ?thesis using coherent_accepted [OF assms(2)] by blast
next
  case (called i a k c r S)
  then show ?thesis using coherent_called(3) [OF assms(2)] by blast
next
  case (turned i)
  moreover have "typed (Running turn) idle" using turn by (simp add: stays_def)
  ultimately show ?thesis using coherent_replaced [OF assms(2), of i True _ "Running turn"] by blast
next
  case (ended i x)
  then show ?thesis using coherent_replaced [OF assms(2), of i False x Finished] by auto
qed

lemma coherent_run:
  assumes "server_run hello turn s es s'" and "started s"
  shows "\<exists>ts. coherent s' ts"
  using assms by (induction rule: server_run.induct) (blast intro: coherent_started coherent_step)+

text \<open>The lock is never waited for in vain: some session can go on.\<close>

lemma progress:
  assumes co: "coherent s ts" and i: "i < length (threads s)" "threads s ! i \<noteq> Finished"
  shows "\<exists>e s'. server_step hello turn s e s' \<and> e \<noteq> Accepted"
proof -
  note c = coherentD [OF co]
  have go: ?thesis if "j < length (threads s)" "threads s ! j = Running (Act a k)" "a = Lock \<longrightarrow> lock (mem s) = None"
    for j a k
    using perform_enabled [OF that(3), of j] server_step.called [OF that(1,2)] by (metis event.distinct(1))
  from i(2) obtain p where p: "threads s ! i = Running p" by (cases "threads s ! i") auto
  show ?thesis
  proof (cases p)
    case (Return b)
    then have "threads s ! i = Running (Return True) \<or> threads s ! i = Running (Return False)"
      using p by (cases b) simp_all
    then show ?thesis
      using server_step.turned [OF i(1)] server_step.ended [OF i(1)] event.distinct by metis
  next
    case (Raise x)
    then show ?thesis using server_step.ended [OF i(1)] p by (metis event.distinct(5))
  next
    case (Act a k)
    show ?thesis
    proof (cases "a = Lock \<longrightarrow> lock (mem s) = None")
      case True
      then show ?thesis using go i(1) p Act by blast
    next
      case False
      then obtain j where j: "lock (mem s) = Some j" by auto
      then have n: "j < length ts" by (rule c(6))
      then have lk: "locked (ts ! j)" using c(3) j by (simp add: owns_def)
      then have held: "ts ! j \<noteq> idle" by (auto simp: idle_def)
      with c(2) [OF n] obtain q where q: "threads s ! j = Running q" by (cases "threads s ! j") auto
      then obtain a' k' where "threads s ! j = Running (Act a' k')" using c(2) [OF n] held by (cases q) auto
      moreover from this have "a' \<noteq> Lock" using c(2) [OF n] lk by auto
      ultimately show ?thesis using go [of j a' k'] n c(1) by simp
    qed
  qed
qed

end

section \<open>The files\<close>

text \<open>
  A partial that its holder has linked and not yet removed is on its way out: it is not written to
  any more, while the new name may already be written to, if it is itself the partial of an upload.
\<close>

definition leaving :: "auth list \<Rightarrow> string \<Rightarrow> bool" where
  "leaving ts n \<longleftrightarrow> (\<exists>i < length ts. held (ts ! i) = Some n \<and> linked (ts ! i) \<noteq> None)"

text \<open>
  New inodes are new; an inode has one name at most besides those that are on their way out; and what
  a thread knows of the hash of its partial is true until it has linked it.
\<close>

definition filed :: "shared \<Rightarrow> auth list \<Rightarrow> bool" where
  "filed S ts \<longleftrightarrow>
     (\<forall>n h. entry S n = Some (Ino h) \<longrightarrow> h < next_ino S) \<and>
     (\<forall>n n' h. entry S n = Some (Ino h) \<longrightarrow> entry S n' = Some (Ino h) \<longrightarrow> \<not> leaving ts n \<longrightarrow> \<not> leaving ts n' \<longrightarrow> n = n') \<and>
     (\<forall>i < length ts. \<forall>d. sealed (ts ! i) = Some d \<longrightarrow> linked (ts ! i) = None \<longrightarrow> stream (ts ! i) = None \<and>
        (\<exists>p b. held (ts ! i) = Some p \<and> file_of S p = Some b \<and> sha256 b = d))"

lemma filedD:
  assumes "filed S ts"
  shows "entry S n = Some (Ino h) \<Longrightarrow> h < next_ino S"
    "entry S n = Some (Ino h) \<Longrightarrow> entry S n' = Some (Ino h) \<Longrightarrow> \<not> leaving ts n \<Longrightarrow> \<not> leaving ts n' \<Longrightarrow> n = n'"
    "i < length ts \<Longrightarrow> sealed (ts ! i) = Some d \<Longrightarrow> linked (ts ! i) = None \<Longrightarrow> stream (ts ! i) = None \<and>
       (\<exists>p b. held (ts ! i) = Some p \<and> file_of S p = Some b \<and> sha256 b = d)"
  using assms unfolding filed_def by blast+

lemma held_not_leaving:
  assumes "coherent s ts" and "i < length ts" and "held (ts ! i) = Some p" and "linked (ts ! i) = None"
  shows "\<not> leaving ts p"
proof
  assume "leaving ts p"
  then obtain j where j: "j < length ts" "held (ts ! j) = Some p" "linked (ts ! j) \<noteq> None" unfolding leaving_def by blast
  then have "j = i" using coherentD(4) [OF assms(1) j(1) assms(2)] assms(3) by simp
  then show False using j(3) assms(4) by simp
qed

lemma plain_not_leaving: "coherent s ts \<Longrightarrow> \<not> glob_partial n \<Longrightarrow> \<not> leaving ts n"
  unfolding leaving_def using coherentD(3) [of s ts] by (metis owns_def)

text \<open>A name that the acting thread does not hold stays, with its contents unless it is on its way out.\<close>

lemma other_entry_kept:
  assumes co: "coherent s ts" and fd: "filed (mem s) ts" and i: "i < length ts"
    and perm: "permitted (ts ! i) a" and eff: "effect i (mem s) a r S"
    and n: "held (ts ! i) \<noteq> Some n" "\<not> leaving ts n" and h: "entry (mem s) n = Some (Ino h)"
  shows "entry S n = Some (Ino h) \<and> inode S h = inode (mem s) h"
proof -
  have own: "owns (mem s) i (ts ! i)" by (rule coherentD(3) [OF co i])
  from eff show ?thesis
  proof cases
    case (open_new p)
    then show ?thesis using h filedD(1) [OF fd h] by (auto simp: entry_add)
  next
    case (append h' bs bs')
    then have "stream (ts ! i) = Some h'" using perm by simp
    then obtain p where p: "held (ts ! i) = Some p" "entry (mem s) p = Some (Ino h')" "linked (ts ! i) = None"
      using own by (auto simp: owns_def)
    have "h' \<noteq> h" using filedD(2) [OF fd _ h held_not_leaving [OF co i p(1,3)] n(2)] p(1,2) n(1) by auto
    then show ?thesis using append h by simp
  next
    case (remove p h')
    then have "p \<noteq> n" using perm n(1) by auto
    then show ?thesis using remove h by (simp add: entry_delete)
  qed (use h in \<open>auto simp: entry_add\<close>)
qed

lemma file_of_entry: "file_of S n = Some b \<longleftrightarrow> (\<exists>h. entry S n = Some (Ino h) \<and> inode S h = b)"
  by (auto simp: file_of_def split: option.splits dirent.splits)

lemma other_file_kept:
  assumes "coherent s ts" and "filed (mem s) ts" and "i < length ts" and "permitted (ts ! i) a"
    and "effect i (mem s) a r S" and "held (ts ! i) \<noteq> Some n" and "\<not> leaving ts n" and "file_of (mem s) n = Some b"
  shows "file_of S n = Some b"
  using other_entry_kept [OF assms(1-7)] assms(8) by (auto simp: file_of_entry)

lemma linked_holding:
  "linked (holding t a r) = (case a of Remove p \<Rightarrow> None | Link p q \<Rightarrow> if r = Done then Some q else linked t | _ \<Rightarrow> linked t)"
  by (cases a) (auto split: answer.split)

text \<open>A name that is on its way out stays so until it is removed.\<close>

lemma leaving_kept:
  assumes co: "coherent s ts" and i: "i < length ts" and perm: "permitted (ts ! i) a" and n: "leaving ts n" "a \<noteq> Remove n"
  shows "leaving (ts[i := holding (ts ! i) a r]) n"
proof -
  obtain k where k: "k < length ts" "held (ts ! k) = Some n" "linked (ts ! k) \<noteq> None" using n(1) by (auto simp: leaving_def)
  have "held (holding (ts ! i) a r) = Some n \<and> linked (holding (ts ! i) a r) \<noteq> None" if "k = i"
    using perm k(2,3) n(2) that by (cases a) (auto simp: held_holding linked_holding simp del: holding.simps)
  then have "held (ts[i := holding (ts ! i) a r] ! k) = Some n \<and> linked (ts[i := holding (ts ! i) a r] ! k) \<noteq> None"
    using k i by (cases "k = i") simp_all
  then show ?thesis using k(1) unfolding leaving_def length_list_update by blast
qed

lemma filed_names:
  assumes co: "coherent s ts" and fd: "filed (mem s) ts" and i: "i < length ts"
    and perm: "permitted (ts ! i) a" and eff: "effect i (mem s) a r S"
    and same: "entry S n = Some (Ino h)" "entry S n' = Some (Ino h)"
    and stay: "\<not> leaving (ts[i := holding (ts ! i) a r]) n" "\<not> leaving (ts[i := holding (ts ! i) a r]) n'"
  shows "n = n'"
proof -
  have "a \<noteq> Remove m" if "entry S m = Some (Ino h)" for m
    using eff that by cases (auto simp: entry_delete entry_dot split: if_splits)
  then have old: "\<not> leaving ts n" "\<not> leaving ts n'" using leaving_kept [OF co i perm] same stay by blast+
  from eff show ?thesis
  proof cases
    case (open_new p)
    then show ?thesis
      using same filedD(1) [OF fd, of _ h] filedD(2) [OF fd _ _ old] by (auto simp: entry_add split: if_splits)
  next
    case (remove p h')
    then show ?thesis using same filedD(2) [OF fd _ _ old] by (auto simp: entry_delete split: if_splits)
  next
    case (link p h' q)
    have p: "held (ts ! i) = Some p" "linked (ts ! i) = None" using perm link by auto
    have e: "entry S m = (if entry (mem s) m = None \<and> m = q then Some (Ino h') else entry (mem s) m)" for m
      using link by (simp add: entry_add)
    have "leaving (ts[i := holding (ts ! i) a r]) p" using i p link by (auto simp: leaving_def intro!: exI [of _ i])
    then have "entry (mem s) m \<noteq> Some (Ino h')" if "\<not> leaving ts m" "\<not> leaving (ts[i := holding (ts ! i) a r]) m" for m
      using that filedD(2) [OF fd _ _ that(1) held_not_leaving [OF co i p]] link by blast
    then show ?thesis using same old stay filedD(2) [OF fd _ _ old] unfolding e by (auto split: if_splits)
  qed (use same filedD(2) [OF fd _ _ old] in auto)
qed

text \<open>What the acting thread knows of its own partial stays true.\<close>

lemma filed_seal:
  assumes fd: "filed (mem s) ts" and i: "i < length ts"
    and perm: "permitted (ts ! i) a" and eff: "effect i (mem s) a r S"
    and d: "sealed (holding (ts ! i) a r) = Some d" "linked (holding (ts ! i) a r) = None"
  shows "stream (holding (ts ! i) a r) = None \<and>
    (\<exists>p b. held (holding (ts ! i) a r) = Some p \<and> file_of S p = Some b \<and> sha256 b = d)"
proof -
  let ?t = "ts ! i"
  have old: "stream ?t = None \<and> (\<exists>p b. held ?t = Some p \<and> file_of (mem s) p = Some b \<and> sha256 b = d)"
    if "sealed ?t = Some d" "linked ?t = None"
    using filedD(3) [OF fd i that] .
  from eff show ?thesis
  proof cases
    case nothing
    note same = this
    show ?thesis
    proof (cases "sealed ?t = Some d \<and> linked ?t = None")
      case True
      have "a \<noteq> FlightAdd p" "a \<noteq> FlightDiscard p" for p using same(2,3) by simp_all
      then have "held (holding ?t a r) = held ?t" "stream (holding ?t a r) = None"
        using old True same by (cases a; auto simp: held_holding split: answer.splits)+
      then show ?thesis using old True same(1) by simp
    next
      case False
      then obtain p where "a = Sha256File p" "r = Data d" "held ?t = Some p" "stream ?t = None"
        using d by (cases a) (auto split: answer.splits if_splits)
      then show ?thesis using same by auto
    qed
  next
    case (append h bs bs')
    then show ?thesis using d old perm by auto
  qed (use d old perm in auto)
qed

lemma filed_called:
  assumes co: "coherent s ts" and fd: "filed (mem s) ts" and i: "i < length ts"
    and perm: "permitted (ts ! i) a" and eff: "effect i (mem s) a r S"
  shows "filed S (ts[i := holding (ts ! i) a r])"
proof -
  let ?ts = "ts[i := holding (ts ! i) a r]"
  have "h < next_ino S" if "entry S n = Some (Ino h)" for n h
    using eff that filedD(1) [OF fd, of n h] filedD(1) [OF fd, of _ h]
    by cases (auto simp: entry_add entry_delete less_SucI split: if_splits)
  moreover have "stream (?ts ! j) = None \<and> (\<exists>p b. held (?ts ! j) = Some p \<and> file_of S p = Some b \<and> sha256 b = d)"
    if j: "j < length ts" "sealed (?ts ! j) = Some d" "linked (?ts ! j) = None" for j d
  proof (cases "j = i")
    case True
    then show ?thesis using filed_seal [OF fd i perm eff] j by simp
  next
    case False
    then have lk: "linked (ts ! j) = None" using j(3) by simp
    obtain p b where p: "stream (ts ! j) = None" "held (ts ! j) = Some p" "file_of (mem s) p = Some b" "sha256 b = d"
      using filedD(3) [OF fd j(1) _ lk] j(2) False by auto
    have "held (ts ! i) \<noteq> Some p" using coherentD(4) [OF co i j(1)] False p(2) by auto
    from other_file_kept [OF co fd i perm eff this held_not_leaving [OF co j(1) p(2) lk] p(3)] show ?thesis using False p by auto
  qed
  ultimately show ?thesis
    using filed_names [OF co fd i perm eff] unfolding filed_def length_list_update by blast
qed

lemma leaving_snoc_idle: "leaving (ts @ [idle]) n = leaving ts n"
  by (auto simp: leaving_def nth_append idle_def less_Suc_eq)

lemma filed_snoc_idle: "filed S ts \<Longrightarrow> filed S (ts @ [idle])"
proof -
  assume fd: "filed S ts"
  have "sealed idle = None" by (simp add: idle_def)
  then show ?thesis
    using fd unfolding filed_def by (simp add: leaving_snoc_idle less_Suc_eq nth_append all_conj_distrib)
qed

section \<open>Whole runs\<close>

text \<open>What the threads hold after an event.\<close>

definition auth_after :: "auth list \<Rightarrow> event \<Rightarrow> auth list" where
  "auth_after ts e = (case e of Accepted \<Rightarrow> ts @ [idle] | Called i a c r \<Rightarrow> ts[i := holding (ts ! i) a r] | _ \<Rightarrow> ts)"

context disciplined_server
begin

lemma filed_step:
  assumes "server_step hello turn s e s'" and co: "coherent s ts" and fd: "filed (mem s) ts"
  shows "coherent s' (auth_after ts e) \<and> filed (mem s') (auth_after ts e)"
  using assms(1)
proof cases
  case accepted
  then show ?thesis using coherent_accepted [OF co] filed_snoc_idle [OF fd] by (simp add: auth_after_def)
next
  case (called i a k c r S)
  have i: "i < length ts" using called coherentD(1) [OF co] by simp
  note c = coherent_called [OF co called(3-5)]
  then show ?thesis using filed_called [OF co fd i c(1) perform_effect [OF called(5)]] called by (simp add: auth_after_def)
next
  case (turned i)
  moreover have "typed (Running turn) idle" using turn by (simp add: stays_def)
  ultimately show ?thesis using coherent_replaced [OF co, of i True _ "Running turn"] fd by (auto simp: auth_after_def)
next
  case (ended i x)
  then show ?thesis using coherent_replaced [OF co, of i False x Finished] fd by (auto simp: auth_after_def)
qed

lemma filed_along:
  assumes "server_run hello turn s es s'" and "coherent s ts" and "filed (mem s) ts"
  shows "\<exists>ts. coherent s' ts \<and> filed (mem s') ts"
  using assms
proof (induction rule: server_run.induct)
  case (more s es s' e s'')
  then obtain ts' where "coherent s' ts'" "filed (mem s') ts'" by blast
  from filed_step [OF more(2) this] show ?case by blast
qed blast

lemma filed_started:
  assumes "started s" and "tidy (mem s)"
  shows "coherent s [] \<and> filed (mem s) []"
  using assms coherent_started by (auto simp: filed_def tidy_def)

lemma filed_run:
  assumes "server_run hello turn s es s'" and "started s" and "tidy (mem s)"
  shows "\<exists>ts. coherent s' ts \<and> filed (mem s') ts"
  using filed_along [OF assms(1)] filed_started [OF assms(2,3)] by blast

text \<open>Published files stay as they are.\<close>

lemma published_entry_step:
  assumes "server_step hello turn s e s'" and co: "coherent s ts" and fd: "filed (mem s) ts"
    and n: "\<not> glob_partial n" "entry (mem s) n = Some (Ino h)"
  shows "entry (mem s') n = Some (Ino h) \<and> inode (mem s') h = inode (mem s) h"
  using assms(1)
proof cases
  case (called i a k c r S)
  have i: "i < length ts" using called coherentD(1) [OF co] by simp
  have "held (ts ! i) \<noteq> Some n" using coherentD(3) [OF co i] n(1) by (auto simp: owns_def)
  then show ?thesis
    using other_entry_kept [OF co fd i coherent_called(1) [OF co called(3-5)] perform_effect [OF called(5)] _
        plain_not_leaving [OF co n(1)] n(2)] called
    by simp
qed (use n in simp_all)

lemma published_kept_step:
  assumes "server_step hello turn s e s'" and "coherent s ts" and "filed (mem s) ts"
    and "\<not> glob_partial n" and "file_of (mem s) n = Some b"
  shows "file_of (mem s') n = Some b"
  using published_entry_step [OF assms(1-4)] assms(5) by (auto simp: file_of_entry)

lemma published_kept:
  assumes "server_run hello turn s es s'" and "coherent s ts" and "filed (mem s) ts"
    and n: "\<not> glob_partial n" "file_of (mem s) n = Some b"
  shows "file_of (mem s') n = Some b"
  using assms(1-3) n(2)
proof (induction rule: server_run.induct)
  case (more s es s' e s'')
  show ?case
    using published_kept_step [OF more(2) _ _ n(1)] filed_along [OF more(1,4,5)] more(3) [OF more(4-6)] by blast
qed

text \<open>A publication gives a free name to verified bytes.\<close>

lemma publication:
  assumes "server_step hello turn s (Called i (Link p q) c Done) s'" and co: "coherent s ts" and fd: "filed (mem s) ts"
  shows "\<exists>b. i < length ts \<and> held (ts ! i) = Some p \<and> sealed (ts ! i) = Some (sha256 b) \<and>
    entry (mem s) q = None \<and> p = partial_name q (sha256 b) \<and> file_of (mem s) p = Some b \<and> file_of (mem s') q = Some b"
  using assms(1)
proof cases
  case (called k S)
  have i: "i < length ts" using called coherentD(1) [OF co] by simp
  have perm: "permitted (ts ! i) (Link p q)" by (rule coherent_called(1) [OF co called(2-4)])
  then obtain d where d: "held (ts ! i) = Some p" "sealed (ts ! i) = Some d" "p = partial_name q d" "linked (ts ! i) = None"
    by auto
  with filedD(3) [OF fd i d(2,4)] obtain b where b: "file_of (mem s) p = Some b" "sha256 b = d" by auto
  from perform_effect [OF called(4)] obtain h where
    "entry (mem s) p = Some (Ino h)" "entry (mem s) q = None" "S = mem s\<lparr>dirents := dirents (mem s) @ [(q, Ino h)]\<rparr>"
    by (auto elim: effect_LinkE)
  then show ?thesis using b d i called by (auto simp: file_of_def entry_add)
qed

text \<open>A file appears under a published name only by a publication.\<close>

lemma appears_by_link:
  assumes "server_step hello turn s e s'" and co: "coherent s ts"
    and n: "\<not> glob_partial n" "file_of (mem s) n = None" "file_of (mem s') n = Some b"
  shows "\<exists>i p c. e = Called i (Link p n) c Done"
  using assms(1)
proof cases
  case (called i a k c r S)
  have perm: "permitted (ts ! i) a" by (rule coherent_called(1) [OF co called(3-5)])
  have "i < length ts" using called coherentD(1) [OF co] by simp
  then have own: "owns (mem s) i (ts ! i)" by (rule coherentD(3) [OF co])
  have none: "entry (mem s) n \<noteq> Some (Ino h)" for h using n(2) by (auto simp: file_of_def)
  from perform_effect [OF called(5)] show ?thesis
  proof cases
    case (open_new p)
    then have "n \<noteq> p" using perm own n(1) by (auto simp: owns_def)
    then show ?thesis using n(3) none called open_new by (auto simp: file_of_def entry_add split: option.splits dirent.splits)
  next
    case (link p h q)
    then show ?thesis using n(3) none called by (auto simp: file_of_def entry_add split: if_splits option.splits dirent.splits)
  qed (use n(3) none called in \<open>auto simp: file_of_def entry_delete split: if_splits option.splits dirent.splits\<close>)
qed (use n in simp_all)

text \<open>Two sessions never write to the same file.\<close>

lemma one_writer:
  assumes co: "coherent s ts" and fd: "filed (mem s) ts"
    and i: "i < length (threads s)" "threads s ! i = Running (Act (Append h bs) k)"
    and j: "j < length (threads s)" "threads s ! j = Running (Act (Append h bs') k')"
  shows "i = j"
proof -
  have writer: "\<exists>p. held (ts ! x) = Some p \<and> entry (mem s) p = Some (Ino h) \<and> \<not> leaving ts p"
    if "x < length (threads s)" "threads s ! x = Running (Act (Append h c) r)" for x c r
    using coherentD(1) [OF co] coherentD(2) [OF co, of x] coherentD(3) [OF co, of x] held_not_leaving [OF co, of x] that
    by (auto simp: owns_def)
  obtain p q where p: "held (ts ! i) = Some p" "entry (mem s) p = Some (Ino h)" "\<not> leaving ts p"
    and q: "held (ts ! j) = Some q" "entry (mem s) q = Some (Ino h)" "\<not> leaving ts q"
    using writer [OF i] writer [OF j] by blast
  have "q = p" by (rule filedD(2) [OF fd q(2) p(2) q(3) p(3)])
  then show ?thesis using coherentD(4) [OF co, of i j] p(1) q(1) i(1) j(1) coherentD(1) [OF co] by simp
qed

end

interpretation sessions: disciplined_server session_hello session_turn
  by unfold_locales (rule stays_session_hello stays_session_turn)+

end
