(* ===== verification/Rtrv_Serve.thy ===== *)
theory Rtrv_Serve
  imports Rtrv_Server_Run Rtrv_Concurrent
begin

text \<open>
  A whole session of the server, \<open>handle_client\<close> of \<open>src/retriever/server.py\<close>: the handshake and the
  command loop. It ends for every client, whatever the client sends, and what it does alone is one of
  the runs of the server with its threads.
\<close>

section \<open>The session\<close>

text \<open>\<open>None\<close> is a session that never ends, or that waits for the lock for ever.\<close>

partial_function (option) command_loop :: "conn \<Rightarrow> ((exc + unit) \<times> conn) option" where
  "command_loop w =
     Option.bind (run session_turn w) (\<lambda>(r, w').
       case r of
         Inl e \<Rightarrow> Some (Inl e, w')
       | Inr go_on \<Rightarrow> if go_on then command_loop w' else Some (Inr (), w'))"

declare command_loop.simps [code]

definition handle_client :: "conn \<Rightarrow> ((exc + unit) \<times> conn) option" where
  "handle_client w =
     Option.bind (run session_hello w) (\<lambda>(r, w').
       case r of
         Inl e \<Rightarrow> Some (Inl e, w')
       | Inr go_on \<Rightarrow> if go_on then command_loop w' else Some (Inr (), w'))"

section \<open>A disciplined program ends\<close>

text \<open>The bytes that have not been read yet never become more.\<close>

definition pending :: "conn \<Rightarrow> nat" where
  "pending w = length (concat (inbox w))"

text \<open>
  A thread that runs alone and holds \<open>t\<close>: the lock is free or its own, and nothing is in flight but
  \<open>F\<close> and what it holds. Only the partial that it has linked has two names.
\<close>

definition alone :: "string set \<Rightarrow> auth \<Rightarrow> shared \<Rightarrow> bool" where
  "alone F t S \<longleftrightarrow>
     owns S 0 t \<and> (lock S = None \<or> lock S = Some 0) \<and>
     in_flight S = F \<union> set_option (held t) \<and> F \<inter> set_option (held t) = {} \<and>
     (\<forall>n h. entry S n = Some (Ino h) \<longrightarrow> h < next_ino S) \<and>
     (\<forall>n n' h. entry S n = Some (Ino h) \<longrightarrow> entry S n' = Some (Ino h) \<longrightarrow> n \<noteq> n' \<longrightarrow>
        (\<exists>p q. held t = Some p \<and> linked t = Some q \<and> {n, n'} = {p, q}))"

lemma aloneD:
  assumes "alone F t S"
  shows "owns S 0 t" "lock S = None \<or> lock S = Some 0" "in_flight S = F \<union> set_option (held t)"
    "F \<inter> set_option (held t) = {}" "entry S n = Some (Ino h) \<Longrightarrow> h < next_ino S"
    "entry S n = Some (Ino h) \<Longrightarrow> entry S n' = Some (Ino h) \<Longrightarrow> n \<noteq> n' \<Longrightarrow>
       \<exists>p q. held t = Some p \<and> linked t = Some q \<and> {n, n'} = {p, q}"
  using assms unfolding alone_def by blast+

lemma alone_idle: "alone F idle S \<longleftrightarrow> lock S = None \<and> in_flight S = F \<and> tidy S"
  by (auto simp: alone_def owns_idle tidy_def) (auto simp: idle_def)

text \<open>The aliases after a permitted call.\<close>

lemma alone_aliases:
  assumes al: "alone F t S" and perm: "permitted t a" and eff: "effect 0 S a r S'"
    and same: "entry S' n = Some (Ino h)" "entry S' n' = Some (Ino h)" "n \<noteq> n'"
  shows "\<exists>p q. held (holding t a r) = Some p \<and> linked (holding t a r) = Some q \<and> {n, n'} = {p, q}"
  using eff
proof cases
  case nothing
  then show ?thesis using aloneD(6) [OF al] same perm
    by (cases a) (auto simp: held_holding linked_holding simp del: holding.simps, fastforce simp: doubleton_eq_iff)
next
  case (open_new p)
  then show ?thesis using aloneD(5,6) [OF al] same by (auto simp: entry_add split: if_splits)
next
  case (remove p h')
  then show ?thesis using aloneD(6) [OF al] same perm aloneD(1) [OF al]
    by (fastforce simp: entry_delete owns_def glob_not_dot doubleton_eq_iff split: if_splits)
next
  case (link p h' q)
  then show ?thesis using aloneD(6) [OF al] same perm
    by (fastforce simp: entry_add split: if_splits)
qed (use aloneD(6) [OF al] same perm in auto)

lemma alone_step:
  assumes al: "alone F t S" and perm: "permitted t a" and eff: "effect 0 S a r S'" and feas: "feasible t a r"
  shows "alone F (holding t a r) S'"
proof -
  note own = aloneD(1) [OF al]
  have "owns S' 0 (holding t a r)" using eff perm own feas by (rule owns_self)
  moreover have "lock S' = None \<or> lock S' = Some 0" using eff aloneD(2) [OF al] by cases auto
  moreover have "in_flight S' = F \<union> set_option (held (holding t a r)) \<and> F \<inter> set_option (held (holding t a r)) = {}"
    using aloneD(3,4) [OF al] perm own
    by (cases a) (auto simp: in_flight_effect [OF eff] held_holding owns_def simp del: holding.simps)
  moreover have "h < next_ino S'" if "entry S' n = Some (Ino h)" for n h
    using eff that aloneD(5) [OF al]
    by cases (auto simp: entry_add entry_delete less_SucI split: if_splits)
  ultimately show ?thesis using alone_aliases [OF al perm eff] unfolding alone_def by blast
qed

text \<open>A file that does not look like a partial keeps its contents.\<close>

lemma alone_kept:
  assumes al: "alone F t S" and perm: "permitted t a" and eff: "effect 0 S a r S'"
    and n: "\<not> glob_partial n" "file_of S n = Some b"
  shows "file_of S' n = Some b"
proof -
  obtain h where h: "entry S n = Some (Ino h)" "inode S h = b"
    using n(2) by (auto simp: file_of_def split: option.splits dirent.splits)
  have glob: "held t = Some p \<Longrightarrow> n \<noteq> p" for p using aloneD(1) [OF al] n(1) by (auto simp: owns_def)
  from eff have "entry S' n = Some (Ino h) \<and> inode S' h = b"
  proof cases
    case (open_new p)
    then show ?thesis using h aloneD(5) [OF al h(1)] by (auto simp: entry_add)
  next
    case (append h' bs bs')
    then obtain p where "held t = Some p" "entry S p = Some (Ino h')" "linked t = None"
      using perm aloneD(1) [OF al] by (auto simp: owns_def)
    then have "h' \<noteq> h" using aloneD(6) [OF al h(1), of p] glob [of p] by auto
    then show ?thesis using append h by simp
  next
    case (remove p h')
    then show ?thesis using h perm glob [of p] by (simp add: entry_delete)
  qed (use h in \<open>auto simp: entry_add\<close>)
  then show ?thesis by (simp add: file_of_def)
qed

section \<open>Disciplined programs end\<close>

lemma calm_step_disk:
  assumes "calm_step a w = Some (r, w')"
  shows "\<exists>c. perform 0 a c (disk w) = Some (r, disk w')"
proof (cases "\<exists>n. a = Recv n")
  case True
  then show ?thesis using assms by (auto split: list.splits intro!: exI [of _ "Arrive (data r)"])
next
  case False
  then show ?thesis using assms
    by (cases a) (auto simp: attempt_call_def split: option.splits prod.splits dirent.splits if_splits intro!: exI [of _ Fine])
qed

lemma calm_step_pending:
  assumes "calm_step a w = Some (r, w')"
  shows "pending w' \<le> pending w"
proof (cases "\<exists>n. a = Recv n")
  case True
  then show ?thesis using assms by (auto simp: pending_def split: list.splits if_splits)
next
  case False
  then show ?thesis using assms by (cases a) (auto simp: pending_def split: option.splits prod.splits)
qed

lemma calm_step_Some: "a = Lock \<longrightarrow> lock (disk w) = None \<Longrightarrow> \<exists>r w'. calm_step a w = Some (r, w')"
  by (cases a) (auto simp: attempt_call_def split: list.splits prod.split)

text \<open>What a session does not disturb.\<close>

definition undisturbed :: "shared \<Rightarrow> shared \<Rightarrow> bool" where
  "undisturbed S S' \<longleftrightarrow> (\<forall>n b. \<not> glob_partial n \<longrightarrow> file_of S n = Some b \<longrightarrow> file_of S' n = Some b)"

lemma run_ends:
  assumes "keeps Q E p t" and "alone F t (disk w)"
  shows "\<exists>r w' t'. run p w = Some (r, w') \<and> alone F t' (disk w') \<and> pending w' \<le> pending w \<and>
    undisturbed (disk w) (disk w') \<and> (case r of Inr x \<Rightarrow> Q t' x | Inl e \<Rightarrow> E t' e)"
  using assms
proof (induction p arbitrary: t w)
  case (Act a k)
  then have perm: "permitted t a" and al: "alone F t (disk w)" by simp_all
  then have "a = Lock \<longrightarrow> lock (disk w) = None" using aloneD(1,2) [OF al] by (auto simp: owns_def)
  then obtain r w' where step: "calm_step a w = Some (r, w')" using calm_step_Some by blast
  then obtain c where c: "perform 0 a c (disk w) = Some (r, disk w')" using calm_step_disk by blast
  note eff = perform_effect [OF c]
  have feas: "feasible t a r" using c perm aloneD(1) [OF al] by (rule perform_feasible)
  then have "keeps Q E (k r) (holding t a r)" using Act.prems(1) by simp
  from Act.IH [OF _ this alone_step [OF al perm eff feas]] obtain r' w'' t' where
    "run (k r) w' = Some (r', w'')" "alone F t' (disk w'')" "pending w'' \<le> pending w'"
    "undisturbed (disk w') (disk w'')" "case r' of Inr x \<Rightarrow> Q t' x | Inl e \<Rightarrow> E t' e" by auto
  then show ?case
    using step calm_step_pending [OF step] alone_kept [OF al perm eff] by (auto simp: undisturbed_def)
qed (auto simp: undisturbed_def)

lemma stays_run:
  assumes "stays idle p" and "alone F idle (disk w)"
  shows "\<exists>r w'. run p w = Some (r, w') \<and> alone F idle (disk w') \<and> pending w' \<le> pending w \<and>
    undisturbed (disk w) (disk w')"
  using run_ends [OF assms(1) [unfolded stays_def] assms(2)] by (auto split: sum.splits)

section \<open>A turn that goes on has read a frame\<close>

lemma run_pending:
  assumes "run p w = Some (r, w')"
  shows "pending w' \<le> pending w"
  using assms
proof (induction p arbitrary: w)
  case (Act a k)
  then show ?case using calm_step_pending by (fastforce split: option.splits)
qed auto

lemma run_read_exact_more_pending:
  assumes "run (read_exact_more n acc) w = Some (Inr bs, w')"
  shows "pending w' + (n - length acc) \<le> pending w"
  using assms
proof (induction n acc arbitrary: w rule: read_exact_more.induct)
  case (1 n acc)
  show ?case
  proof (cases "length acc < n")
    case True
    obtain chunk w1 where recv: "run (call (Recv (n - length acc)) data) w = Some (Inr chunk, w1)"
      "pending w1 + length chunk = pending w"
      by (cases "inbox w") (auto simp: run_simps pending_def)
    have "run (read_exact_more n acc) w =
        (if chunk = [] then Some (Inl ConnectionErr, w1) else run (read_exact_more n (acc @ chunk)) w1)"
      by (subst read_exact_more.simps) (use True recv(1) in \<open>simp add: run_bind\<close>)
    then have "chunk \<noteq> []" "run (read_exact_more n (acc @ chunk)) w1 = Some (Inr bs, w')"
      using 1(2) by (auto split: if_splits)
    from 1(1) [OF True this] show ?thesis using recv(2) by simp
  next
    case False
    then show ?thesis using 1(2) by (subst (asm) read_exact_more.simps) simp
  qed
qed

lemma run_read_frame_pending:
  assumes "run read_frame w = Some (Inr fr, w')"
  shows "pending w' < pending w"
proof -
  obtain header w1 where w1: "run (read_exact_bytes HEADER_SIZE) w = Some (Inr header, w1)"
    using assms by (auto simp: read_frame_def read_frame_header_def run_bind split: option.splits sum.splits)
  then have "pending w' \<le> pending w1"
    using assms run_pending
    by (fastforce simp: read_frame_def read_frame_header_def run_bind Let_def split: option.splits sum.splits if_splits)
  moreover have "pending w1 + 14 \<le> pending w"
    using run_read_exact_more_pending [OF w1 [unfolded read_exact_bytes_def]] by (simp add: HEADER_SIZE_def)
  ultimately show ?thesis by simp
qed

text \<open>What is left of a turn once its frame has been read.\<close>

lemma run_turn_rest:
  assumes "run read_frame w = Some (Inr fr, w1)"
  shows "\<exists>q. run session_turn w = run (guarded q) w1"
  unfolding session_turn_def guarded_def run_catch run_bind assms option.case prod.case sum.case run.simps by blast

lemma run_turn_pending:
  assumes "run session_turn w = Some (Inr True, w')"
  shows "pending w' < pending w"
proof -
  obtain fr w1 where "run read_frame w = Some (Inr fr, w1)"
    using assms by (auto simp: session_turn_def guarded_def quietly_def run_bind run_catch
        split: option.splits sum.splits if_splits exc.splits)
  moreover from this have "pending w' \<le> pending w1" using run_turn_rest run_pending assms by metis
  ultimately show ?thesis using run_read_frame_pending by fastforce
qed

section \<open>No exception escapes\<close>

text \<open>
  A program that returns values in \<open>Q\<close> and raises exceptions in \<open>P\<close>, as long as its calls raise only
  such exceptions. The text of a protocol violation has to fit its 16-bit length field.
\<close>

primrec yields :: "('a \<Rightarrow> bool) \<Rightarrow> (exc \<Rightarrow> bool) \<Rightarrow> 'a proc \<Rightarrow> bool" where
  "yields Q P (Return x) \<longleftrightarrow> Q x"
| "yields Q P (Raise e) \<longleftrightarrow> P e"
| "yields Q P (Act a k) \<longleftrightarrow> (\<forall>r. (\<forall>e. r = Err e \<longrightarrow> P e) \<longrightarrow> yields Q P (k r))"

fun short :: "exc \<Rightarrow> bool" where
  "short (FrameError reason message) \<longleftrightarrow> length message < 65536"
| "short _ \<longleftrightarrow> True"

abbreviation raises_short :: "'a proc \<Rightarrow> bool" where
  "raises_short \<equiv> yields (\<lambda>_. True) short"

lemma yields_bind: "yields Q P p \<Longrightarrow> (\<And>x. Q x \<Longrightarrow> yields R P (f x)) \<Longrightarrow> yields R P (bind p f)"
  by (induction p) auto

lemma yields_mono: "yields Q P p \<Longrightarrow> (\<And>x. Q x \<Longrightarrow> R x) \<Longrightarrow> yields R P p"
  by (induction p) auto

lemma yields_finally: "yields Q P p \<Longrightarrow> raises_short q \<Longrightarrow> P = short \<Longrightarrow> yields Q P (finally_do p q)"
  by (induction p) (auto intro: yields_bind)

lemma short_bind [intro!]: "raises_short p \<Longrightarrow> (\<And>x. raises_short (f x)) \<Longrightarrow> raises_short (bind p f)"
  by (rule yields_bind)

lemma short_catch [intro!]: "raises_short p \<Longrightarrow> (\<And>e. short e \<Longrightarrow> raises_short (h e)) \<Longrightarrow> raises_short (catch p h)"
  by (induction p) auto

lemma short_finally [intro!]: "raises_short p \<Longrightarrow> raises_short q \<Longrightarrow> raises_short (finally_do p q)"
  by (simp add: yields_finally)

lemma short_call [simp]: "raises_short (call a f)"
  by (auto simp: call_def split: answer.split)

lemma decimal_length: "0 < k \<Longrightarrow> n < 10 ^ k \<Longrightarrow> length (decimal n) \<le> k"
proof (induction n arbitrary: k rule: decimal.induct)
  case (1 n)
  show ?case
  proof (cases "n < 10")
    case True
    then show ?thesis using 1(2) by (subst decimal.simps) simp
  next
    case False
    then obtain j where j: "k = Suc j" "0 < j" using 1(2,3) by (cases k; cases "k = 1") auto
    then have "length (decimal (n div 10)) \<le> j" using 1(1) [OF False, of j] 1(3) by (simp add: less_mult_imp_div_less mult.commute)
    then show ?thesis using False j by (subst decimal.simps) simp
  qed
qed

lemma short_read_exact_more: "raises_short (read_exact_more n acc)"
proof (induction n acc rule: read_exact_more.induct)
  case (1 n acc)
  then show ?case by (subst read_exact_more.simps) auto
qed

lemma short_send_file_loop: "raises_short (send_file_loop f pos n)"
proof (induction f pos n rule: send_file_loop.induct)
  case (1 f pos n)
  then show ?case by (subst send_file_loop.simps) auto
qed

lemma short_upload_loop: "raises_short (upload_loop f pos n)"
proof (induction f pos n rule: upload_loop.induct)
  case (1 f pos n)
  then show ?case by (subst upload_loop.simps) auto
qed

lemma short_to_bytes [simp]: "raises_short (to_bytes n v)"
  by (simp add: to_bytes_def)

lemma short_write: "raises_short (write_frame_header ty n)" "raises_short (write_frame ty p)" "raises_short (send_error reason msg)"
  unfolding write_frame_header_def write_frame_def send_error_def pack_error_def
  by auto

lemma yields_read_frame_header:
  "yields (\<lambda>(ty, n). n < 2 ^ 64 \<and> PAYLOAD_CAPS ty \<noteq> None) short read_frame_header"
proof -
  have "from_bytes (take 8 (drop 6 h)) < 2 ^ 64" for h
    using from_bytes_less [of "take 8 (drop 6 h)"] power_increasing [of "length (take 8 (drop 6 h))" 8 "256 :: nat"]
    by simp
  moreover have "length (decimal (unat (b :: byte))) < 65516" for b
    using decimal_length [of 3 "unat b"] unsigned_less [of b, where 'a = nat] by simp
  ultimately show ?thesis
    unfolding read_frame_header_def read_exact_bytes_def
    by (intro yields_bind [OF short_read_exact_more]) (auto simp: Let_def hex_02X_def intro: le_less_trans)
qed

lemma short_read_frame: "raises_short read_frame"
  unfolding read_frame_def
proof (rule yields_bind [OF yields_read_frame_header], goal_cases)
  case (1 fr)
  obtain ty n where fr: "fr = (ty, n)" by fastforce
  have "length (decimal n) \<le> 20" using 1 by (intro decimal_length) (simp_all add: fr)
  then show ?case by (auto simp: fr hex_02X_def read_exact_bytes_def short_read_exact_more)
qed

lemma short_handlers:
  "raises_short handle_list" "raises_short (handle_get payload)" "raises_short (handle_put payload)"
  unfolding handle_list_def encode_names_eq handle_get_def handle_put_def parse_name_def admit_upload_def with_lock_def
    receive_upload_def publish_upload_def Let_def
  by (auto simp: short_write short_send_file_loop short_upload_loop split: prod.splits)

lemma calm_step_short: "calm_step a w = Some (Err e, w') \<Longrightarrow> short e"
  by (cases a) (auto split: option.splits list.splits prod.splits dirent.splits if_splits)

lemma run_yields:
  assumes "yields Q short p" and "run p w = Some (r, w')"
  shows "case r of Inr x \<Rightarrow> Q x | Inl e \<Rightarrow> short e"
  using assms
proof (induction p arbitrary: w)
  case (Act a k)
  then obtain x w1 where "calm_step a w = Some (x, w1)" "run (k x) w1 = Some (r, w')" by (auto split: option.splits)
  moreover from this have "\<forall>e. x = Err e \<longrightarrow> short e" using calm_step_short by blast
  ultimately show ?case using Act.IH [of "k x" w1] Act.prems(1) by simp
qed auto

text \<open>The frame of a refusal.\<close>

definition error_payload :: "byte \<Rightarrow> string \<Rightarrow> bytes" where
  "error_payload reason msg = reason # be_bytes 2 (word_of_nat (length msg) :: u16) @ encode msg"

lemma run_send_error [run_simps]:
  assumes "length msg < 65536"
  shows "run (send_error reason msg) w = Some (Inr (), w\<lparr>sent := sent w @ frame RTRV_T_ERROR (error_payload reason msg)\<rparr>)"
proof -
  have "int_bytes 2 (length msg) = be_bytes 2 (word_of_nat (length msg) :: u16)"
    using assms by (intro int_bytes_be) simp_all
  then show ?thesis
    using assms by (simp add: send_error_def pack_error_def run_bind to_bytes_def run_write_frame error_payload_def same_wire)
qed

lemma run_quietly:
  "length msg < 65536 \<Longrightarrow> run (quietly (send_error reason msg)) w =
     Some (Inr False, w\<lparr>sent := sent w @ frame RTRV_T_ERROR (error_payload reason msg)\<rparr>)"
  by (simp add: quietly_def run_catch run_bind run_send_error)

lemma run_guarded:
  assumes "raises_short p" and "run (guarded p) w = Some (r, w')"
  shows "\<exists>x. r = Inr x"
proof (cases "run p w")
  case (Some y)
  then obtain r1 w1 where y: "run p w = Some (r1, w1)" by (cases y) auto
  show ?thesis
  proof (cases r1)
    case (Inl e)
    then have "short e" using run_yields [OF assms(1) y] by simp
    then show ?thesis
      using assms(2) y Inl by (cases e) (auto simp: guarded_def run_catch run_quietly)
  qed (use assms(2) y in \<open>auto simp: guarded_def run_catch\<close>)
qed (use assms(2) in \<open>simp add: guarded_def run_catch\<close>)

lemma session_returns:
  "run session_hello w = Some (r, w') \<Longrightarrow> \<exists>x. r = Inr x" "run session_turn w = Some (r, w') \<Longrightarrow> \<exists>x. r = Inr x"
  unfolding session_hello_def session_turn_def
  by (erule run_guarded [rotated], auto simp: short_read_frame short_write short_handlers split: option.split)+

section \<open>Every session ends\<close>

lemma undisturbed_trans: "undisturbed S S' \<Longrightarrow> undisturbed S' S'' \<Longrightarrow> undisturbed S S''"
  by (simp add: undisturbed_def)

lemma command_loop_ends:
  assumes "alone F idle (disk w)"
  shows "\<exists>w'. command_loop w = Some (Inr (), w') \<and> alone F idle (disk w') \<and> undisturbed (disk w) (disk w')"
  using assms
proof (induction "pending w" arbitrary: w rule: less_induct)
  case less
  obtain r w1 where w1: "run session_turn w = Some (r, w1)" "alone F idle (disk w1)" "undisturbed (disk w) (disk w1)"
    using stays_run [OF stays_session_turn less.prems] by blast
  then obtain go_on where r: "r = Inr go_on" using session_returns(2) by blast
  have unfold: "command_loop w = (if go_on then command_loop w1 else Some (Inr (), w1))"
    using w1(1) r by (subst command_loop.simps) simp
  show ?case
  proof (cases go_on)
    case True
    then have "pending w1 < pending w" using run_turn_pending w1(1) r by simp
    from less.hyps [OF this w1(2)] show ?thesis using unfold True undisturbed_trans [OF w1(3)] by auto
  qed (use unfold w1 in auto)
qed

lemma handle_client_ends:
  assumes "alone F idle (disk w)"
  shows "\<exists>w'. handle_client w = Some (Inr (), w') \<and> alone F idle (disk w') \<and> undisturbed (disk w) (disk w')"
proof -
  obtain r w1 where w1: "run session_hello w = Some (r, w1)" "alone F idle (disk w1)" "undisturbed (disk w) (disk w1)"
    using stays_run [OF stays_session_hello assms] by blast
  then obtain go_on where r: "r = Inr go_on" using session_returns(1) by blast
  show ?thesis
  proof (cases go_on)
    case True
    then show ?thesis
      using w1 r command_loop_ends [OF w1(2)] undisturbed_trans [OF w1(3)] by (auto simp: handle_client_def)
  qed (use w1 r in \<open>auto simp: handle_client_def\<close>)
qed

section \<open>Turns of a session\<close>

lemma run_hello:
  assumes "[] \<notin> set (inbox w)" and "concat (inbox w) = frame RTRV_T_HELLO [] @ rest"
  shows "run session_hello w =
    Some (Inr True, w\<lparr>inbox := unread 14 (inbox w), sent := sent w @ frame RTRV_T_OK []\<rparr>)"
proof -
  have "PAYLOAD_CAPS RTRV_T_HELLO = Some 0" by (simp add: PAYLOAD_CAPS_def same_wire)
  from run_read_frame [OF assms this] show ?thesis
    by (simp add: session_hello_def guarded_def run_simps same_wire)
qed

lemma caps_empty: "PAYLOAD_CAPS RTRV_T_QUIT = Some 0" "PAYLOAD_CAPS RTRV_T_LIST = Some 0"
  by (simp_all add: PAYLOAD_CAPS_def same_wire frame_types)

lemma run_turn_quit:
  assumes "[] \<notin> set (inbox w)" and "concat (inbox w) = frame RTRV_T_QUIT [] @ rest"
  shows "run session_turn w =
    Some (Inr False, w\<lparr>inbox := unread 14 (inbox w), sent := sent w @ frame RTRV_T_OK []\<rparr>)"
  using run_read_frame [OF assms caps_empty(1)]
  by (simp add: session_turn_def guarded_def run_simps same_wire)

lemma run_turn_list:
  assumes "[] \<notin> set (inbox w)" and "concat (inbox w) = frame RTRV_T_LIST [] @ rest"
    and "length (join_names (map (encode \<circ> fst) (dirents (disk w)))) < 2 ^ 64"
    and "\<forall>n \<in> fst ` set (dirents (disk w)). utf8 (encode n)"
  shows "run session_turn w =
    Some (Inr True, w\<lparr>inbox := unread 14 (inbox w),
      sent := sent w @ frame RTRV_T_OK (join_names (map (encode \<circ> fst) (dirents (disk w))))\<rparr>)"
  using run_read_frame [OF assms(1,2) caps_empty(2)] assms(3,4)
  by (simp add: session_turn_def guarded_def handle_list_def encode_names_eq run_simps same_wire) (simp add: frame_types)

text \<open>One name that is not UTF-8 makes the listing fail, and the session with it.\<close>

lemma run_turn_list_undecodable:
  assumes "[] \<notin> set (inbox w)" and "concat (inbox w) = frame RTRV_T_LIST [] @ rest"
    and "n \<in> fst ` set (dirents (disk w))" and "\<not> utf8 (encode n)"
  shows "run session_turn w =
    Some (Inr False, w\<lparr>inbox := unread 14 (inbox w),
      sent := sent w @ frame RTRV_T_ERROR (error_payload E_INTERNAL ''internal server error'')\<rparr>)"
proof -
  have "encode_names (map fst (dirents (disk w))) = Raise OtherErr" using assms(3,4) by (auto simp: encode_names_eq)
  then show ?thesis
    using run_read_frame [OF assms(1,2) caps_empty(2)]
    by (simp add: session_turn_def guarded_def handle_list_def run_bind run_catch run_simps run_quietly same_wire)
      (simp add: frame_types)
qed

text \<open>A client that says hello, makes one turn and says goodbye.\<close>

lemma run_one_command:
  assumes pieces: "[] \<notin> set ib" "concat ib = frame RTRV_T_HELLO [] @ request @ frame RTRV_T_QUIT []"
    and turn: "\<And>ib'. [] \<notin> set ib' \<Longrightarrow> concat ib' = request @ frame RTRV_T_QUIT [] \<Longrightarrow>
      run session_turn \<lparr>inbox = ib', sent = frame RTRV_T_OK [], disk = S\<rparr> =
        Some (Inr True, \<lparr>inbox = unread (length request) ib', sent = frame RTRV_T_OK [] @ reply, disk = S'\<rparr>)"
  shows "handle_client \<lparr>inbox = ib, sent = [], disk = S\<rparr> =
    Some (Inr (), \<lparr>inbox = [], sent = frame RTRV_T_OK [] @ reply @ frame RTRV_T_OK [], disk = S'\<rparr>)"
proof -
  let ?w = "\<lparr>inbox = ib, sent = [], disk = S\<rparr>"
  let ?ib2 = "unread (length request) (unread 14 ib)"
  have len: "length (frame ty []) = 14" for ty by (simp add: frame_def)
  have "run session_hello ?w = Some (Inr True, \<lparr>inbox = unread 14 ib, sent = frame RTRV_T_OK [], disk = S\<rparr>)"
    using run_hello [of ?w "request @ frame RTRV_T_QUIT []"] pieces by simp
  moreover have "run session_turn \<lparr>inbox = unread 14 ib, sent = frame RTRV_T_OK [], disk = S\<rparr> =
      Some (Inr True, \<lparr>inbox = ?ib2, sent = frame RTRV_T_OK [] @ reply, disk = S'\<rparr>)"
    by (rule turn) (use pieces len in simp_all)
  moreover have "run session_turn \<lparr>inbox = ?ib2, sent = frame RTRV_T_OK [] @ reply, disk = S'\<rparr> =
      Some (Inr False, \<lparr>inbox = [], sent = frame RTRV_T_OK [] @ reply @ frame RTRV_T_OK [], disk = S'\<rparr>)"
    using run_turn_quit [where rest = "[]", of "\<lparr>inbox = ?ib2, sent = frame RTRV_T_OK [] @ reply, disk = S'\<rparr>"] pieces len
    by (simp add: unread_all)
  ultimately show ?thesis
    by (simp add: handle_client_def command_loop.simps)
qed

end
