(* ===== verification/Rtrv_Trace.thy ===== *)
theory Rtrv_Trace
  imports Rtrv_Serve
begin

text \<open>
  A session that runs alone is one of the runs of the threaded server: the calls that \<open>run\<close> makes, one
  after the other, are steps of \<open>server_step\<close>. So the properties of all interleavings hold of it.
\<close>

section \<open>The calls of a program\<close>

text \<open>The choice of the environment that a calm answer stands for.\<close>

definition calm_choice :: "action \<Rightarrow> answer \<Rightarrow> choice" where
  "calm_choice a r = (case a of Recv n \<Rightarrow> Arrive (data r) | _ \<Rightarrow> Fine)"

lemma calm_choice_performs:
  assumes "calm_step a w = Some (r, w')"
  shows "perform 0 a (calm_choice a r) (disk w) = Some (r, disk w')"
  using assms by (cases a) (auto simp: calm_choice_def attempt_call_def split: list.splits option.splits prod.splits if_splits)

primrec trace :: "'a proc \<Rightarrow> conn \<Rightarrow> event list" where
  "trace (Return x) w = []"
| "trace (Raise e) w = []"
| "trace (Act a k) w = (case calm_step a w of None \<Rightarrow> [] | Some (r, w') \<Rightarrow> Called 0 a (calm_choice a r) r # trace (k r) w')"

text \<open>The value that a program ends with, as a program.\<close>

fun leaf :: "exc + 'a \<Rightarrow> 'a proc" where
  "leaf (Inl e) = Raise e"
| "leaf (Inr x) = Return x"

lemma server_run_trans:
  assumes "server_run hello turn s' es' s''" and "server_run hello turn s es s'"
  shows "server_run hello turn s (es @ es') s''"
  using assms
proof (induction rule: server_run.induct)
  case (more s' es' s1 e s2)
  from server_run.more [OF more(3) [OF more(4)] more(2)] show ?case by simp
qed simp

lemma server_run_step: "server_step hello turn s e s' \<Longrightarrow> server_run hello turn s [e] s'"
  using server_run.more [OF server_run.start] by fastforce

text \<open>A server with one session.\<close>

abbreviation serving :: "shared \<Rightarrow> thread \<Rightarrow> sys" where
  "serving S t \<equiv> \<lparr>mem = S, threads = [t]\<rparr>"

lemma run_is_server_run:
  assumes "run p w = Some (r, w')"
  shows "server_run hello turn (serving (disk w) (Running p)) (trace p w) (serving (disk w') (Running (leaf r)))"
  using assms
proof (induction p arbitrary: w)
  case (Act a k)
  then obtain x w1 where step: "calm_step a w = Some (x, w1)" "run (k x) w1 = Some (r, w')"
    by (auto split: option.splits)
  have "server_step hello turn (serving (disk w) (Running (Act a k))) (Called 0 a (calm_choice a x) x)
      (serving (disk w1) (Running (k x)))"
    using server_step.called [of 0 "serving (disk w) (Running (Act a k))"] calm_choice_performs [OF step(1)] by simp
  from server_run_trans [OF Act.IH [OF _ step(2)] server_run_step [OF this]] show ?case using step(1) by simp
qed (auto intro: server_run.start)

text \<open>The steps between the programs of a session.\<close>

lemma accept_first: "server_step hello turn \<lparr>mem = S, threads = []\<rparr> Accepted (serving S (Running hello))"
  using server_step.accepted [of "\<lparr>mem = S, threads = []\<rparr>"] by (simp add: live_def MAX_CLIENTS_def)

lemma turn_next: "server_step hello turn (serving S (Running (Return True))) (Turned 0) (serving S (Running turn))"
  using server_step.turned [of 0 "serving S (Running (Return True))"] by simp

lemma end_last:
  "p = Return False \<or> p = Raise e \<Longrightarrow> server_step hello turn (serving S (Running p)) (Ended 0) (serving S Finished)"
  using server_step.ended [of 0 "serving S (Running p)"] by auto

text \<open>One program of a session and the step after it.\<close>

lemma goes_on:
  assumes "run p w = Some (Inr True, w')"
  shows "server_run hello turn (serving (disk w) (Running p)) (trace p w @ [Turned 0]) (serving (disk w') (Running turn))"
  using server_run_trans [OF server_run_step [OF turn_next] run_is_server_run [OF assms, unfolded leaf.simps]] .

lemma stops:
  assumes "run p w = Some (r, w')" and "r \<noteq> Inr True"
  shows "server_run hello turn (serving (disk w) (Running p)) (trace p w @ [Ended 0]) (serving (disk w') Finished)"
proof -
  have "leaf r = Return False \<or> (\<exists>e. leaf r = Raise e)" using assms(2) by (cases r) auto
  then show ?thesis using server_run_trans [OF server_run_step [OF end_last] run_is_server_run [OF assms(1)]] by blast
qed

section \<open>A whole session\<close>

lemma command_loop_is_run:
  assumes "command_loop w = Some x"
  shows "\<exists>es. server_run session_hello session_turn (serving (disk w) (Running session_turn)) es (serving (disk (snd x)) Finished)"
proof (rule command_loop.raw_induct [OF _ assms], goal_cases)
  case (1 loop w x)
  then obtain r w1 where w1: "run session_turn w = Some (r, w1)" by (auto simp: bind_eq_Some_conv)
  show ?case
  proof (cases "r = Inr True")
    case True
    then have "loop w1 = Some x" using 1(2) w1 by simp
    then show ?thesis using 1(1) goes_on [OF w1 [unfolded True]] server_run_trans by blast
  next
    case False
    then have "snd x = w1" using 1(2) w1 by (auto split: sum.splits if_splits)
    then show ?thesis using stops [OF w1] False by auto
  qed
qed

lemma handle_client_is_run:
  assumes "handle_client w = Some (r, w')"
  shows "\<exists>es. server_run session_hello session_turn \<lparr>mem = disk w, threads = []\<rparr> es (serving (disk w') Finished)"
proof -
  obtain r1 w1 where w1: "run session_hello w = Some (r1, w1)"
    using assms by (auto simp: handle_client_def bind_eq_Some_conv)
  have "\<exists>es. server_run session_hello session_turn (serving (disk w) (Running session_hello)) es (serving (disk w') Finished)"
  proof (cases "r1 = Inr True")
    case True
    then have "command_loop w1 = Some (r, w')" using assms w1 by (simp add: handle_client_def)
    from command_loop_is_run [OF this] show ?thesis
      using goes_on [OF w1 [unfolded True]] server_run_trans by fastforce
  next
    case False
    then have "w' = w1" using assms w1 by (auto simp: handle_client_def split: sum.splits if_splits)
    then show ?thesis using stops [OF w1] False by auto
  qed
  then show ?thesis using server_run_trans [OF _ server_run_step [OF accept_first]] by blast
qed

end
