(* ===== verification/Rtrv_System.thy ===== *)
theory Rtrv_System
  imports Rtrv_Session Rtrv_Resume Rtrv_Trace
begin

text \<open>
  The whole C program against a whole session of the server: what each side sends is what the other
  side reads. Every lemma has two halves, the session on the bytes that the program sends and the
  program on the bytes that the session answers.
\<close>

section \<open>The program, once its handshake is answered\<close>

lemma session_commands [simp]:
  "session_command ''list'' n m = do_list" "session_command ''get'' n m = rtrv_do_get n m"
  "session_command ''put'' n m = rtrv_do_put n m"
  by (simp_all add: session_command_def)

lemma command_lines:
  "command_line [prog, host, port, ''list''] = Some (host, port, ''list'', [], [])"
  "command_line [prog, host, port, ''get'', name, ''-o'', dest] = Some (host, port, ''get'', name, dest)"
  "command_line [prog, host, port, ''put'', path, name] = Some (host, port, ''put'', path, name)"
  by (simp_all add: command_line_def)

text \<open>
  A run of the program that says hello, runs its command and says goodbye. \<open>request\<close> is what the
  command sends, \<open>reply\<close> what it reads.
\<close>

lemma main_conversation:
  assumes argv: "argv \<noteq> []" "command_line argv = Some (host, port, c, n, m)"
    and peer: "getaddrinfo host port = Some as" "Accepts \<in> set as"
    and calm: "faults w = []" "TxErr \<notin> set (tx_plan w)"
    and stream: "avail w = frame RTRV_T_OK [] @ reply @ frame RTRV_T_OK []"
    and command: "\<And>w1. avail w1 = reply @ frame RTRV_T_OK [] \<Longrightarrow> faults w1 = [] \<Longrightarrow> TxErr \<notin> set (tx_plan w1) \<Longrightarrow>
      fs w1 = fs w \<Longrightarrow> out w1 = out w \<Longrightarrow>
      wp (session_command c n m) (\<lambda>r w2. r = Ok () \<and> avail w2 = frame RTRV_T_OK [] \<and> faults w2 = [] \<and>
        TxErr \<notin> set (tx_plan w2) \<and> tx w2 = tx w1 @ request \<and> R (fs w2) (out w2)) w1"
  shows "\<exists>w'. retriever_main getaddrinfo argv w = (Ok 0, w') \<and>
    tx w' = tx w @ frame RTRV_T_HELLO [] @ request @ frame RTRV_T_QUIT [] \<and> R (fs w') (out w') \<and>
    allocs w' = allocs w \<and> open_files w' = open_files w"
proof -
  let ?Q = "\<lambda>r w'. r = Ok 0 \<and> tx w' = tx w @ frame RTRV_T_HELLO [] @ request @ frame RTRV_T_QUIT [] \<and>
    R (fs w') (out w') \<and> allocs w' = allocs w \<and> open_files w' = open_files w"
  have "wp (retriever_main getaddrinfo argv) ?Q w"
  proof (rule wp_main_calm [where getaddrinfo = getaddrinfo, OF argv peer calm, where len = 0 and p = "[]" and
        rest = "reply @ frame RTRV_T_OK []"], goal_cases)
    case (4 w1)
    have "wp (session_command c n m) (\<lambda>r w2. (r = Ok () \<and> avail w2 = frame RTRV_T_OK [] \<and> faults w2 = [] \<and>
        TxErr \<notin> set (tx_plan w2) \<and> tx w2 = tx w1 @ request \<and> R (fs w2) (out w2)) \<and>
        allocs w2 = allocs w1 \<and> open_files w2 = open_files w1) w1"
      using command [OF 4(1-4,7)] wp_command_safe [of c n m w1] by (auto simp: wp_def)
    then show ?case
      by (rule wp_mono) (use 4 in \<open>auto simp: session_post_def heard_def steady_def simp del: take_all_iff\<close>)
  qed (use stream in \<open>simp_all add: frame_def\<close>)
  then show ?thesis by (auto simp: wp_def split: prod.splits)
qed

section \<open>Downloads\<close>

lemma length_get_meta [simp]: "length digest = 32 \<Longrightarrow> length (get_meta total_size start digest) = 48"
  by (simp add: get_meta_def)

lemma get_answer_eq:
  assumes "m = 0 \<or> token = take 8 (sha256 c)" and "m < 2 ^ 64"
  shows "get_answer c m token = frame_header RTRV_T_OK (word_of_nat (48 + (length c - m))) @
    get_meta (word_of_nat (length c)) (word_of_nat m) (sha256 c) @ drop m c"
  using assms by (auto simp: get_answer_def)

lemma session_sends_file:
  assumes "check_filename name" and "file_of S name = Some c" and "length c + 48 < 2 ^ 64" and "length token = 8"
    and "unat offset \<le> length c" and "[] \<notin> set ib"
    and "concat ib = frame RTRV_T_HELLO [] @ frame RTRV_T_GET (get_request offset token name) @ frame RTRV_T_QUIT []"
  shows "handle_client \<lparr>inbox = ib, sent = [], disk = S\<rparr> =
    Some (Inr (), \<lparr>inbox = [], sent = frame RTRV_T_OK [] @ get_answer c (unat offset) token @ frame RTRV_T_OK [], disk = S\<rparr>)"
proof (rule run_one_command [OF assms(6,7)])
  fix ib'
  assume "[] \<notin> set ib'" "concat ib' = frame RTRV_T_GET (get_request offset token name) @ frame RTRV_T_QUIT []"
  then show "run session_turn \<lparr>inbox = ib', sent = frame RTRV_T_OK [], disk = S\<rparr> =
      Some (Inr True, \<lparr>inbox = unread (length (frame RTRV_T_GET (get_request offset token name))) ib',
        sent = frame RTRV_T_OK [] @ get_answer c (unat offset) token, disk = S\<rparr>)"
    using run_turn_get [where w = "\<lparr>inbox = ib', sent = frame RTRV_T_OK [], disk = S\<rparr>" and rest = "frame RTRV_T_QUIT []"]
      assms(1-5) by (simp add: frame_def)
qed

lemma server_answers_get:
  assumes "check_filename name" and "file_of S name = Some c" and "length c + 48 < 2 ^ 64" and "length token = 8"
    and "unat offset \<le> length c" and "[] \<notin> set ib" and "concat ib = frame RTRV_T_GET (get_request offset token name)"
  shows "run session_turn \<lparr>inbox = ib, sent = [], disk = S\<rparr> =
    Some (Inr True, \<lparr>inbox = [], sent = get_answer c (unat offset) token, disk = S\<rparr>)"
proof -
  have "unread (32 + length name) ib = []" using assms by (intro unread_all) (simp_all add: frame_def)
  then show ?thesis
    using run_turn_get [where w = "\<lparr>inbox = ib, sent = [], disk = S\<rparr>" and rest = "[]"] assms by simp
qed

lemma wp_get_fresh:
  assumes calm: "faults w = []" "TxErr \<notin> set (tx_plan w)" and fresh: "fresh_dest (fs w) dest (sha256 c)"
    and name: "length name \<le> 255" and size: "length c + 48 < 2 ^ 64"
    and stream: "avail w = get_answer c 0 (replicate 8 0) @ rest"
  shows "wp (rtrv_do_get name dest) (\<lambda>r w'. r = Ok () \<and> avail w' = rest \<and> faults w' = [] \<and> TxErr \<notin> set (tx_plan w') \<and>
    tx w' = tx w @ frame RTRV_T_GET (get_request 0 (replicate 8 0) name) \<and> node_at (fs w') dest = Some (File c)) w"
proof -
  note f = fresh [unfolded fresh_dest_def]
  have offer: "offer_partial dest w = (Ok (False, [], 0, replicate 8 0), w)"
    using calm f creatable_partial_dir by (intro offer_partial_calm(1) [OF _ _ _ refl]) blast+
  have pub: "node_at (AList.update (resolve dest) (File c) f') dest = Some (File c)" for f'
    using f by (intro node_at_creatable [of "fs w"]) (simp_all add: update_conv')
  show ?thesis
    by (rule wp_do_get_calm [OF calm length_sha256 _ name offer, where start = 0 and body = c and rest = rest and
          len = "word_of_nat (48 + length c)"])
      (use f size stream pub get_answer_eq [of 0 "replicate 8 0" c] in
        \<open>auto simp: get_frame_def resume_base_def u64_nat\<close>)
qed

section \<open>Uploads\<close>

text \<open>The files of the server after an upload.\<close>

lemma session_upload_files:
  assumes name: "check_filename name" and p: "p = partial_name name digest" and S: "tidy S" "entry S name = None"
    and part: "entry S p = None \<and> m = 0 \<or> file_of S p = Some (take m c)"
  shows "file_of (uploaded S p name c) name = Some c" "file_of (uploaded S p name c) p = None"
    "q \<noteq> name \<Longrightarrow> q \<noteq> p \<Longrightarrow> file_of (uploaded S p name c) q = file_of S q"
proof -
  have np: "name \<noteq> p" "p \<noteq> ''.''"
    unfolding p partial_name_plain [OF name] by (rule notI, drule arg_cong [where f = length], simp) simp
  have dir: "entry S p \<noteq> Some (Subdir k)" for k using part by (auto simp: file_of_def)
  note files = uploaded_files [OF S(1) np(2,1) S(2) dir]
  show "file_of (uploaded S p name c) name = Some c" "file_of (uploaded S p name c) p = None"
    "q \<noteq> name \<Longrightarrow> q \<noteq> p \<Longrightarrow> file_of (uploaded S p name c) q = file_of S q"
    by (rule files)+
qed

lemma session_takes_file:
  assumes "check_filename name" and "p = partial_name name (sha256 c)" and "[] \<notin> set ib"
    and "concat ib = frame RTRV_T_HELLO [] @
      (frame RTRV_T_PUT (put_request (word_of_nat (length c)) (sha256 c) name) @ drop m c) @ frame RTRV_T_QUIT []"
    and "entry S p = None \<and> m = 0 \<or> file_of S p = Some (take m c)" and "m \<le> length c"
    and "entry S name = None" and "p \<notin> in_flight S" and "lock S = None" and "length c \<le> MAX_FILE_SIZE"
  shows "handle_client \<lparr>inbox = ib, sent = [], disk = S\<rparr> =
    Some (Inr (), \<lparr>inbox = [], sent = frame RTRV_T_OK [] @
      (frame RTRV_T_OK (be_bytes 8 (word_of_nat m :: u64)) @ frame RTRV_T_OK []) @ frame RTRV_T_OK [],
      disk = uploaded S p name c\<rparr>)"
proof (rule run_one_command [OF assms(3,4)])
  fix ib'
  let ?req = "frame RTRV_T_PUT (put_request (word_of_nat (length c)) (sha256 c) name) @ drop m c"
  assume "[] \<notin> set ib'" "concat ib' = ?req @ frame RTRV_T_QUIT []"
  then show "run session_turn \<lparr>inbox = ib', sent = frame RTRV_T_OK [], disk = S\<rparr> =
      Some (Inr True, \<lparr>inbox = unread (length ?req) ib', sent = frame RTRV_T_OK [] @
        frame RTRV_T_OK (be_bytes 8 (word_of_nat m :: u64)) @ frame RTRV_T_OK [], disk = uploaded S p name c\<rparr>)"
    using run_turn_put [where w = "\<lparr>inbox = ib', sent = frame RTRV_T_OK [], disk = S\<rparr>" and rest = "frame RTRV_T_QUIT []",
        OF assms(1,2)] assms(5-10)
    by (simp add: frame_def add.assoc)
qed

lemma wp_put_known:
  assumes calm: "faults w = []" "TxErr \<notin> set (tx_plan w)" and stored: "node_at (fs w) path = Some (File c)"
    and size: "length c \<le> MAX_FILE_SIZE" and name: "length name \<le> 255" and m: "m \<le> length c"
    and stream: "avail w = frame RTRV_T_OK (be_bytes 8 (word_of_nat m :: u64)) @ frame RTRV_T_OK [] @ rest"
  shows "wp (rtrv_do_put path name) (\<lambda>r w'. r = Ok () \<and> avail w' = rest \<and> faults w' = [] \<and> TxErr \<notin> set (tx_plan w') \<and>
    tx w' = tx w @ frame RTRV_T_PUT (put_request (word_of_nat (length c)) (sha256 c) name) @ drop m c \<and> fs w' = fs w) w"
proof -
  have small: "length c < 2 ^ 64" using size by (simp add: MAX_FILE_SIZE_def)
  have um: "unat (word_of_nat m :: u64) = m" using m small by (intro u64_nat) simp
  show ?thesis
    by (rule wp_do_put_calm [OF calm stored small name, where offset = "word_of_nat m"
          and ?q1.0 = "be_bytes 8 (word_of_nat m :: u64)" and ?l1.0 = 8 and ?q2.0 = "[]" and ?l2.0 = 0 and rest = rest])
      (use um m small stream in
        \<open>simp_all add: frame_def put_frame_def RTRV_PAYLOAD_CAP_def word_le_nat_alt u64_nat\<close>)
qed

section \<open>Listings\<close>

abbreviation names_of :: "shared \<Rightarrow> bytes list" where
  "names_of S \<equiv> map (encode \<circ> fst) (dirents S)"

lemma join_names_zero: "join_names ns = join_zero ns"
  by (induction ns rule: join_names.induct) simp_all

lemma session_lists:
  assumes "length (join_zero (names_of S)) < 2 ^ 64" and "[] \<notin> set ib"
    and "concat ib = frame RTRV_T_HELLO [] @ frame RTRV_T_LIST [] @ frame RTRV_T_QUIT []"
    and "\<forall>n \<in> set (names_of S). utf8 n"
  shows "handle_client \<lparr>inbox = ib, sent = [], disk = S\<rparr> =
    Some (Inr (), \<lparr>inbox = [], sent = frame RTRV_T_OK [] @ frame RTRV_T_OK (join_zero (names_of S)) @ frame RTRV_T_OK [],
      disk = S\<rparr>)"
proof (rule run_one_command [OF assms(2,3)])
  fix ib'
  assume "[] \<notin> set ib'" "concat ib' = frame RTRV_T_LIST [] @ frame RTRV_T_QUIT []"
  then show "run session_turn \<lparr>inbox = ib', sent = frame RTRV_T_OK [], disk = S\<rparr> =
      Some (Inr True, \<lparr>inbox = unread (length (frame RTRV_T_LIST [])) ib',
        sent = frame RTRV_T_OK [] @ frame RTRV_T_OK (join_zero (names_of S)), disk = S\<rparr>)"
    using run_turn_list [where w = "\<lparr>inbox = ib', sent = frame RTRV_T_OK [], disk = S\<rparr>" and rest = "frame RTRV_T_QUIT []"]
      assms(1,4) by (simp add: frame_def join_names_zero)
qed

lemma wp_list_known:
  assumes calm: "faults w = []" "TxErr \<notin> set (tx_plan w)"
    and names: "\<forall>n \<in> set names. n \<noteq> [] \<and> 0 \<notin> set n" "length (join_zero names) \<le> RTRV_PAYLOAD_CAP"
    and stream: "avail w = frame RTRV_T_OK (join_zero names) @ rest"
  shows "wp do_list (\<lambda>r w'. r = Ok () \<and> avail w' = rest \<and> faults w' = [] \<and> TxErr \<notin> set (tx_plan w') \<and>
    tx w' = tx w @ frame RTRV_T_LIST [] \<and> fs w' = fs w \<and> out w' = out w @ map Listed names) w"
proof -
  have "unat (word_of_nat (length (join_zero names)) :: u64) = length (join_zero names)"
    using names(2) by (intro u64_nat) (simp add: RTRV_PAYLOAD_CAP_def)
  then show ?thesis
    by (intro wp_do_list_calm [OF calm, where len = "word_of_nat (length (join_zero names))" and
          p = "join_zero names" and rest = rest])
      (use names stream in \<open>simp_all add: frame_def listing_join steady_def\<close>)
qed

section \<open>Refusals\<close>

text \<open>A session that refuses a request and whose client then closes.\<close>

lemma run_turn_closed: "run session_turn \<lparr>inbox = [], sent = s, disk = S\<rparr> = Some (Inr False, \<lparr>inbox = [], sent = s, disk = S\<rparr>)"
proof -
  have "run read_frame \<lparr>inbox = [], sent = s, disk = S\<rparr> = Some (Inl ConnectionErr, \<lparr>inbox = [], sent = s, disk = S\<rparr>)"
    unfolding read_frame_def read_frame_header_def read_exact_bytes_def
    by (subst read_exact_more.simps) (simp add: run_bind run_call HEADER_SIZE_def)
  then show ?thesis by (simp add: session_turn_def guarded_def run_bind run_catch)
qed

lemma session_misses_file:
  assumes "check_filename name" and "file_of S name = None" and "length token = 8" and "[] \<notin> set ib"
    and "concat ib = frame RTRV_T_HELLO [] @ frame RTRV_T_GET (get_request offset token name)"
  shows "handle_client \<lparr>inbox = ib, sent = [], disk = S\<rparr> = Some (Inr (), \<lparr>inbox = [],
    sent = frame RTRV_T_OK [] @ frame RTRV_T_ERROR (error_payload RTRV_E_NOT_FOUND ''not found on server''), disk = S\<rparr>)"
proof -
  let ?w = "\<lparr>inbox = ib, sent = [], disk = S\<rparr>" and ?req = "get_request offset token name"
  let ?w1 = "\<lparr>inbox = unread 14 ib, sent = frame RTRV_T_OK [], disk = S\<rparr>"
  have in1: "[] \<notin> set (inbox ?w1)" "concat (inbox ?w1) = frame RTRV_T_GET ?req @ []"
    using assms(4,5) by (simp_all add: frame_def)
  have none: "unread (32 + length name) (unread 14 ib) = []"
    using in1 assms(3) by (intro unread_all) (simp_all add: frame_def)
  have hello: "run session_hello ?w = Some (Inr True, ?w1)"
    using run_hello [of ?w] assms(4,5) by simp
  have req: "length ?req = 18 + length name" "take 8 (drop 8 ?req) = token"
    "drop 16 ?req = be_bytes 2 (word_of_nat (length name) :: u16) @ encode name"
    using assms(3) by (simp_all add: get_request_def)
  have missing: "(case entry S name of Some (Ino i) \<Rightarrow> True | _ \<Rightarrow> False) = False"
    using assms(2) by (auto simp: file_of_def split: option.splits dirent.splits)
  have "run read_frame ?w1 = Some (Inr (RTRV_T_GET, ?req), \<lparr>inbox = [], sent = frame RTRV_T_OK [], disk = S\<rparr>)"
    using run_read_frame [OF in1 caps(1)] none req(1) check_filename_props(2) [OF assms(1)] by simp
  moreover have "run (handle_get ?req) \<lparr>inbox = [], sent = s, disk = S\<rparr> = Some (Inr (), \<lparr>inbox = [],
      sent = s @ frame RTRV_T_ERROR (error_payload RTRV_E_NOT_FOUND ''not found on server''), disk = S\<rparr>)" for s
    using assms(1) missing
    by (simp add: handle_get_def req GET_PREFIX_def TOKEN_SIZE_def Let_def run_simps run_parse_name same_reasons
        cong: option.case_cong dirent.case_cong)
  ultimately have "run session_turn ?w1 = Some (Inr True, \<lparr>inbox = [],
      sent = frame RTRV_T_OK [] @ frame RTRV_T_ERROR (error_payload RTRV_E_NOT_FOUND ''not found on server''), disk = S\<rparr>)"
    by (simp add: session_turn_def guarded_def run_simps same_wire frame_types)
  then show ?thesis
    using hello run_turn_closed by (simp add: handle_client_def command_loop.simps)
qed

text \<open>A refused download reports the server's reason and changes nothing.\<close>

lemma report_refusal:
  assumes "0 \<notin> set (encode msg)" and "length msg < 65536" and "length (error_payload reason msg) = unat len"
  shows "rtrv_report_error (Some (error_payload reason msg)) len w =
    (Ok (), w\<lparr>err := err w @ [ServerError (encode msg) reason]\<rparr>)"
proof -
  have "be_val (take 2 (drop 1 (error_payload reason msg))) = (word_of_nat (length msg) :: u16)"
    by (simp add: error_payload_def be_val_be_bytes)
  then show ?thesis
    using report_error_eq [OF assms(3), of w] assms(1,2) by (simp add: error_payload_def printed_plain unat_of_nat Let_def)
qed

lemma wp_get_reply_refused:
  assumes calm: "faults w = []" and msg: "0 \<notin> set (encode msg)" "length msg < 65000"
    and stream: "avail w = frame RTRV_T_ERROR (error_payload reason msg)"
    and Q: "\<And>r. Q Fail (w\<lparr>rx := r, err := err w @ [ServerError (encode msg) reason]\<rparr>)"
  shows "wp get_reply Q w"
  unfolding get_reply_def wp_andthen
proof (rule wp_read_frame_header, goal_cases)
  case (1 ty l r)
  let ?p = "error_payload reason msg"
  have got: "ty = RTRV_T_ERROR" "l = word_of_nat (length ?p)" "rx_bytes r = ?p"
    using 1 stream by (auto simp: frame_def frame_header_inject)
  have len: "length ?p = unat l" "length ?p \<le> RTRV_PAYLOAD_CAP"
    using msg(2) by (simp_all add: got(2) error_payload_def u64_nat RTRV_PAYLOAD_CAP_def del: of_nat_Suc)
  have report: "rtrv_report_error (Some ?p) l w' = (Ok (), w'\<lparr>err := err w' @ [ServerError (encode msg) reason]\<rparr>)" for w'
    by (rule report_refusal) (use msg len in simp_all)
  let ?w = "w\<lparr>rx := r, allocs := Suc (allocs w)\<rparr>"
  have "wp (attempt (rtrv_read_exact (replicate (unat l) 0) (unat l))
            (\<lambda>payload. andthen (rtrv_report_error (Some payload) l) (\<lambda>_. andthen (free (Some ())) (\<lambda>_. failed)))
            (andthen (free (Some ())) (\<lambda>_. failed))) Q ?w"
    unfolding wp_attempt
  proof (rule wp_read_exact, goal_cases)
    case (2 r')
    then show ?case
      using got(3) len(1) Q by (simp add: wp_andthen wp_run [OF report] wp_simps)
  next
    case (3 r' d)
    then show ?case using got(3) len(1) by simp
  qed simp
  then show ?case
    using got(1) len calm by (simp add: wp_andthen wp_malloc_calm)
next
  case (2 r d)
  then show ?case using stream by (auto simp: frame_def)
qed

lemma wp_get_refused:
  assumes calm: "faults w = []" "TxErr \<notin> set (tx_plan w)" and dest: "good_dest dest" "node_at (fs w) dest = None"
      "is_dir (fs w) (resolve (path_dir dest))" "partials_of dest (entries (fs w) (resolve (path_dir dest))) = []"
    and name: "length name \<le> 255" and msg: "0 \<notin> set (encode msg)" "length msg < 65000"
    and stream: "avail w = frame RTRV_T_ERROR (error_payload reason msg)"
  shows "wp (rtrv_do_get name dest) (\<lambda>r w'. r = Fail \<and> fs w' = fs w \<and> out w' = out w \<and>
    tx w' = tx w @ frame RTRV_T_GET (get_request 0 (replicate 8 0) name) \<and>
    ServerError (encode msg) reason \<in> set (err w')) w"
    (is "wp _ ?Q w")
proof -
  have offer: "offer_partial dest w = (Ok (False, [], 0, replicate 8 0), w)"
    using calm dest by (intro offer_partial_calm(1) [OF _ _ _ refl]) simp_all
  have "wp (send_get name 0 (replicate 8 0))
         (\<lambda>r w'. case r of Ok _ \<Rightarrow> wp (andthen get_reply (get_receive name dest False [])) ?Q w'
             | Fail \<Rightarrow> ?Q Fail w' | Undef \<Rightarrow> ?Q Undef w') w"
  proof (rule wp_send_get [OF _ name, where b = False and e = "[]"], goal_cases)
    case (2 q)
    show ?case
      unfolding outcome.case wp_andthen
      by (rule wp_get_reply_refused [OF _ msg, where reason = reason])
        (use calm stream in \<open>simp_all add: get_frame_def\<close>)
  qed (use calm in simp_all)
  then show ?thesis
    unfolding do_get_eq wp_andthen [of "file_exists dest"] wp_file_exists outcome.case
    using dest(2) name
    by (simp add: wp_run [where m = "offer_partial dest" and w = w, OF offer(1)] wp_simps RTRV_MAX_NAME_def
        cong: outcome.case_cong)
qed

text \<open>A listing that cannot be made: one name is not UTF-8.\<close>

lemma session_cannot_list:
  assumes "[] \<notin> set ib" and "concat ib = frame RTRV_T_HELLO [] @ frame RTRV_T_LIST []"
    and "n \<in> set (names_of S)" and "\<not> utf8 n"
  shows "handle_client \<lparr>inbox = ib, sent = [], disk = S\<rparr> = Some (Inr (), \<lparr>inbox = [],
    sent = frame RTRV_T_OK [] @ frame RTRV_T_ERROR (error_payload RTRV_E_INTERNAL ''internal server error''), disk = S\<rparr>)"
proof -
  let ?w = "\<lparr>inbox = ib, sent = [], disk = S\<rparr>"
  let ?w1 = "\<lparr>inbox = unread 14 ib, sent = frame RTRV_T_OK [], disk = S\<rparr>"
  have in1: "[] \<notin> set (inbox ?w1)" "concat (inbox ?w1) = frame RTRV_T_LIST [] @ []"
    using assms(1,2) by (simp_all add: frame_def)
  then have none: "unread 14 (unread 14 ib) = []" by (intro unread_all) (simp_all add: frame_def)
  obtain m where "m \<in> fst ` set (dirents S)" "\<not> utf8 (encode m)" using assms(3,4) by auto
  then have "run session_turn ?w1 = Some (Inr False, \<lparr>inbox = [],
      sent = frame RTRV_T_OK [] @ frame RTRV_T_ERROR (error_payload RTRV_E_INTERNAL ''internal server error''), disk = S\<rparr>)"
    using run_turn_list_undecodable [OF in1] none by (simp add: same_reasons)
  moreover have "run session_hello ?w = Some (Inr True, ?w1)" using run_hello [of ?w] assms(1,2) by simp
  ultimately show ?thesis by (simp add: handle_client_def command_loop.simps)
qed

lemma wp_list_refused:
  assumes calm: "faults w = []" "TxErr \<notin> set (tx_plan w)" and msg: "0 \<notin> set (encode msg)" "length msg < 65000"
    and stream: "avail w = frame RTRV_T_ERROR (error_payload reason msg)"
  shows "wp do_list (\<lambda>r w'. r = Fail \<and> fs w' = fs w \<and> out w' = out w \<and> tx w' = tx w @ frame RTRV_T_LIST [] \<and>
    ServerError (encode msg) reason \<in> set (err w')) w"
    (is "wp _ ?Q w")
proof -
  let ?p = "error_payload reason msg"
  define len :: u64 where "len = word_of_nat (length ?p)"
  have len: "length ?p = unat len" "length ?p \<le> RTRV_PAYLOAD_CAP"
    using msg(2) by (simp_all add: len_def error_payload_def u64_nat RTRV_PAYLOAD_CAP_def del: of_nat_Suc)
  have report: "rtrv_report_error (Some ?p) len w' = (Ok (), w'\<lparr>err := err w' @ [ServerError (encode msg) reason]\<rparr>)" for w'
    by (rule report_refusal) (use msg len in simp_all)
  have full: "len \<noteq> 0" using len(1) by (auto simp: error_payload_def)
  have head: "avail w = frame_header RTRV_T_ERROR len @ ?p @ []" unfolding stream frame_def len_def by simp
  have cap: "unat len \<le> RTRV_PAYLOAD_CAP" using len by metis
  show ?thesis
    unfolding do_list_def exchange_andthen
  proof (rule wp_exchange_calm [OF calm head len(1) cap], goal_cases)
    case (1 w')
    then show ?case
      using full by (simp add: wp_andthen wp_run [OF report] wp_simps steady_def)
  qed
qed

text \<open>A run of the program whose command fails.\<close>

lemma main_refused:
  assumes argv: "argv \<noteq> []" "command_line argv = Some (host, port, c, n, m)"
    and peer: "getaddrinfo host port = Some as" "Accepts \<in> set as"
    and calm: "faults w = []" "TxErr \<notin> set (tx_plan w)"
    and stream: "avail w = frame RTRV_T_OK [] @ reply"
    and command: "\<And>w1. avail w1 = reply \<Longrightarrow> faults w1 = [] \<Longrightarrow> TxErr \<notin> set (tx_plan w1) \<Longrightarrow>
      fs w1 = fs w \<Longrightarrow> out w1 = out w \<Longrightarrow>
      wp (session_command c n m) (\<lambda>r w2. r = Fail \<and> fs w2 = fs w \<and> out w2 = out w \<and> tx w2 = tx w1 @ request \<and> d \<in> set (err w2)) w1"
  shows "\<exists>w'. retriever_main getaddrinfo argv w = (Ok EXIT_SERVER, w') \<and>
    tx w' = tx w @ frame RTRV_T_HELLO [] @ request \<and> d \<in> set (err w') \<and>
    fs w' = fs w \<and> out w' = out w \<and> allocs w' = allocs w \<and> open_files w' = open_files w"
proof -
  let ?Q = "\<lambda>r w'. r = Ok EXIT_SERVER \<and> tx w' = tx w @ frame RTRV_T_HELLO [] @ request \<and> d \<in> set (err w') \<and>
    fs w' = fs w \<and> out w' = out w \<and> allocs w' = allocs w \<and> open_files w' = open_files w"
  have "wp (retriever_main getaddrinfo argv) ?Q w"
  proof (rule wp_main_calm [where getaddrinfo = getaddrinfo, OF argv peer calm, where len = 0 and p = "[]" and
        rest = reply], goal_cases)
    case (4 w1)
    have "wp (session_command c n m) (\<lambda>r w2. (r = Fail \<and> fs w2 = fs w \<and> out w2 = out w \<and>
        tx w2 = tx w1 @ request \<and> d \<in> set (err w2)) \<and> allocs w2 = allocs w1 \<and> open_files w2 = open_files w1) w1"
      using command [OF 4(1-4,7)] wp_command_safe [of c n m w1] by (auto simp: wp_def)
    then show ?case
      by (rule wp_mono) (use 4 in \<open>auto simp: session_post_def\<close>)
  qed (use stream in \<open>simp_all add: frame_def\<close>)
  then show ?thesis by (auto simp: wp_def split: prod.splits)
qed

end
