(* ===== verification/Rtrv_Py_Program.thy ===== *)
theory Rtrv_Py_Program
  imports Rtrv_Py_Put Rtrv_System
begin

text \<open>
  The whole Python client: runs of its commands that nothing disturbs, and the conversation of the
  program with a session of the server.
\<close>

section \<open>Downloads\<close>

lemma get_meta_inject:
  "length d = 32 \<Longrightarrow> length d' = 32 \<Longrightarrow>
   get_meta t s d @ x = get_meta t' s' d' @ x' \<longleftrightarrow> t = t' \<and> s = s' \<and> d = d' \<and> x = x'"
  by (auto simp: get_meta_def u64_field.enc_append_inject)

lemma good_reply_unique:
  assumes "good_reply s ty len t st d rest" and "good_reply s ty' len' t' st' d' rest'"
  shows "t = t' \<and> st = st' \<and> d = d' \<and> rest = rest'"
  using assms get_meta_inject [of d d' t st rest t' st' rest'] by (auto simp: good_reply_def frame_header_inject)

lemma good_reply_OK:
  "length digest = 32 \<Longrightarrow> good_reply (frame_header RTRV_T_OK len @ get_meta t st digest @ rest) RTRV_T_OK len t st digest rest"
  by (simp add: good_reply_def PAYLOAD_CAPS_def same_wire [symmetric] T_OK_def T_ERROR_def)

text \<open>A download with a good reply and nothing in its way: the file, or all the bytes that came.\<close>

lemma wpy_do_get_calm:
  assumes calm: "faults w = []" "TxErr \<notin> set (tx_plan w)" and dest: "dest = name_or_base output name"
    and new: "node_at (fs w) dest = None" and x: "x = the_match (py_matches dirs (fs w) dest)"
    and ok: "receivable (fs w) dest digest x" "sendable (fst (snd (offer_for (fs w) x))) name"
    and reply: "avail w = frame_header RTRV_T_OK len @ get_meta total_size start digest @ rest" "length digest = 32"
    and k: "k = resolve (partial_path dest digest)" and base: "base = resume_base (fs w) k start"
    and n: "n = unat total_size - unat start"
    and good: "\<And>w'. n \<le> length rest \<Longrightarrow> sha256 (base @ take n rest) = digest \<Longrightarrow> avail w' = drop n rest \<Longrightarrow>
      tx w' = tx w @ py_get_frame (fs w) x name \<Longrightarrow> node_at (fs w') dest = Some (File (base @ take n rest)) \<Longrightarrow>
      fs w' = AList.update (resolve dest) (File (base @ take n rest)) (AList.delete k (py_cleared (fs w) start x)) \<Longrightarrow>
      open_files w' = open_files w \<Longrightarrow> faults w' = [] \<Longrightarrow> TxErr \<notin> set (tx_plan w') \<Longrightarrow> Q (Inr ()) w'"
    and short: "\<And>w'. length rest < n \<Longrightarrow> tx w' = tx w @ py_get_frame (fs w) x name \<Longrightarrow>
      fs w' = AList.update k (File (base @ rest)) (py_cleared (fs w) start x) \<Longrightarrow>
      open_files w' = open_files w \<Longrightarrow> faults w' = [] \<Longrightarrow> Q (Inl (Exit PY_EXIT_CONN)) w'"
    and mismatch: "\<And>s w'. n \<le> length rest \<Longrightarrow> sha256 (base @ take n rest) \<noteq> digest \<Longrightarrow>
      tx w' = tx w @ py_get_frame (fs w) x name \<Longrightarrow> files.same_except (py_keys dest digest x) (fs w) (fs w') \<Longrightarrow>
      open_files w' = open_files w \<Longrightarrow> faults w' = [] \<Longrightarrow> Q (Inl s) w'"
  shows "wpy (py_do_get dirs name output) Q w"
proof -
  have reply': "good_reply (avail w) RTRV_T_OK len total_size start digest rest"
    unfolding reply(1) by (rule good_reply_OK [OF reply(2)])
  show ?thesis
  proof (rule wpy_do_get [OF dest], goal_cases)
    case (1 w')
    then show ?case using new by blast
  next
    case (2 s w' y j)
    then have y: "y = x" "(\<exists>p. y = Some p \<and> node_at (fs w) p = None) \<or> \<not> sendable (fst (snd (offer_for (fs w) y))) name \<or>
        (\<nexists>ty len total_size start digest rest. good_reply (avail w) ty len total_size start digest rest)"
      using calm x by auto
    then have "\<exists>p. x = Some p \<and> node_at (fs w) p = None" using reply' ok(2) by blast
    then show ?case using ok(1) by (auto simp: receivable_def)
  next
    case (3 w1 y total_size' start' digest' ty len')
    have y: "y = x" "faults w1 = []" using 3 calm(1) x by auto
    have eq: "total_size' = total_size" "start' = start" "digest' = digest" "avail w1 = rest"
      using good_reply_unique [OF 3(2) reply'] by auto
    show ?case
      unfolding eq y(1)
    proof (rule wpy_receive [OF reply(2) n k refl refl], goal_cases)
      case (1 s w')
      have fails: "length rest < n \<and> s = Exit PY_EXIT_CONN \<and>
           fs w' = AList.update k (File (base @ rest)) (py_cleared (fs w) start x) \<or>
         n \<le> length rest \<and> sha256 (base @ take n rest) \<noteq> digest" "faults w' = []"
        using 1(5) y(2) ok(1) unfolding 3(3) eq(4) base [symmetric] by auto
      have "tx w' = tx w @ py_get_frame (fs w) x name" "open_files w' = open_files w"
        using 1(3,4) 3(4,5) y(1) by (simp_all add: offline_def)
      moreover have "files.same_except (py_keys dest digest x) (fs w) (fs w')" using 1(1) 3(3) by simp
      ultimately show ?case using fails by (elim disjE conjE) (auto intro: short mismatch)
    next
      case (2 w')
      note r = 2 [unfolded 3(3) eq(4) base [symmetric]]
      have "n \<le> length rest" using r(1) by simp
      moreover have "avail w' = drop n rest" using r(2) by (metis append_eq_conv_conj append_take_drop_id r(1))
      moreover have "sha256 (base @ take n rest) = digest" "node_at (fs w') dest = Some (File (base @ take n rest))"
        using r(3) by (simp_all add: published_def Let_def k [symmetric] base [symmetric])
      moreover have "tx w' = tx w @ py_get_frame (fs w) x name" "TxErr \<notin> set (tx_plan w')" "open_files w' = open_files w"
        using r(6,7) 3(4,5,6) y(1) calm(2) by (auto simp: offline_def)
      moreover have "faults w' = []" using r(8) y(2) by simp
      ultimately show ?case using r(5) by (intro good) auto
    qed
  qed
qed

text \<open>A destination that a download can start for, with nothing beside it that the search would find.\<close>

definition py_fresh :: "(filesys \<Rightarrow> string \<Rightarrow> string list) \<Rightarrow> filesys \<Rightarrow> string \<Rightarrow> bytes \<Rightarrow> bool" where
  "py_fresh dirs f dest digest \<longleftrightarrow> node_at f dest = None \<and> creatable f dest \<and>
     creatable f (partial_path dest digest) \<and> py_matches dirs f dest = []"

lemma py_fresh_offer:
  assumes "py_fresh dirs f dest digest"
  shows "the_match (py_matches dirs f dest) = None" "receivable f dest digest None"
    "offer_for f None = (None, 0, replicate 8 0)" "py_cleared f start None = f"
    "py_get_frame f None name = frame RTRV_T_GET (get_request 0 (replicate 8 0) name)"
  using assms by (simp_all add: py_fresh_def the_match_def receivable_def offer_for_def py_cleared_def py_get_frame_def TOKEN_SIZE_def)

lemma utf8_ascii: "list_all (\<lambda>ch. (of_char ch :: nat) < 128) s \<Longrightarrow> utf8 (encode s)"
proof (induction s)
  case (Cons c s)
  have "(of_char c :: byte) < 0x80"
    using Cons.prems unat_of_nat [where 'a = 8, of "of_char c"] by (simp add: word_less_nat_alt of_nat_of_char)
  then show ?case using Cons by simp
qed simp

lemma sendable_name: "check_filename name \<Longrightarrow> n < 2 ^ 64 \<Longrightarrow> sendable n name"
proof -
  assume name: "check_filename name" and n: "n < 2 ^ 64"
  have "list_all (\<lambda>ch. (of_char ch :: nat) < 128) name"
    using name by (auto simp: check_filename_def list_all_iff split: if_splits)
  then show ?thesis using check_filename_props(2) [OF name] n by (simp add: sendable_def utf8_ascii)
qed

lemma name_or_base_given [simp]: "s \<noteq> [] \<Longrightarrow> name_or_base (Some s) name = s"
  by (simp add: name_or_base_def)

lemma creatable_nonempty: "creatable f p \<Longrightarrow> p \<noteq> []"
  by (simp add: creatable_def)

lemma wpy_get_fresh:
  assumes calm: "faults w = []" "TxErr \<notin> set (tx_plan w)" and fresh: "py_fresh dirs (fs w) dest (sha256 c)"
    and name: "sendable 0 name" and size: "length c + 48 < 2 ^ 64"
    and stream: "avail w = get_answer c 0 (replicate 8 0) @ rest"
  shows "wpy (py_do_get dirs name (Some dest)) (\<lambda>r w'. r = Inr () \<and> avail w' = rest \<and> faults w' = [] \<and>
    TxErr \<notin> set (tx_plan w') \<and> tx w' = tx w @ frame RTRV_T_GET (get_request 0 (replicate 8 0) name) \<and>
    open_files w' = open_files w \<and> node_at (fs w') dest = Some (File c)) w"
proof -
  note f = fresh [unfolded py_fresh_def] and offer = py_fresh_offer [OF fresh]
  have dest: "dest = name_or_base (Some dest) name" using f creatable_nonempty [of "fs w" dest] by simp
  show ?thesis
    by (rule wpy_do_get_calm [OF calm dest _ offer(1) [symmetric], where total_size = "word_of_nat (length c)" and start = 0 and
          digest = "sha256 c" and rest = "c @ rest" and len = "word_of_nat (48 + length c)" and n = "length c" and base = "[]"])
      (use f offer name size stream get_answer_eq [of 0 "replicate 8 0" c] in
        \<open>simp_all add: resume_base_def u64_nat\<close>)
qed

text \<open>
  A download that is cut off keeps every byte that came, in the place where the C client looks.
\<close>

lemma py_get_interrupted:
  assumes calm: "faults w = []" "TxErr \<notin> set (tx_plan w)" and fresh: "py_fresh dirs (fs w) dest digest"
    and name: "sendable 0 name" and digest: "length digest = 32"
    and reply: "avail w = frame_header RTRV_T_OK len @ get_meta total_size 0 digest @ body"
    and short: "length body < unat total_size"
  shows "\<exists>w'. py_do_get dirs name (Some dest) w = (Inl (Exit PY_EXIT_CONN), w') \<and>
    fs w' = AList.update (resolve (partial_path dest digest)) (File body) (fs w) \<and>
    faults w' = [] \<and> open_files w' = open_files w"
proof -
  note f = fresh [unfolded py_fresh_def] and offer = py_fresh_offer [OF fresh]
  have dest: "dest = name_or_base (Some dest) name" using f creatable_nonempty [of "fs w" dest] by simp
  have "wpy (py_do_get dirs name (Some dest)) (\<lambda>r w'. r = Inl (Exit PY_EXIT_CONN) \<and>
    fs w' = AList.update (resolve (partial_path dest digest)) (File body) (fs w) \<and>
    faults w' = [] \<and> open_files w' = open_files w) w"
    by (rule wpy_do_get_calm [OF calm dest _ offer(1) [symmetric], where total_size = total_size and start = 0 and
          digest = digest and rest = body and len = len and n = "unat total_size" and base = "[]"])
      (use f offer name digest reply short in \<open>simp_all add: resume_base_def\<close>)
  then show ?thesis by (auto simp: wpy_def split: prod.splits)
qed

text \<open>
  A download that finds the first \<open>m\<close> bytes of the file, whichever client left them, asks for the rest
  and publishes the file.
\<close>

lemma wpy_get_resumed:
  assumes calm: "faults w = []" "TxErr \<notin> set (tx_plan w)" and fresh: "py_fresh dirs f dest (sha256 c)"
    and plain: "\<not> has_magic (fst (os_path_split dest))"
    and held: "fs w = AList.update (resolve (partial_path dest (sha256 c))) (File (take m c)) f"
    and name: "sendable m name" and size: "length c < 2 ^ 64" and m: "m \<le> length c"
    and reply: "avail w = frame_header RTRV_T_OK len @
      get_meta (word_of_nat (length c)) (word_of_nat m) (sha256 c) @ drop m c @ rest"
  shows "wpy (py_do_get dirs name (Some dest)) (\<lambda>r w'. r = Inr () \<and> avail w' = rest \<and>
    tx w' = tx w @ frame RTRV_T_GET (get_request (word_of_nat m) (take 8 (sha256 c)) name) \<and>
    node_at (fs w') dest = Some (File c) \<and> map_of (fs w') (resolve (partial_path dest (sha256 c))) = None) w"
proof -
  let ?k = "resolve (partial_path dest (sha256 c))" and ?p = "partial_name dest (sha256 c)" and ?m = "word_of_nat m :: u64"
  note f = fresh [unfolded py_fresh_def] and keys = partial_path_keys [of dest "sha256 c"]
  have dest: "dest = name_or_base (Some dest) name" using f creatable_nonempty [of f dest] by simp
  have new: "node_at (fs w) dest = None"
    using f node_at_cong [of "fs w" dest f] keys(1) by (simp add: held update_conv')
  have cr: "creatable (fs w) dest" "creatable (fs w) (partial_path dest (sha256 c))"
    using f keys(2,3) by (simp_all add: held creatable_update)
  have node: "node_at (fs w) ?p = Some (File (take m c))"
    unfolding partial_same_node by (rule node_at_creatable [OF cr(2)]) (simp add: held update_conv')
  have found: "Some ?p = the_match (py_matches dirs (fs w) dest)"
    using py_matches_new [OF _ plain creatable_partial_dir, of dirs f "sha256 c" "sha256 c" "take m c"] f
    by (simp add: held the_match_def)
  have offer: "offer_for (fs w) (Some ?p) = (Some ?p, m, take 8 (sha256 c))"
    using node m by (simp add: offer_for_def st_size_def partial_token_name)
  have ok: "receivable (fs w) dest (sha256 c) (Some ?p)"
    using cr node keys by (simp add: receivable_def resolve_partial_name parent_def partial_path_plain)
  have um: "unat ?m = m" "unat (word_of_nat (length c) :: u64) = length c" using size m by (simp_all add: u64_nat)
  have base: "resume_base (fs w) ?k ?m = take m c"
    using um(1) by (cases "m = 0") (auto simp: resume_base_def held word_less_nat_alt)
  show ?thesis
    by (rule wpy_do_get_calm [OF calm dest new found ok _ reply length_sha256 refl base [symmetric] refl])
      (use um m offer name keys in \<open>auto simp: py_get_frame_def update_conv' delete_conv'\<close>)
qed

section \<open>Uploads and listings\<close>

lemma OK_within: "length p \<le> 65536 \<Longrightarrow> frame_within RTRV_T_OK p" "RTRV_T_OK \<noteq> T_ERROR"
  by (simp_all add: frame_within_def PAYLOAD_CAPS_def same_wire [symmetric] T_OK_def T_ERROR_def T_HELLO_def T_QUIT_def
      T_LIST_def T_GET_def T_PUT_def)

lemma wpy_put_known:
  assumes calm: "faults w = []" "TxErr \<notin> set (tx_plan w)" and stored: "node_at (fs w) path = Some (File c)"
    and size: "length c \<le> MAX_FILE_SIZE" and name: "check_filename name" and m: "m \<le> length c"
    and stream: "avail w = frame RTRV_T_OK (be_bytes 8 (word_of_nat m :: u64)) @ frame RTRV_T_OK [] @ rest"
  shows "wpy (py_do_put path (Some name)) (\<lambda>r w'. r = Inr () \<and> avail w' = rest \<and> faults w' = [] \<and>
    TxErr \<notin> set (tx_plan w') \<and> tx w' = tx w @ frame RTRV_T_PUT (put_request (word_of_nat (length c)) (sha256 c) name) @ drop m c \<and>
    open_files w' = open_files w \<and> fs w' = fs w) w"
proof -
  have small: "length c < 2 ^ 63" using size by (simp add: MAX_FILE_SIZE_def)
  have remote: "name = name_or_base (Some name) path" using name by (cases "name = []") (simp_all add: check_filename_def)
  have within: "frame_within RTRV_T_OK (be_bytes 8 (word_of_nat m :: u64))" "frame_within RTRV_T_OK []" "RTRV_T_OK \<noteq> T_ERROR"
    by (simp_all add: OK_within)
  have off: "from_bytes (take 8 (be_bytes 8 (word_of_nat m :: u64))) = m" using m small by (simp add: u64_nat)
  have replies: "put_replies (avail w) m rest"
    unfolding put_replies_def stream using within off m small
    by (intro conjI exI [of _ RTRV_T_OK] exI [of _ "be_bytes 8 (word_of_nat m :: u64)"] exI [of _ "[]"]) simp_all
  have unique: "o' = m \<and> r' = rest" if "put_replies (avail w) o' r'" for o' r'
  proof -
    from that obtain t1 p1 t2 p2 where w: "frame_within t1 p1" "frame_within t2 p2" "o' = from_bytes (take 8 p1)"
        "avail w = frame t1 p1 @ frame t2 p2 @ r'"
      unfolding put_replies_def by blast
    then have "p1 = be_bytes 8 (word_of_nat m :: u64)" "frame t2 p2 @ r' = frame RTRV_T_OK [] @ rest"
      using frame_unique [OF _ w(1) within(1)] stream by metis+
    then show ?thesis using frame_unique [OF _ w(2) within(2)] w(3) off by metis
  qed
  have send: "sendable (length c) name" using sendable_name [OF name] small by simp
  show ?thesis
  proof (rule wpy_do_put [OF remote], goal_cases)
    case (1 w' c' off)
    then show ?case using unique [OF 1(2)] stored calm by (auto simp: put_frame_def)
  next
    case (2 s w' c' off k)
    then show ?case using stored send replies calm by blast
  qed
qed

lemma char_byte: "char_of (unat (of_char c :: byte)) = c"
proof -
  have "unat (of_char c :: byte) = of_char c mod 256"
    using unat_of_nat [where 'a = 8, of "of_char c"] by (simp add: of_nat_of_char)
  then show ?thesis by simp
qed

lemma net_decode_names:
  "\<forall>n \<in> set ns. utf8 n \<Longrightarrow>
   net (decode_names ns) = py_return (map (map (\<lambda>b. char_of (unat b))) (filter (\<lambda>n. n \<noteq> []) ns))"
  by (induction ns) (simp_all add: decode_utf8_def net_bind)

lemma wpy_print_names [wpy_simps]:
  "wpy (print_names ns) Q w = Q (Inr ()) (w\<lparr>out := out w @ map (\<lambda>n. Listed (encode n)) ns\<rparr>)"
  by (induction ns arbitrary: w) (simp_all add: wpy_simps)

lemma wpy_list_known:
  assumes calm: "faults w = []" "TxErr \<notin> set (tx_plan w)"
    and names: "\<forall>n \<in> set names. n \<noteq> [] \<and> 0 \<notin> set (encode n) \<and> utf8 (encode n)"
      "length (join_zero (map encode names)) \<le> 65536"
    and stream: "avail w = frame RTRV_T_OK (join_zero (map encode names)) @ rest"
  shows "wpy py_do_list (\<lambda>r w'. r = Inr () \<and> avail w' = rest \<and> faults w' = [] \<and> TxErr \<notin> set (tx_plan w') \<and>
    tx w' = tx w @ frame RTRV_T_LIST [] \<and> fs w' = fs w \<and> open_files w' = open_files w \<and>
    out w' = out w @ map (\<lambda>n. Listed (encode n)) (sort names)) w"
proof -
  let ?payload = "join_zero (map encode names)"
  have within: "frame_within RTRV_T_OK ?payload" "RTRV_T_OK \<noteq> T_ERROR"
    using names(2) by (simp_all add: OK_within)
  have parts: "filter (\<lambda>n. n \<noteq> []) (split_zero ?payload) = map encode names"
    using listing_join [of "map encode names"] names(1) by (auto simp: listing_def)
  have "\<forall>n \<in> set (split_zero ?payload). n = [] \<or> n \<in> set (map encode names)"
    using arg_cong [OF parts, of set] by auto
  then have "\<forall>n \<in> set (split_zero ?payload). utf8 n" using names(1) by auto
  then have decoded: "net (decode_names (split_zero ?payload)) = py_return names"
    by (simp add: net_decode_names parts char_byte comp_def)
  have small: "length ([] :: bytes) < 2 ^ 64" by simp
  show ?thesis
    unfolding py_do_list_def wpy_bind [of "net (write_frame T_LIST [])"]
  proof (rule wpy_write_frame [OF small], goal_cases)
    case (1 q)
    show ?case
      unfolding sum.case wpy_bind [of "net read_frame"]
    proof (rule wpy_read_frame, goal_cases)
      case (1 ty payload r)
      have eq: "frame ty payload @ rx_bytes r = frame RTRV_T_OK ?payload @ rest" using 1(1) stream by simp
      have "ty = RTRV_T_OK" "payload = ?payload" "rx_bytes r = rest" using frame_unique [OF eq 1(2) within(1)] by auto
      then show ?case using within(2) calm \<open>set q \<subseteq> set (tx_plan w)\<close>
        by (auto simp: wpy_simps decoded same_wire)
    next
      case (2 e r g)
      have "avail (w\<lparr>tx := tx w @ frame T_LIST [], tx_plan := q\<rparr>) = frame RTRV_T_OK ?payload @ rest" using stream by simp
      then show ?case using 2(1) within(1) by blast
    qed
  qed (use calm in blast)
qed

section \<open>The conversation\<close>

lemma py_command_runs [simp]:
  "py_command_run dirs PyList = py_do_list" "py_command_run dirs (PyGet n d) = py_do_get dirs n d"
  "py_command_run dirs (PyPut p d) = py_do_put p d"
  by (simp_all add: py_command_run_def)

text \<open>A frame sent and an OK frame read.\<close>

lemma wpy_exchange:
  assumes calm: "faults w = []" "TxErr \<notin> set (tx_plan w)" and stream: "avail w = frame RTRV_T_OK [] @ rest"
    and next_step: "\<And>q r. set q \<subseteq> set (tx_plan w) \<Longrightarrow> rx_bytes r = rest \<Longrightarrow>
      wpy (f (RTRV_T_OK, [])) Q (w\<lparr>tx := tx w @ frame ty [], tx_plan := q, rx := r\<rparr>)"
  shows "wpy (py_bind (net (write_frame ty [])) (\<lambda>_. py_bind (net read_frame) f)) Q w"
  unfolding wpy_bind [of "net (write_frame ty [])"]
proof (rule wpy_write_frame, goal_cases)
  case (2 q)
  have within: "frame_within RTRV_T_OK []" by (simp add: OK_within)
  show ?case
    unfolding sum.case wpy_bind
  proof (rule wpy_read_frame, goal_cases)
    case (1 ty' payload r)
    have eq: "frame ty' payload @ rx_bytes r = frame RTRV_T_OK [] @ rest" using 1(1) stream by simp
    then show ?case using frame_unique [OF eq 1(2) within] next_step [of q r] 2 by simp
  next
    case (2 e r g)
    have "avail (w\<lparr>tx := tx w @ frame ty [], tx_plan := q\<rparr>) = frame RTRV_T_OK [] @ rest" using stream by simp
    then show ?case using 2(1) within by blast
  qed
qed (use calm in \<open>simp_all\<close>)

lemma wpy_sock_close:
  "open_files w = Suc n \<Longrightarrow> wpy (py_try (lib sock_close) (\<lambda>_. py_return ())) Q w = Q (Inr ()) (w\<lparr>open_files := n\<rparr>)"
  by (simp add: wpy_simps wp_sock_close)

text \<open>The handshake, and the session behind it.\<close>

lemma wpy_report: "e \<noteq> OtherErr \<Longrightarrow> (\<And>d. Q (Inl (Exit PY_EXIT_CONN)) (w\<lparr>err := err w @ [d]\<rparr>)) \<Longrightarrow> wpy (py_report e) Q w"
  by (cases e) (simp_all add: py_report_def wpy_simps)

lemma wpy_main_hello:
  assumes port: "1024 \<le> port" "port \<le> 65535" and calm: "faults w = []" "TxErr \<notin> set (tx_plan w)"
    and stream: "avail w = frame RTRV_T_OK [] @ rest"
    and session: "\<And>w1. avail w1 = rest \<Longrightarrow> faults w1 = [] \<Longrightarrow> TxErr \<notin> set (tx_plan w1) \<Longrightarrow> fs w1 = fs w \<Longrightarrow>
      out w1 = out w \<Longrightarrow> open_files w1 = Suc (open_files w) \<Longrightarrow> tx w1 = tx w @ frame RTRV_T_HELLO [] \<Longrightarrow>
      wpy (py_session dirs cmd) Q w1"
  shows "wpy (py_main dirs True host port cmd) Q w"
proof -
  let ?w = "w\<lparr>open_files := Suc (open_files w)\<rparr>"
  have main: "wpy (py_main dirs True host port cmd) Q w =
      wpy (py_bind (net (write_frame T_HELLO [])) (\<lambda>_. py_bind (net read_frame) (\<lambda>(frame_type, payload).
        py_bind (if frame_type = T_ERROR then py_bind (net (unpack_error payload)) (\<lambda>(reason, message).
             fail PY_EXIT_SERVER (RefusedConnection message)) else py_return ()) (\<lambda>_. py_session dirs cmd)))) Q ?w"
    using port by (simp add: py_main_def py_connect_def py_bind_assoc case_prod_unfold wpy_bind [of "lib sock_open"] wpy_lib
        wp_def sock_open_def)
  show ?thesis
    unfolding main
  proof (rule wpy_exchange [where rest = rest], goal_cases)
    case (4 q r)
    then have "wpy (py_session dirs cmd) Q (?w\<lparr>tx := tx w @ frame RTRV_T_HELLO [], tx_plan := q, rx := r\<rparr>)"
      by (intro session) (use calm in auto)
    then show ?case by (simp add: OK_within same_wire(6))
  qed (use calm stream in simp_all)
qed

text \<open>A command that succeeds, and then a goodbye that is answered, or one that finds the connection ended.\<close>

lemma wpy_session_command:
  assumes "wpy (py_command_run dirs cmd) (\<lambda>r w2. r = Inr () \<and> P w2 \<and> open_files w2 = Suc n) w"
    and "\<And>w2. P w2 \<Longrightarrow> open_files w2 = Suc n \<Longrightarrow>
      wpy (py_try py_goodbye py_report) (\<lambda>r w3. open_files w3 = Suc n \<and> Q r (w3\<lparr>open_files := n\<rparr>)) w2"
  shows "wpy (py_session dirs cmd) Q w"
  unfolding py_session_def wpy_finally wpy_try [of "py_bind (py_command_run dirs cmd) _"] wpy_bind [of "py_command_run dirs cmd"]
proof (rule wpy_mono [OF assms(1)], elim conjE, goal_cases)
  case (1 r w2)
  show ?case
    unfolding 1(1) sum.case
    by (rule wpy_mono [OF assms(2) [OF 1(2,3), unfolded wpy_try [of py_goodbye]]]) (auto simp: wpy_sock_close split: sum.splits stop.splits elim!: wpy_mono)
qed

lemma py_main_conversation:
  assumes port: "1024 \<le> port" "port \<le> 65535" and calm: "faults w = []" "TxErr \<notin> set (tx_plan w)"
    and stream: "avail w = frame RTRV_T_OK [] @ reply @ frame RTRV_T_OK []"
    and command: "\<And>w1. avail w1 = reply @ frame RTRV_T_OK [] \<Longrightarrow> faults w1 = [] \<Longrightarrow> TxErr \<notin> set (tx_plan w1) \<Longrightarrow>
      fs w1 = fs w \<Longrightarrow> out w1 = out w \<Longrightarrow>
      wpy (py_command_run dirs cmd) (\<lambda>r w2. r = Inr () \<and> avail w2 = frame RTRV_T_OK [] \<and> faults w2 = [] \<and>
        TxErr \<notin> set (tx_plan w2) \<and> tx w2 = tx w1 @ request \<and> open_files w2 = open_files w1 \<and> R (fs w2) (out w2)) w1"
  shows "\<exists>w'. py_main dirs True host port cmd w = (Inr (), w') \<and>
    tx w' = tx w @ frame RTRV_T_HELLO [] @ request @ frame RTRV_T_QUIT [] \<and> R (fs w') (out w') \<and>
    open_files w' = open_files w"
proof -
  let ?Q = "\<lambda>r w'. r = Inr () \<and> tx w' = tx w @ frame RTRV_T_HELLO [] @ request @ frame RTRV_T_QUIT [] \<and>
    R (fs w') (out w') \<and> open_files w' = open_files w"
  let ?P = "\<lambda>w2. avail w2 = frame RTRV_T_OK [] \<and> faults w2 = [] \<and> TxErr \<notin> set (tx_plan w2) \<and>
    tx w2 = tx w @ frame RTRV_T_HELLO [] @ request \<and> R (fs w2) (out w2)"
  have "wpy (py_main dirs True host port cmd) ?Q w"
  proof (rule wpy_main_hello [OF port calm stream], rule wpy_session_command [where P = ?P])
    fix w1
    assume w1: "avail w1 = reply @ frame RTRV_T_OK []" "faults w1 = []" "TxErr \<notin> set (tx_plan w1)" "fs w1 = fs w"
      "out w1 = out w" "open_files w1 = Suc (open_files w)" "tx w1 = tx w @ frame RTRV_T_HELLO []"
    show "wpy (py_command_run dirs cmd) (\<lambda>r w2. r = Inr () \<and> ?P w2 \<and> open_files w2 = Suc (open_files w)) w1"
      by (rule wpy_mono [OF command [OF w1(1-5)]]) (use w1 in simp)
  next
    fix w2
    assume w2: "?P w2" "open_files w2 = Suc (open_files w)"
    show "wpy (py_try py_goodbye py_report) (\<lambda>r w3. open_files w3 = Suc (open_files w) \<and> ?Q r (w3\<lparr>open_files := open_files w\<rparr>)) w2"
      unfolding wpy_try py_goodbye_def
      by (rule wpy_exchange [where rest = "[]"]) (use w2 in \<open>simp_all add: wpy_simps same_wire\<close>)
  qed
  then show ?thesis by (auto simp: wpy_def split: prod.splits)
qed

text \<open>The same conversation when the server is gone before it answers the goodbye.\<close>

lemma py_main_unanswered:
  assumes port: "1024 \<le> port" "port \<le> 65535" and calm: "faults w = []" "TxErr \<notin> set (tx_plan w)"
    and stream: "avail w = frame RTRV_T_OK [] @ reply"
    and command: "\<And>w1. avail w1 = reply \<Longrightarrow> faults w1 = [] \<Longrightarrow> TxErr \<notin> set (tx_plan w1) \<Longrightarrow>
      fs w1 = fs w \<Longrightarrow> out w1 = out w \<Longrightarrow>
      wpy (py_command_run dirs cmd) (\<lambda>r w2. r = Inr () \<and> avail w2 = [] \<and> TxErr \<notin> set (tx_plan w2) \<and>
        faults w2 = [] \<and> open_files w2 = open_files w1 \<and> R (fs w2)) w1"
  shows "\<exists>w'. py_main dirs True host port cmd w = (Inl (Exit PY_EXIT_CONN), w') \<and> R (fs w') \<and>
    open_files w' = open_files w"
proof -
  let ?Q = "\<lambda>r w'. r = Inl (Exit PY_EXIT_CONN) \<and> R (fs w') \<and> open_files w' = open_files w"
  let ?P = "\<lambda>w2. avail w2 = [] \<and> TxErr \<notin> set (tx_plan w2) \<and> faults w2 = [] \<and> R (fs w2)"
  have "wpy (py_main dirs True host port cmd) ?Q w"
  proof (rule wpy_main_hello [OF port calm stream], rule wpy_session_command [where P = ?P])
    fix w1
    assume w1: "avail w1 = reply" "faults w1 = []" "TxErr \<notin> set (tx_plan w1)" "fs w1 = fs w"
      "out w1 = out w" "open_files w1 = Suc (open_files w)" "tx w1 = tx w @ frame RTRV_T_HELLO []"
    show "wpy (py_command_run dirs cmd) (\<lambda>r w2. r = Inr () \<and> ?P w2 \<and> open_files w2 = Suc (open_files w)) w1"
      by (rule wpy_mono [OF command [OF w1(1-5)]]) (use w1 in simp)
  next
    fix w2
    assume w2: "?P w2" "open_files w2 = Suc (open_files w)"
    show "wpy (py_try py_goodbye py_report) (\<lambda>r w3. open_files w3 = Suc (open_files w) \<and> ?Q r (w3\<lparr>open_files := open_files w\<rparr>)) w2"
      unfolding wpy_try py_goodbye_def wpy_bind [of "net (write_frame T_QUIT [])"]
    proof (rule wpy_write_frame, goal_cases)
      case (2 q)
      show ?case
        unfolding sum.case wpy_bind
      proof (rule wpy_read_frame, goal_cases)
        case (1 ty payload r)
        then show ?case using w2 by (simp add: frame_def frame_header_def)
      next
        case (2 e r g)
        then show ?case using w2 by (simp add: wpy_report)
      qed
    qed (use w2 in simp_all)
  qed
  then show ?thesis by (auto simp: wpy_def split: prod.splits)
qed

end
