(* ===== verification/Rtrv_Handover.thy ===== *)
theory Rtrv_Handover
  imports Rtrv_Py_Program
begin

text \<open>
  The two clients leave their partials for each other. The locale \<open>downloader\<close> is what a download
  promises about interruption and resumption; both clients keep it, and the locale \<open>handover\<close> derives
  once that a download which one of them began is completed by the other against the server.
\<close>

section \<open>The contract\<close>

text \<open>
  \<open>ready\<close> says for which destinations a download can start, and \<open>keeps\<close> how many of the bytes that arrived
  are left in the partial when the connection ends.
\<close>

locale downloader =
  fixes get :: "string \<Rightarrow> string \<Rightarrow> world \<Rightarrow> bool \<times> world"
    and ready :: "filesys \<Rightarrow> string \<Rightarrow> bytes \<Rightarrow> bool"
    and keeps :: "nat \<Rightarrow> nat"
  assumes keeps_le: "keeps n \<le> n"
    and interrupted: "faults w = [] \<Longrightarrow> TxErr \<notin> set (tx_plan w) \<Longrightarrow> ready (fs w) dest (sha256 c) \<Longrightarrow> check_filename name \<Longrightarrow>
      length c < 2 ^ 64 \<Longrightarrow> n < length c \<Longrightarrow>
      avail w = frame_header RTRV_T_OK len @ get_meta (word_of_nat (length c)) 0 (sha256 c) @ take n c \<Longrightarrow>
      \<exists>w'. get name dest w = (False, w') \<and> faults w' = [] \<and>
        fs w' = AList.update (resolve (partial_path dest (sha256 c))) (File (take (keeps n) c)) (fs w)"
    and resumed: "faults w = [] \<Longrightarrow> TxErr \<notin> set (tx_plan w) \<Longrightarrow> ready f dest (sha256 c) \<Longrightarrow> check_filename name \<Longrightarrow>
      length c < 2 ^ 64 \<Longrightarrow> m \<le> length c \<Longrightarrow>
      fs w = AList.update (resolve (partial_path dest (sha256 c))) (File (take m c)) f \<Longrightarrow>
      avail w = frame_header RTRV_T_OK len @ get_meta (word_of_nat (length c)) (word_of_nat m) (sha256 c) @ drop m c \<Longrightarrow>
      \<exists>w'. get name dest w = (True, w') \<and>
        tx w' = tx w @ frame RTRV_T_GET (get_request (word_of_nat m) (take 8 (sha256 c)) name) \<and>
        node_at (fs w') dest = Some (File c)"

text \<open>One client begins and another one, or the same, goes on.\<close>

locale handover = first: downloader get1 ready1 keeps1 + second: downloader get2 ready2 keeps2
  for get1 ready1 keeps1 get2 ready2 keeps2
begin

lemma completes:
  assumes calm: "faults w = []" "TxErr \<notin> set (tx_plan w)" "TxErr \<notin> set plan"
    and ready: "ready1 (fs w) dest (sha256 c)" "ready2 (fs w) dest (sha256 c)"
    and served: "check_filename name" "file_of S name = Some c" "length c + 48 < 2 ^ 64"
    and cut: "n < length c" "m = keeps1 n"
    and first: "avail w = take (62 + n) (get_answer c 0 (replicate 8 0))"
    and wire: "[] \<notin> set ib" "concat ib = frame RTRV_T_GET (get_request (word_of_nat m) (take 8 (sha256 c)) name)"
  shows "\<exists>reply w1. run session_turn \<lparr>inbox = ib, sent = [], disk = S\<rparr> =
      Some (Inr True, \<lparr>inbox = [], sent = reply, disk = S\<rparr>) \<and> length reply = 62 + (length c - m) \<and>
    get1 name dest w = (False, w1) \<and>
    (rx_bytes r = reply \<longrightarrow> (\<exists>w2. get2 name dest (w1\<lparr>rx := r, tx_plan := plan\<rparr>) = (True, w2) \<and>
       tx w2 = tx w1 @ concat ib \<and> node_at (fs w2) dest = Some (File c)))"
proof -
  let ?reply = "get_answer c m (take 8 (sha256 c))"
  have le: "m \<le> length c" "length c < 2 ^ 64" using cut first.keeps_le [of n] served(3) by simp_all
  have eq: "?reply = frame_header RTRV_T_OK (word_of_nat (48 + (length c - m))) @
      get_meta (word_of_nat (length c)) (word_of_nat m) (sha256 c) @ drop m c"
    using le by (intro get_answer_eq) simp_all
  have start: "avail w = frame_header RTRV_T_OK (word_of_nat (48 + length c)) @
      get_meta (word_of_nat (length c)) 0 (sha256 c) @ take n c"
    using first get_answer_eq [of 0 "replicate 8 0" c] by simp
  obtain w1 where w1: "get1 name dest w = (False, w1)" "faults w1 = []"
      "fs w1 = AList.update (resolve (partial_path dest (sha256 c))) (File (take m c)) (fs w)"
    using first.interrupted [OF calm(1,2) ready(1) served(1) le(2) cut(1) start] cut(2) by blast
  have "run session_turn \<lparr>inbox = ib, sent = [], disk = S\<rparr> = Some (Inr True, \<lparr>inbox = [], sent = ?reply, disk = S\<rparr>)"
    using server_answers_get [OF served, of "take 8 (sha256 c)" "word_of_nat m" ib] wire le by (simp add: u64_nat)
  moreover have "length ?reply = 62 + (length c - m)" using le by (simp add: eq)
  moreover have "\<exists>w2. get2 name dest (w1\<lparr>rx := r, tx_plan := plan\<rparr>) = (True, w2) \<and>
      tx w2 = tx w1 @ concat ib \<and> node_at (fs w2) dest = Some (File c)" if "rx_bytes r = ?reply"
    using second.resumed [OF _ _ ready(2) served(1) le(2,1), of "w1\<lparr>rx := r, tx_plan := plan\<rparr>"] w1 calm(3) that wire(2)
    by (auto simp: eq)
  ultimately show ?thesis using w1(1) by blast
qed

end

section \<open>The two clients\<close>

definition c_get :: "string \<Rightarrow> string \<Rightarrow> world \<Rightarrow> bool \<times> world" where
  "c_get name dest w = (case rtrv_do_get name dest w of (r, w') \<Rightarrow> (r = Ok (), w'))"

definition py_get :: "(filesys \<Rightarrow> string \<Rightarrow> string list) \<Rightarrow> string \<Rightarrow> string \<Rightarrow> world \<Rightarrow> bool \<times> world" where
  "py_get dirs name dest w = (case py_do_get dirs name (Some dest) w of (r, w') \<Rightarrow> (r = Inr (), w'))"

definition py_ready :: "(filesys \<Rightarrow> string \<Rightarrow> string list) \<Rightarrow> filesys \<Rightarrow> string \<Rightarrow> bytes \<Rightarrow> bool" where
  "py_ready dirs f dest digest \<longleftrightarrow> py_fresh dirs f dest digest \<and> \<not> has_magic (fst (os_path_split dest))"

lemma c_get_iff:
  "c_get name dest w = (True, w') \<longleftrightarrow> rtrv_do_get name dest w = (Ok (), w')"
  "c_get name dest w = (False, w') \<longleftrightarrow> rtrv_do_get name dest w = (Fail, w')"
proof -
  have "fst (rtrv_do_get name dest w) \<noteq> Undef" using wp_get_safe [of name dest w] by (auto simp: wp_def)
  then show "c_get name dest w = (True, w') \<longleftrightarrow> rtrv_do_get name dest w = (Ok (), w')"
    "c_get name dest w = (False, w') \<longleftrightarrow> rtrv_do_get name dest w = (Fail, w')"
    by (auto simp: c_get_def split: prod.split) (metis outcome.exhaust old.unit.exhaust)
qed

lemma py_get_iff:
  "py_get dirs name dest w = (True, w') \<longleftrightarrow> py_do_get dirs name (Some dest) w = (Inr (), w')"
  "py_get dirs name dest w = (False, w') \<longleftrightarrow> (\<exists>s. py_do_get dirs name (Some dest) w = (Inl s, w'))"
  by (auto simp: py_get_def split: prod.split sum.split)
    (metis obj_sumE old.unit.exhaust)

text \<open>The C client keeps whole pieces of 64 KiB, the Python client every byte.\<close>

interpretation c_client: downloader c_get fresh_dest "\<lambda>n. 65536 * (n div 65536)"
proof (unfold_locales, goal_cases)
  case (2 w dest c name n len)
  have "length (take n c) < unat (word_of_nat (length c) :: u64)" using 2(5,6) by (simp add: u64_nat)
  from fresh_get_interrupted [OF 2(1-3) check_filename_props(2) [OF 2(4)] length_sha256 2(7) this]
  show ?case using 2(6) by (auto simp: c_get_def whole_chunks_take)
next
  case (3 w f dest c name m len)
  then show ?case
    using resumed_get_completes [OF 3(1-3,7) check_filename_props(2) [OF 3(4)] 3(5,6), of len "[]"]
    by (auto simp: c_get_def)
qed simp

interpretation py_client: downloader "py_get dirs" "py_ready dirs" "\<lambda>n. n" for dirs
proof (unfold_locales, goal_cases)
  case (2 w dest c name n len)
  have "length (take n c) < unat (word_of_nat (length c) :: u64)" using 2(5,6) by (simp add: u64_nat)
  then show ?case
    using py_get_interrupted [OF 2(1,2) _ sendable_name [OF 2(4)] length_sha256 2(7), of dirs dest] 2(3)
    by (auto simp: py_get_def py_ready_def)
next
  case (3 w f dest c name m len)
  have "m < 2 ^ 64" using 3(5,6) by simp
  then show ?case
    using wpy_get_resumed [OF 3(1,2) _ _ 3(7) sendable_name [OF 3(4)] 3(5,6), of dirs len "[]"] 3(3,8)
    by (auto simp: py_get_def py_ready_def wpy_def split: prod.splits)
qed simp

interpretation same_client: handover c_get fresh_dest "\<lambda>n. 65536 * (n div 65536)" c_get fresh_dest "\<lambda>n. 65536 * (n div 65536)"
  by unfold_locales

interpretation c_then_py: handover c_get fresh_dest "\<lambda>n. 65536 * (n div 65536)" "py_get dirs" "py_ready dirs" "\<lambda>n. n" for dirs
  by unfold_locales

interpretation py_then_c: handover "py_get dirs" "py_ready dirs" "\<lambda>n. n" c_get fresh_dest "\<lambda>n. 65536 * (n div 65536)" for dirs
  by unfold_locales

interpretation py_then_py: handover "py_get dirs" "py_ready dirs" "\<lambda>n. n" "py_get dirs" "py_ready dirs" "\<lambda>n. n" for dirs
  by unfold_locales

end
