(* ===== verification/Rtrv_Start.thy ===== *)
theory Rtrv_Start
  imports Rtrv_Concurrent
begin

text \<open>
  How the server starts (\<open>src/retriever/server.py\<close>): the command line, the listening socket, and the
  sweep of abandoned partials before the first connection is accepted.
\<close>

section \<open>The command line\<close>

text \<open>
  \<open>int(s)\<close> for an ASCII text: white space around the number, a sign, decimal digits with single
  underscores between them. \<open>None\<close> is a \<open>ValueError\<close>.
\<close>

definition py_space :: "char \<Rightarrow> bool" where
  "py_space c \<longleftrightarrow> (of_char c :: nat) \<in> {9, 10, 11, 12, 13, 28, 29, 30, 31, 32}"

definition py_strip :: "string \<Rightarrow> string" where
  "py_strip s = rev (dropWhile py_space (rev (dropWhile py_space s)))"

definition digit_value :: "char \<Rightarrow> nat option" where
  "digit_value c = (let n = (of_char c :: nat) in if 48 \<le> n \<and> n \<le> 57 then Some (n - 48) else None)"

text \<open>\<open>after\<close> says that the character before was a digit.\<close>

fun py_digits :: "bool \<Rightarrow> nat \<Rightarrow> string \<Rightarrow> nat option" where
  "py_digits after v [] = (if after then Some v else None)"
| "py_digits after v (c # s) =
     (case digit_value c of
        Some d \<Rightarrow> py_digits True (10 * v + d) s
      | None \<Rightarrow> if after \<and> c = CHR ''_'' then py_digits False v s else None)"

definition py_int :: "string \<Rightarrow> int option" where
  "py_int s =
     (case py_strip s of
        [] \<Rightarrow> None
      | c # t \<Rightarrow>
          if c = CHR ''-'' then map_option (\<lambda>n. - int n) (py_digits False 0 t)
          else if c = CHR ''+'' then map_option int (py_digits False 0 t)
          else map_option int (py_digits False 0 (c # t)))"

section \<open>Starting\<close>

text \<open>
  \<open>binds port\<close> says whether the socket can be bound to the port and made to listen. \<open>Inl\<close> is the
  status that the process exits with; the value is the port that the socket listens on.
\<close>

definition create_server_socket :: "(int \<Rightarrow> bool) \<Rightarrow> int \<Rightarrow> int + int" where
  "create_server_socket binds port = (if binds port then Inr port else Inl 1)"

text \<open>
  The state in which the accept loop begins, and the number of partials removed. A new process has
  an empty set of uploads in flight and a lock that nobody holds.
\<close>

definition start_server :: "(int \<Rightarrow> bool) \<Rightarrow> int \<Rightarrow> (string \<Rightarrow> int option) \<Rightarrow> shared \<Rightarrow> int \<Rightarrow> int + sys \<times> nat" where
  "start_server binds now mtime S port =
     (case create_server_socket binds port of
        Inl status \<Rightarrow> Inl status
      | Inr _ \<Rightarrow>
          (let (S', swept) = sweep_partials now mtime (S\<lparr>in_flight := {}, lock := None\<rparr>)
           in Inr (\<lparr>mem = S', threads = []\<rparr>, swept)))"

definition server_main ::
  "(int \<Rightarrow> bool) \<Rightarrow> int \<Rightarrow> (string \<Rightarrow> int option) \<Rightarrow> shared \<Rightarrow> string list \<Rightarrow> int + sys \<times> nat" where
  "server_main binds now mtime S argv =
     (if length argv \<noteq> 2 then Inl 1
      else case py_int (argv ! 1) of
             None \<Rightarrow> Inl 1
           | Some port \<Rightarrow>
               if \<not> (1024 \<le> port \<and> port \<le> 65535) then Inl 1
               else start_server binds now mtime S port)"

section \<open>What the sweep removes\<close>

definition abandoned :: "int \<Rightarrow> (string \<Rightarrow> int option) \<Rightarrow> shared \<Rightarrow> string \<Rightarrow> bool" where
  "abandoned now mtime S n \<longleftrightarrow>
     glob_partial n \<and> outdated now mtime n \<and> file_of S n \<noteq> None"

lemma sweep_one_eq:
  "p \<noteq> ''.'' \<Longrightarrow> sweep_one now mtime p (S, k) =
     (if outdated now mtime p \<and> file_of S p \<noteq> None
      then (S\<lparr>dirents := AList.delete p (dirents S)\<rparr>, Suc k) else (S, k))"
  by (simp add: sweep_one_def attempt_call_def file_of_def split: option.split dirent.split)

lemma file_of_delete:
  "q \<noteq> ''.'' \<Longrightarrow> file_of (S\<lparr>dirents := AList.delete q (dirents S)\<rparr>) n = (if n = q then None else file_of S n)"
  by (simp add: file_of_def entry_delete split: option.split dirent.split)

lemma tidy_delete: "tidy S \<Longrightarrow> tidy (S\<lparr>dirents := AList.delete q (dirents S)\<rparr>)"
  by (auto simp: tidy_def entry_delete split: if_splits)

text \<open>The loop over the names that the pattern finds; a name may come up again.\<close>

lemma sweep_loop:
  assumes "''.'' \<notin> set ps" and "fold (sweep_one now mtime) ps (S, k) = (S', k')"
  shows "(\<forall>n. entry S' n = (if n \<in> set ps \<and> outdated now mtime n \<and> file_of S n \<noteq> None
      then None else entry S n)) \<and>
    inode S' = inode S \<and> in_flight S' = in_flight S \<and> lock S' = lock S \<and> (tidy S \<longrightarrow> tidy S') \<and>
    k' = k + card {p \<in> set ps. outdated now mtime p \<and> file_of S p \<noteq> None}"
  using assms
proof (induction ps arbitrary: S k)
  case Nil
  then show ?case by simp
next
  case (Cons p ps)
  let ?old = "\<lambda>S p. outdated now mtime p \<and> file_of S p \<noteq> None"
  have p: "p \<noteq> ''.''" "''.'' \<notin> set ps" using Cons.prems by auto
  show ?case
  proof (cases "?old S p")
    case True
    let ?S = "S\<lparr>dirents := AList.delete p (dirents S)\<rparr>"
    have "{q \<in> set (p # ps). ?old S q} = insert p {q \<in> set ps. ?old ?S q}"
      using True p by (auto simp: file_of_delete)
    moreover have "p \<notin> {q \<in> set ps. ?old ?S q}" using p by (simp add: file_of_delete)
    ultimately have n: "card {q \<in> set (p # ps). ?old S q} = Suc (card {q \<in> set ps. ?old ?S q})" by simp
    have "fold (sweep_one now mtime) ps (?S, Suc k) = (S', k')" using Cons.prems(2) True p by (simp add: sweep_one_eq)
    note IH = Cons.IH [OF p(2) this]
    have "entry S' m = (if m \<in> set (p # ps) \<and> ?old S m then None else entry S m)" for m
      using IH True p by (auto simp: file_of_delete entry_delete)
    then show ?thesis using IH n tidy_delete by simp
  next
    case False
    then have same: "{q \<in> set (p # ps). ?old S q} = {q \<in> set ps. ?old S q}" by auto
    have "fold (sweep_one now mtime) ps (S, k) = (S', k')"
      using Cons.prems(2) False p by (auto simp: sweep_one_eq split: if_splits)
    note IH = Cons.IH [OF p(2) this]
    have "entry S' m = (if m \<in> set (p # ps) \<and> ?old S m then None else entry S m)" for m
      using IH False by auto
    then show ?thesis using IH unfolding same by simp
  qed
qed

lemma file_listed: "n \<noteq> ''.'' \<Longrightarrow> file_of S n \<noteq> None \<Longrightarrow> n \<in> set (map fst (dirents S))"
  by (auto simp: file_of_def entry_def split: option.splits dest: map_of_SomeD intro: rev_image_eqI)

theorem sweep_partials_exact:
  assumes "sweep_partials now mtime S = (S', swept)"
  shows "entry S' n = (if abandoned now mtime S n then None else entry S n)"
    and "file_of S' n = (if abandoned now mtime S n then None else file_of S n)"
    and "in_flight S' = in_flight S" and "lock S' = lock S" and "tidy S \<Longrightarrow> tidy S'"
    and "swept = card {n. abandoned now mtime S n}"
proof -
  let ?ps = "filter glob_partial (map fst (dirents S))"
  have dot: "''.'' \<notin> set ?ps" by (simp add: glob_partial_def)
  have "fold (sweep_one now mtime) ?ps (S, 0) = (S', swept)" using assms by (simp add: sweep_partials_def)
  note loop = sweep_loop [OF dot this]
  have listed: "n \<in> set ?ps \<and> outdated now mtime n \<and> file_of S n \<noteq> None \<longleftrightarrow> abandoned now mtime S n" for n
    using file_listed [of n S] by (cases "n = ''.''") (auto simp: abandoned_def glob_partial_def)
  show e: "entry S' n = (if abandoned now mtime S n then None else entry S n)" for n
    using loop listed [of n] by auto
  show "file_of S' n = (if abandoned now mtime S n then None else file_of S n)"
    using loop e [of n] by (simp add: file_of_def split: option.split dirent.split)
  show "in_flight S' = in_flight S" "lock S' = lock S" "tidy S \<Longrightarrow> tidy S'" using loop by simp_all
  show "swept = card {n. abandoned now mtime S n}"
    using loop by (simp only: listed)
qed

end
