(* ===== verification/Rtrv_Examples.thy ===== *)
theory Rtrv_Examples
  imports Rtrv_System
begin

text \<open>
  Concrete worlds and a concrete served directory, at which the theorems are applied.
\<close>

section \<open>Worlds\<close>

text \<open>A world in which nothing fails: the given bytes arrive in one piece, the given files exist.\<close>

definition quiet_world :: "bytes \<Rightarrow> filesys \<Rightarrow> world" where
  "quiet_world s f = \<lparr>rx = [RxData s], tx = [], tx_plan = [], fs = f, faults = [], allocs = 0,
     open_files = 0, out = [], err = []\<rparr>"

lemma quiet_world_simps [simp]:
  "avail (quiet_world s f) = s" "faults (quiet_world s f) = []" "tx_plan (quiet_world s f) = []"
  "fs (quiet_world s f) = f" "tx (quiet_world s f) = []" "out (quiet_world s f) = []"
  "allocs (quiet_world s f) = 0" "open_files (quiet_world s f) = 0"
  by (simp_all add: quiet_world_def avail_def)

lemma fresh_dest_empty: "fresh_dest [] ''f'' digest"
proof -
  have "resolve ''f'' = (False, [''f''])" by (simp add: resolve_def)
  moreover have "path_dir ''f'' = ''.''" "path_base ''f'' = ''f''" by (simp_all add: path_dir_def path_base_def)
  moreover have "resolve ''.'' = (False, [])" by (simp add: resolve_def)
  ultimately show ?thesis
    using resolve_partial_plain [OF hex_of_no_slash, of "''f''" "take 8 digest"]
    by (simp add: fresh_dest_def splittable_def size_consts node_at_def creatable_def is_dir_def parent_def
        partials_of_def entries_def is_partial_entry_def partial_path_def partial_with_def partial_entry_def)
qed

section \<open>A served directory\<close>

text \<open>A served directory with one file.\<close>

definition example_disk :: shared where
  "example_disk = \<lparr>dirents = [(''a'', Ino 0)], inode = (\<lambda>_. [7]), next_ino = 1, in_flight = {}, lock = None\<rparr>"

lemma example_disk_files:
  "check_filename ''a''" "file_of example_disk ''a'' = Some [7]" "tidy example_disk"
  by (auto simp: check_filename_def example_disk_def file_of_def entry_def tidy_def)

lemma example_upload:
  "check_filename ''b''" "entry example_disk ''b'' = None" "entry example_disk (partial_name ''b'' (sha256 [5, 6])) = None"
  "in_flight example_disk = {}" "lock example_disk = None"
  "partial_name ''b'' (sha256 [5, 6]) \<noteq> ''a''" "partial_name ''b'' (sha256 [5, 6]) \<noteq> ''b''"
proof -
  show b: "check_filename ''b''" by (simp add: check_filename_def)
  show "entry example_disk ''b'' = None" "entry example_disk (partial_name ''b'' (sha256 [5, 6])) = None"
    "in_flight example_disk = {}" "lock example_disk = None"
    "partial_name ''b'' (sha256 [5, 6]) \<noteq> ''a''" "partial_name ''b'' (sha256 [5, 6]) \<noteq> ''b''"
    by (simp_all add: entry_def example_disk_def partial_name_plain [OF b])
qed

end
