(* ===== verification/Rtrv_Py_Properties.thy ===== *)
theory Rtrv_Py_Properties
  imports Rtrv_Handover Rtrv_Start Rtrv_Examples
begin

text \<open>
  What is shown of the Python client, of the two clients together, and of the start of the server.
\<close>

section \<open>Downloads\<close>

lemma dest_stays_new:
  assumes "node_at f dest = None" and "map_of f' (resolve dest) = map_of f (resolve dest) \<or> map_of f' (resolve dest) = None"
  shows "node_at f' dest = None"
  using assms by (auto simp: node_at_def split: if_splits option.splits)

text \<open>
  C10. The Python client, too, publishes only bytes whose hash it has checked, whatever the server sends
  and whichever call fails: when \<open>do_get\<close> returns, the destination did not exist before, and it holds the
  bytes of the partial that was resumed followed by the announced body, with the announced hash; when
  it ends in any other way, the destination is as it was. Every file that was opened is closed.
\<close>

theorem py_get_publishes_verified_bytes:
  "case py_do_get dirs name output w of (r, w') \<Rightarrow>
     (let dest = name_or_base output name in
      open_files w' = open_files w \<and>
      (case r of
         Inr _ \<Rightarrow> node_at (fs w) dest = None \<and>
           (\<exists>ty len total_size start digest body c.
              avail w = frame_header ty len @ get_meta total_size start digest @ body @ avail w' \<and>
              length digest = 32 \<and> length body = unat total_size - unat start \<and>
              c = resume_base (fs w) (resolve (partial_name dest digest)) start @ body \<and>
              sha256 c = digest \<and> node_at (fs w') dest = Some (File c))
       | Inl _ \<Rightarrow> node_at (fs w') dest = node_at (fs w) dest))"
  unfolding Let_def wpy_def [symmetric]
proof (rule wpy_do_get [OF refl], goal_cases)
  case (3 w1 x total_size start digest ty len)
  note reply = 3(2) [unfolded good_reply_def]
  have digest: "length digest = 32" using reply by simp
  show ?case
  proof (rule wpy_receive [OF digest refl refl refl refl], goal_cases)
    case (1 s w')
    then show ?case using dest_stays_new [of "fs w" "name_or_base output name" "fs w'"] 3(1,3,4) by simp
  next
    case (2 w')
    show ?case
      unfolding sum.case
    proof (intro conjI exI)
      show "length digest = 32" by (rule digest)
    qed (use 2 3(1,3,4) reply in \<open>auto simp: published_def Let_def resolve_partial_name\<close>)
  qed
qed simp_all

text \<open>
  C11. The clients leave their partials for each other. A download that one of them began and that is
  cut after \<open>n\<close> bytes of the body is completed by the other: the server sends only what is missing,
  and the file at the destination is the server's. The Python client keeps every byte, the C client
  whole pieces of 64 KiB.
\<close>

theorem clients_share_partials:
  assumes calm: "faults w = []" "TxErr \<notin> set (tx_plan w)" "TxErr \<notin> set plan"
    and ready: "fresh_dest (fs w) dest (sha256 c)" "py_ready dirs (fs w) dest (sha256 c)"
    and served: "check_filename name" "file_of S name = Some c" "length c + 48 < 2 ^ 64"
    and cut: "n < length c" "m = 65536 * (n div 65536)" "avail w = take (62 + n) (get_answer c 0 (replicate 8 0))"
    and wire: "[] \<notin> set ib" "concat ib = frame RTRV_T_GET (get_request (word_of_nat n) (take 8 (sha256 c)) name)"
      "[] \<notin> set ib'" "concat ib' = frame RTRV_T_GET (get_request (word_of_nat m) (take 8 (sha256 c)) name)"
  shows "(\<exists>reply s w1. run session_turn \<lparr>inbox = ib, sent = [], disk = S\<rparr> =
        Some (Inr True, \<lparr>inbox = [], sent = reply, disk = S\<rparr>) \<and> length reply = 62 + (length c - n) \<and>
      py_do_get dirs name (Some dest) w = (Inl s, w1) \<and>
      (rx_bytes r = reply \<longrightarrow> (\<exists>w2. rtrv_do_get name dest (w1\<lparr>rx := r, tx_plan := plan\<rparr>) = (Ok (), w2) \<and>
         tx w2 = tx w1 @ concat ib \<and> node_at (fs w2) dest = Some (File c)))) \<and>
    (\<exists>reply w1. run session_turn \<lparr>inbox = ib', sent = [], disk = S\<rparr> =
        Some (Inr True, \<lparr>inbox = [], sent = reply, disk = S\<rparr>) \<and> length reply = 62 + (length c - m) \<and>
      rtrv_do_get name dest w = (Fail, w1) \<and>
      (rx_bytes r' = reply \<longrightarrow> (\<exists>w2. py_do_get dirs name (Some dest) (w1\<lparr>rx := r', tx_plan := plan\<rparr>) = (Inr (), w2) \<and>
         tx w2 = tx w1 @ concat ib' \<and> node_at (fs w2) dest = Some (File c))))"
  using py_then_c.completes [OF calm ready(2,1) served cut(1) refl cut(3) wire(1,2), of r]
    c_then_py.completes [OF calm ready served cut wire(3,4), of r']
  unfolding c_get_iff py_get_iff by blast

lemma py_ready_empty: "py_ready dirs [] ''f'' digest"
proof -
  have split: "os_path_split ''f'' = ([], ''f'')" by (simp add: os_path_split_def)
  have "py_matches dirs [] ''f'' = []"
    by (simp add: py_matches_def split has_magic_def glob_matches_def py_listing_def Let_def entries_def)
  then show ?thesis
    using fresh_dest_empty [of digest] by (simp add: py_ready_def py_fresh_def fresh_dest_def split has_magic_def)
qed

theorem clients_share_partials_witness:
  "\<exists>reply reply' s w1 w1' w2 w2'.
    py_do_get (\<lambda>_ _. []) ''a'' (Some ''f'') (quiet_world (take 62 (get_answer [7] 0 (replicate 8 0))) []) = (Inl s, w1) \<and>
    rtrv_do_get ''a'' ''f'' (w1\<lparr>rx := [RxData reply], tx_plan := []\<rparr>) = (Ok (), w2) \<and> node_at (fs w2) ''f'' = Some (File [7]) \<and>
    rtrv_do_get ''a'' ''f'' (quiet_world (take 62 (get_answer [7] 0 (replicate 8 0))) []) = (Fail, w1') \<and>
    py_do_get (\<lambda>_ _. []) ''a'' (Some ''f'') (w1'\<lparr>rx := [RxData reply'], tx_plan := []\<rparr>) = (Inr (), w2') \<and>
    node_at (fs w2') ''f'' = Some (File [7])"
proof -
  let ?ib = "[frame RTRV_T_GET (get_request 0 (take 8 (sha256 [7])) ''a'')]" and ?reply = "get_answer [7] 0 (take 8 (sha256 [7]))"
  have ib: "[] \<notin> set ?ib" by (simp add: frame_def frame_header_def)
  then have "run session_turn \<lparr>inbox = ?ib, sent = [], disk = example_disk\<rparr> =
      Some (Inr True, \<lparr>inbox = [], sent = ?reply, disk = example_disk\<rparr>)"
    using server_answers_get [OF example_disk_files(1,2), of "take 8 (sha256 [7])" 0 ?ib] by simp
  moreover have "rx_bytes [RxData ?reply] = ?reply" by simp
  ultimately show ?thesis
    using clients_share_partials [of "quiet_world (take 62 (get_answer [7] 0 (replicate 8 0))) []" "[]" "''f''" "[7]" "\<lambda>_ _. []"
        "''a''" example_disk 0 0 ?ib ?ib "[RxData ?reply]" "[RxData ?reply]"] fresh_dest_empty py_ready_empty example_disk_files ib
    by (simp, blast)
qed

lemma other_partial_apart:
  assumes "CHR ''/'' \<notin> set ext" and "p = partial_name (dest @ ''.'' @ ext) digest"
  shows "resolve p \<noteq> resolve dest" "resolve p \<noteq> parent (resolve dest)"
    "resolve p \<noteq> parent (resolve (partial_path dest digest'))" "snd (resolve p) \<noteq> []"
proof -
  let ?e = "partial_entry (dest @ ''.'' @ ext) (hex_of (take 8 digest))"
  have "CHR ''/'' \<notin> set (''.'' @ ext)" using assms(1) by simp
  note dot = split_suffix [OF this, of dest]
  have "p = os_path_join (fst (os_path_split dest)) ?e" by (simp only: assms(2) partial_name_eq dot(2))
  then have p: "resolve p = (fst (resolve dest), comps (path_dir dest) @ [?e])"
    using resolve_join_sibling [of ?e dest] partial_entry_plain comps_plain [of ?e] by (auto simp: partial_entry_def)
  have d: "snd (resolve dest) = comps (path_dir dest) @ comps (path_base dest)" by (metis resolve_dest snd_conv)
  have base: "length (comps (path_base dest)) \<le> 1" "comps (path_base dest) \<noteq> [?e]"
    using comps_plain [OF path_base_no_slash [of dest]] dot(1) by (auto simp: partial_entry_def dest: arg_cong [where f = length])
  show "resolve p \<noteq> resolve dest"
  proof
    assume "resolve p = resolve dest"
    then have "snd (resolve dest) = comps (path_dir dest) @ [?e]" using p by (metis snd_conv)
    then show False using d base(2) by simp
  qed
  show "resolve p \<noteq> parent (resolve dest)"
  proof
    assume *: "resolve p = parent (resolve dest)"
    have "length (snd (parent (resolve dest))) = length (snd (resolve dest)) - 1" by (simp add: parent_def case_prod_beta)
    then have "length (comps (path_dir dest) @ [?e]) = length (comps (path_dir dest) @ comps (path_base dest)) - 1"
      using d p by (simp flip: *)
    then show False using base(1) by simp
  qed
  show "resolve p \<noteq> parent (resolve (partial_path dest digest'))" by (simp add: p partial_path_plain(1) parent_def)
  show "snd (resolve p) \<noteq> []" by (simp add: p)
qed

text \<open>
  C21. The search for a partial can take the partial of another file: with the partial of an interrupted
  download of \<open>dest.ext\<close> beside it, a download of \<open>dest\<close> offers the bytes of that partial to the server and,
  when the server does not recognise them, deletes the partial, so that the other download has lost what
  it had received.
\<close>

theorem py_get_discards_other_partial:
  assumes calm: "faults w = []" "TxErr \<notin> set (tx_plan w)" and fresh: "py_ready dirs f dest (sha256 c)"
    and other: "CHR ''/'' \<notin> set ext" "p = partial_name (dest @ ''.'' @ ext) digest" "length digest = 32"
      "take 8 digest \<noteq> take 8 (sha256 c)" "fs w = AList.update (resolve p) (File b) f"
    and size: "check_filename name" "length b < 2 ^ 64" "length c + 48 < 2 ^ 64"
    and reply: "avail w = get_answer c (length b) (take 8 digest)"
  shows "\<exists>w'. py_do_get dirs name (Some dest) w = (Inr (), w') \<and>
    tx w' = tx w @ frame RTRV_T_GET (get_request (word_of_nat (length b)) (take 8 digest) name) \<and>
    node_at (fs w') dest = Some (File c) \<and> node_at (fs w') p = None"
proof -
  note f = fresh [unfolded py_ready_def py_fresh_def] and apart = other_partial_apart [OF other(1,2)]
  have dest: "dest = name_or_base (Some dest) name" using f creatable_nonempty [of f dest] by simp
  have new: "node_at (fs w) dest = None"
    using f node_at_cong [of "fs w" dest f] apart(1) by (simp add: other(5) update_conv')
  have cr: "creatable (fs w) dest" "creatable (fs w) (partial_path dest (sha256 c))"
    using f apart by (auto simp: other(5) intro!: creatable_update)
  have found: "Some p = the_match (py_matches dirs (fs w) dest)"
    using py_matches_other [OF _ _ creatable_partial_dir other(1,2), of dirs f "sha256 c" b] f by (simp add: other(5) the_match_def)
  have node: "node_at (fs w) p = Some (File b)"
    using apart(4) partial_name_end by (simp add: node_at_def other(2,5) update_conv')
  have gone: "node_at f' p = None" if "map_of f' (resolve p) = None" for f'
    using that apart(4) by (simp add: node_at_def)
  have offer: "offer_for (fs w) (Some p) = (Some p, length b, take 8 digest)"
    using node other(3) by (simp add: offer_for_def st_size_def other(2) partial_token_name)
  have ok: "receivable (fs w) dest (sha256 c) (Some p)" using cr node apart by (simp add: receivable_def)
  have "avail w = frame_header RTRV_T_OK (word_of_nat (48 + length c)) @ get_meta (word_of_nat (length c)) 0 (sha256 c) @ c"
    using reply other(4) by (simp add: get_answer_def)
  then have "wpy (py_do_get dirs name (Some dest)) (\<lambda>r w'. r = Inr () \<and>
      tx w' = tx w @ frame RTRV_T_GET (get_request (word_of_nat (length b)) (take 8 digest) name) \<and>
      node_at (fs w') dest = Some (File c) \<and> node_at (fs w') p = None) w"
    by (intro wpy_do_get_calm [OF calm dest new found ok _ _ length_sha256 refl refl refl])
      (use offer size sendable_name [OF size(1,2)] apart in
        \<open>auto simp: py_get_frame_def py_cleared_def resume_base_def update_conv' delete_conv' u64_nat intro!: gone\<close>)
  then show ?thesis by (auto simp: wpy_def split: prod.splits)
qed

text \<open>A digest that differs from the one of \<open>[7]\<close>.\<close>

definition example_digest :: bytes where
  "example_digest = map (\<lambda>b. b + 1) (sha256 [7])"

lemma example_digest_facts: "length example_digest = 32" "take 8 example_digest \<noteq> take 8 (sha256 [7])"
proof -
  have "sha256 [7] \<noteq> []" by (metis length_sha256 list.size(3) zero_neq_numeral)
  then obtain a s where "sha256 [7] = a # s" by (cases "sha256 [7]") auto
  then show "take 8 example_digest \<noteq> take 8 (sha256 [7])" by (simp add: example_digest_def)
qed (simp add: example_digest_def)

theorem py_get_discards_other_partial_witness:
  "\<exists>w'. py_do_get (\<lambda>_ _. []) ''a'' (Some ''f'') (quiet_world (get_answer [7] (length [1 :: byte]) (take 8 example_digest))
      [(resolve (partial_name ''f.b'' example_digest), File [1])]) = (Inr (), w') \<and>
    node_at (fs w') ''f'' = Some (File [7]) \<and> node_at (fs w') (partial_name ''f.b'' example_digest) = None"
proof -
  let ?p = "partial_name ''f.b'' example_digest"
  let ?w = "quiet_world (get_answer [7] (length [1 :: byte]) (take 8 example_digest)) [(resolve ?p, File [1])]"
  have "\<exists>w'. py_do_get (\<lambda>_ _. []) ''a'' (Some ''f'') ?w = (Inr (), w') \<and>
      tx w' = tx ?w @ frame RTRV_T_GET (get_request (word_of_nat (length [1 :: byte])) (take 8 example_digest) ''a'') \<and>
      node_at (fs w') ''f'' = Some (File [7]) \<and> node_at (fs w') ?p = None"
    by (rule py_get_discards_other_partial [OF _ _ py_ready_empty _ _ example_digest_facts _ example_disk_files(1), where ext = "''b''"])
      simp_all
  then show ?thesis by blast
qed

section \<open>The program and the server\<close>

text \<open>
  C16. A whole run of the Python client's \<open>get\<close> against a whole session of the server: the session reads
  what the program sends and answers so that the program sends exactly that, ends with status 0 and
  leaves the server's file at the destination, with its connection closed.
\<close>

theorem py_main_get_from_server:
  assumes calm: "faults w = []" "TxErr \<notin> set (tx_plan w)" and port: "1024 \<le> port" "port \<le> 65535"
    and fresh: "py_fresh dirs (fs w) dest (sha256 c)"
    and served: "check_filename name" "file_of S name = Some c" "length c + 48 < 2 ^ 64"
    and wire: "[] \<notin> set ib"
      "concat ib = frame RTRV_T_HELLO [] @ frame RTRV_T_GET (get_request 0 (replicate 8 0) name) @ frame RTRV_T_QUIT []"
  shows "\<exists>reply. handle_client \<lparr>inbox = ib, sent = [], disk = S\<rparr> =
      Some (Inr (), \<lparr>inbox = [], sent = reply, disk = S\<rparr>) \<and>
    (avail w = reply \<longrightarrow>
      (\<exists>w'. py_main dirs True host port (PyGet name (Some dest)) w = (Inr (), w') \<and>
        tx w' = tx w @ concat ib \<and> node_at (fs w') dest = Some (File c) \<and> open_files w' = open_files w))"
proof -
  have "\<exists>w'. py_main dirs True host port (PyGet name (Some dest)) w = (Inr (), w') \<and>
      tx w' = tx w @ concat ib \<and> node_at (fs w') dest = Some (File c) \<and> open_files w' = open_files w"
    if "avail w = frame RTRV_T_OK [] @ get_answer c 0 (replicate 8 0) @ frame RTRV_T_OK []"
    unfolding wire(2)
  proof (rule py_main_conversation [where R = "\<lambda>f _. node_at f dest = Some (File c)", OF port calm that])
    fix w1
    assume w1: "avail w1 = get_answer c 0 (replicate 8 0) @ frame RTRV_T_OK []" "faults w1 = []" "TxErr \<notin> set (tx_plan w1)"
      "fs w1 = fs w" "out w1 = out w"
    show "wpy (py_command_run dirs (PyGet name (Some dest))) (\<lambda>r w2. r = Inr () \<and> avail w2 = frame RTRV_T_OK [] \<and>
        faults w2 = [] \<and> TxErr \<notin> set (tx_plan w2) \<and> tx w2 = tx w1 @ frame RTRV_T_GET (get_request 0 (replicate 8 0) name) \<and>
        open_files w2 = open_files w1 \<and> node_at (fs w2) dest = Some (File c)) w1"
      unfolding py_command_runs
      by (rule wpy_mono [OF wpy_get_fresh [OF w1(2,3) _ sendable_name [OF served(1)] served(3) w1(1)]])
        (use fresh w1(4) in simp_all)
  qed
  then show ?thesis using session_sends_file [OF served, of "replicate 8 0" 0 ib] wire by simp
qed

theorem py_main_get_from_server_witness:
  "\<exists>reply w'. handle_client \<lparr>inbox = [frame RTRV_T_HELLO [], frame RTRV_T_GET (get_request 0 (replicate 8 0) ''a'') @ frame RTRV_T_QUIT []],
      sent = [], disk = example_disk\<rparr> = Some (Inr (), \<lparr>inbox = [], sent = reply, disk = example_disk\<rparr>) \<and>
    py_main (\<lambda>_ _. []) True ''h'' 1024 (PyGet ''a'' (Some ''f'')) (quiet_world reply []) = (Inr (), w') \<and>
    node_at (fs w') ''f'' = Some (File [7])"
proof -
  let ?ib = "[frame RTRV_T_HELLO [], frame RTRV_T_GET (get_request 0 (replicate 8 0) ''a'') @ frame RTRV_T_QUIT []]"
  let ?reply = "frame RTRV_T_OK [] @ get_answer [7] 0 (replicate 8 0) @ frame RTRV_T_OK []"
  have ib: "[] \<notin> set ?ib" by (simp add: frame_def frame_header_def)
  then have "handle_client \<lparr>inbox = ?ib, sent = [], disk = example_disk\<rparr> =
      Some (Inr (), \<lparr>inbox = [], sent = ?reply, disk = example_disk\<rparr>)"
    using session_sends_file [OF example_disk_files(1,2), of "replicate 8 0" 0 ?ib] by simp
  then show ?thesis
    using py_main_get_from_server [of "quiet_world ?reply []" 1024 "\<lambda>_ _. []" "''f''" "[7]" "''a''" example_disk ?ib "''h''"]
      py_ready_empty [unfolded py_ready_def] example_disk_files ib by auto
qed

text \<open>
  C20. A download that is complete can be reported as failed: when the server closes the connection
  instead of answering the goodbye, the file is at its destination, verified, and yet the Python client
  ends with the status of a broken connection; a script that tries again finds that the file exists.
\<close>

theorem py_unanswered_goodbye_fails_download:
  assumes calm: "faults w = []" "TxErr \<notin> set (tx_plan w)" and port: "1024 \<le> port" "port \<le> 65535"
    and fresh: "py_fresh dirs (fs w) dest (sha256 c)" and name: "check_filename name" and size: "length c + 48 < 2 ^ 64"
    and stream: "avail w = frame RTRV_T_OK [] @ get_answer c 0 (replicate 8 0)"
  shows "\<exists>w'. py_main dirs True host port (PyGet name (Some dest)) w = (Inl (Exit PY_EXIT_CONN), w') \<and>
    node_at (fs w') dest = Some (File c) \<and> open_files w' = open_files w"
proof (rule py_main_unanswered [where R = "\<lambda>f. node_at f dest = Some (File c)", OF port calm stream])
  fix w1
  assume w1: "avail w1 = get_answer c 0 (replicate 8 0)" "faults w1 = []" "TxErr \<notin> set (tx_plan w1)" "fs w1 = fs w" "out w1 = out w"
  have "avail w1 = get_answer c 0 (replicate 8 0) @ []" using w1(1) by simp
  from wpy_get_fresh [OF w1(2,3) _ sendable_name [OF name] size this, of dirs dest]
  show "wpy (py_command_run dirs (PyGet name (Some dest))) (\<lambda>r w2. r = Inr () \<and> avail w2 = [] \<and> TxErr \<notin> set (tx_plan w2) \<and>
      faults w2 = [] \<and> open_files w2 = open_files w1 \<and> node_at (fs w2) dest = Some (File c)) w1"
    unfolding py_command_runs by (rule wpy_mono) (use fresh w1(4) in simp_all)
qed

theorem py_unanswered_goodbye_fails_download_witness:
  "\<exists>w'. py_main (\<lambda>_ _. []) True ''h'' 1024 (PyGet ''a'' (Some ''f''))
      (quiet_world (frame RTRV_T_OK [] @ get_answer [7] 0 (replicate 8 0)) []) = (Inl (Exit PY_EXIT_CONN), w') \<and>
    node_at (fs w') ''f'' = Some (File [7])"
  using py_unanswered_goodbye_fails_download [of "quiet_world (frame RTRV_T_OK [] @ get_answer [7] 0 (replicate 8 0)) []" 1024
      "\<lambda>_ _. []" "''f''" "[7]" "''a''" "''h''"] py_ready_empty [unfolded py_ready_def] example_disk_files
  by auto

text \<open>
  C17. A whole run of the Python client's \<open>put\<close> against a whole session: the server ends with exactly the
  client's file under the requested name, from the \<open>m\<close> bytes that an earlier attempt left, and touches no
  other file; the client's files are as they were.
\<close>

theorem py_main_put_to_server:
  assumes calm: "faults w = []" "TxErr \<notin> set (tx_plan w)" and port: "1024 \<le> port" "port \<le> 65535"
    and stored: "node_at (fs w) path = Some (File c)"
    and size: "length c \<le> MAX_FILE_SIZE" and name: "check_filename name" and p: "p = partial_name name (sha256 c)"
    and server: "tidy S" "entry S name = None" "p \<notin> in_flight S" "lock S = None"
    and part: "entry S p = None \<and> m = 0 \<or> file_of S p = Some (take m c)" "m \<le> length c"
    and wire: "[] \<notin> set ib" "concat ib = frame RTRV_T_HELLO [] @
      (frame RTRV_T_PUT (put_request (word_of_nat (length c)) (sha256 c) name) @ drop m c) @ frame RTRV_T_QUIT []"
  shows "\<exists>reply S'. handle_client \<lparr>inbox = ib, sent = [], disk = S\<rparr> =
      Some (Inr (), \<lparr>inbox = [], sent = reply, disk = S'\<rparr>) \<and>
    file_of S' name = Some c \<and> file_of S' p = None \<and> (\<forall>q. q \<notin> {name, p} \<longrightarrow> file_of S' q = file_of S q) \<and>
    (avail w = reply \<longrightarrow>
      (\<exists>w'. py_main dirs True host port (PyPut path (Some name)) w = (Inr (), w') \<and>
        tx w' = tx w @ concat ib \<and> fs w' = fs w \<and> open_files w' = open_files w))"
proof -
  let ?reply = "frame RTRV_T_OK (be_bytes 8 (word_of_nat m :: u64)) @ frame RTRV_T_OK []"
  note session = session_takes_file [OF name p wire part server(2-4) size]
    and files = session_upload_files [OF name p server(1,2) part(1)]
  have "\<exists>w'. py_main dirs True host port (PyPut path (Some name)) w = (Inr (), w') \<and>
      tx w' = tx w @ concat ib \<and> fs w' = fs w \<and> open_files w' = open_files w"
    if "avail w = frame RTRV_T_OK [] @ ?reply @ frame RTRV_T_OK []"
    unfolding wire(2)
  proof (rule py_main_conversation [where R = "\<lambda>f _. f = fs w", OF port calm that])
    fix w1
    assume w1: "avail w1 = ?reply @ frame RTRV_T_OK []" "faults w1 = []" "TxErr \<notin> set (tx_plan w1)" "fs w1 = fs w" "out w1 = out w"
    show "wpy (py_command_run dirs (PyPut path (Some name))) (\<lambda>r w2. r = Inr () \<and> avail w2 = frame RTRV_T_OK [] \<and>
        faults w2 = [] \<and> TxErr \<notin> set (tx_plan w2) \<and>
        tx w2 = tx w1 @ frame RTRV_T_PUT (put_request (word_of_nat (length c)) (sha256 c) name) @ drop m c \<and>
        open_files w2 = open_files w1 \<and> fs w2 = fs w) w1"
      unfolding py_command_runs
      by (rule wpy_mono [OF wpy_put_known [OF w1(2,3) _ size name part(2)]]) (use stored w1 in auto)
  qed
  then show ?thesis using session files by (intro exI conjI) (assumption | blast)+
qed

theorem py_main_put_to_server_witness:
  "\<exists>reply S' w'. handle_client \<lparr>inbox = [frame RTRV_T_HELLO [], frame RTRV_T_PUT (put_request 2 (sha256 [5, 6]) ''b''), [5],
      6 # frame RTRV_T_QUIT []], sent = [], disk = example_disk\<rparr> = Some (Inr (), \<lparr>inbox = [], sent = reply, disk = S'\<rparr>) \<and>
    file_of S' ''b'' = Some [5, 6] \<and> file_of S' ''a'' = Some [7] \<and>
    py_main (\<lambda>_ _. []) True ''h'' 1024 (PyPut ''f'' (Some ''b'')) (quiet_world reply [((False, [''f'']), File [5, 6])]) = (Inr (), w')"
proof -
  let ?ib = "[frame RTRV_T_HELLO [], frame RTRV_T_PUT (put_request 2 (sha256 [5, 6]) ''b''), [5], 6 # frame RTRV_T_QUIT []]"
  let ?reply = "frame RTRV_T_OK [] @ (frame RTRV_T_OK (be_bytes 8 (0 :: u64)) @ frame RTRV_T_OK []) @ frame RTRV_T_OK []"
  let ?p = "partial_name ''b'' (sha256 [5, 6])"
  note S = example_upload
  have ib: "[] \<notin> set ?ib" by (simp add: frame_def frame_header_def)
  have run: "handle_client \<lparr>inbox = ?ib, sent = [], disk = example_disk\<rparr> =
      Some (Inr (), \<lparr>inbox = [], sent = ?reply, disk = uploaded example_disk ?p ''b'' [5, 6]\<rparr>)"
    using session_takes_file [OF S(1) refl ib, of "[5, 6]" 0 example_disk] S by (simp add: MAX_FILE_SIZE_def)
  show ?thesis
    using py_main_put_to_server [of "quiet_world ?reply [((False, [''f'']), File [5, 6])]" 1024 "''f''" "[5, 6]" "''b''" ?p
        example_disk 0 ?ib "\<lambda>_ _. []" "''h''"] run S ib example_disk_files
    by (auto simp: MAX_FILE_SIZE_def node_at_def resolve_def)
qed

lemma encode_zero: "(of_char ch :: byte) = 0 \<Longrightarrow> (of_char ch :: nat) = 0"
  using char_byte [of ch] by (metis of_char_of unat_0 mod_0)

text \<open>
  C18. A whole run of the Python client's \<open>list\<close> against a whole session: the program prints the names of
  the served directory, sorted, when they are ASCII, not empty, have no zero byte and fit one frame.
\<close>

theorem py_main_list_from_server:
  assumes calm: "faults w = []" "TxErr \<notin> set (tx_plan w)" and port: "1024 \<le> port" "port \<le> 65535"
    and names: "names_of S = map encode ns" "\<forall>n \<in> set ns. n \<noteq> [] \<and> list_all (\<lambda>ch. 0 < (of_char ch :: nat) \<and> (of_char ch :: nat) < 128) n"
      "length (join_zero (names_of S)) \<le> 65536"
    and wire: "[] \<notin> set ib" "concat ib = frame RTRV_T_HELLO [] @ frame RTRV_T_LIST [] @ frame RTRV_T_QUIT []"
  shows "\<exists>reply. handle_client \<lparr>inbox = ib, sent = [], disk = S\<rparr> =
      Some (Inr (), \<lparr>inbox = [], sent = reply, disk = S\<rparr>) \<and>
    (avail w = reply \<longrightarrow>
      (\<exists>w'. py_main dirs True host port PyList w = (Inr (), w') \<and> tx w' = tx w @ concat ib \<and>
        (fs w' = fs w \<and> out w' = out w @ map (\<lambda>n. Listed (encode n)) (sort ns)) \<and> open_files w' = open_files w))"
proof -
  have ascii: "0 \<notin> set (encode n) \<and> utf8 (encode n)" if "n \<in> set ns" for n
  proof -
    have "list_all (\<lambda>ch. (of_char ch :: nat) < 128) n" "\<forall>ch \<in> set n. 0 < (of_char ch :: nat)"
      using names(2) that by (auto simp: list_all_iff)
    then show ?thesis using encode_zero by (force simp: utf8_ascii)
  qed
  have "\<exists>w'. py_main dirs True host port PyList w = (Inr (), w') \<and> tx w' = tx w @ concat ib \<and>
      (fs w' = fs w \<and> out w' = out w @ map (\<lambda>n. Listed (encode n)) (sort ns)) \<and> open_files w' = open_files w"
    if "avail w = frame RTRV_T_OK [] @ frame RTRV_T_OK (join_zero (names_of S)) @ frame RTRV_T_OK []"
    unfolding wire(2)
  proof (rule py_main_conversation [where R = "\<lambda>f o'. f = fs w \<and> o' = out w @ map (\<lambda>n. Listed (encode n)) (sort ns)", OF port calm that])
    fix w1
    assume w1: "avail w1 = frame RTRV_T_OK (join_zero (names_of S)) @ frame RTRV_T_OK []" "faults w1 = []"
      "TxErr \<notin> set (tx_plan w1)" "fs w1 = fs w" "out w1 = out w"
    show "wpy (py_command_run dirs PyList) (\<lambda>r w2. r = Inr () \<and> avail w2 = frame RTRV_T_OK [] \<and>
        faults w2 = [] \<and> TxErr \<notin> set (tx_plan w2) \<and> tx w2 = tx w1 @ frame RTRV_T_LIST [] \<and>
        open_files w2 = open_files w1 \<and> fs w2 = fs w \<and> out w2 = out w @ map (\<lambda>n. Listed (encode n)) (sort ns)) w1"
      unfolding py_command_runs
      by (rule wpy_mono [OF wpy_list_known [OF w1(2,3), of ns]]) (use ascii names w1 in auto)
  qed
  moreover have "\<forall>n \<in> set (names_of S). utf8 n" using names(1) ascii by auto
  ultimately show ?thesis using session_lists [OF _ wire] names(3) by simp
qed

theorem py_main_list_from_server_witness:
  "\<exists>reply w'. handle_client \<lparr>inbox = [frame RTRV_T_HELLO [] @ frame RTRV_T_LIST [], frame RTRV_T_QUIT []], sent = [],
      disk = example_disk\<rparr> = Some (Inr (), \<lparr>inbox = [], sent = reply, disk = example_disk\<rparr>) \<and>
    py_main (\<lambda>_ _. []) True ''h'' 1024 PyList (quiet_world reply []) = (Inr (), w') \<and> out w' = [Listed [97]]"
proof -
  let ?ib = "[frame RTRV_T_HELLO [] @ frame RTRV_T_LIST [], frame RTRV_T_QUIT []]"
  let ?reply = "frame RTRV_T_OK [] @ frame RTRV_T_OK [97] @ frame RTRV_T_OK []"
  have names: "names_of example_disk = [[97]]" by (simp add: example_disk_def)
  have ib: "[] \<notin> set ?ib" by (simp add: frame_def frame_header_def)
  then have "handle_client \<lparr>inbox = ?ib, sent = [], disk = example_disk\<rparr> =
      Some (Inr (), \<lparr>inbox = [], sent = ?reply, disk = example_disk\<rparr>)"
    using session_lists [of example_disk ?ib] names by simp
  then show ?thesis
    using py_main_list_from_server [of "quiet_world ?reply []" 1024 example_disk "[''a'']" ?ib "\<lambda>_ _. []" "''h''"] ib names by auto
qed

section \<open>Uploads and failures\<close>

text \<open>
  C19. The Python client's upload in every environment: no file changes and every file is closed. When it
  returns, the server answered with an offset and a verdict, and the bytes sent are the PUT frame (size,
  hash, name) and the file from the offset on; when it ends in any other way, the bytes sent are an initial
  part of that, and none if the path is no file.
\<close>

theorem py_put_sends_request_and_rest:
  "case py_do_put path remote_name w of (r, w') \<Rightarrow>
     (let name = name_or_base remote_name path;
          wire = (\<lambda>c off. frame RTRV_T_PUT (put_request (word_of_nat (length c)) (sha256 c) name) @ drop off c) in
      fs w' = fs w \<and> open_files w' = open_files w \<and>
      (case r of
         Inr _ \<Rightarrow> \<exists>c off. node_at (fs w) path = Some (File c) \<and> put_replies (avail w) off (avail w') \<and> tx w' = tx w @ wire c off
       | Inl _ \<Rightarrow> \<exists>c off k. (k = 0 \<or> node_at (fs w) path = Some (File c)) \<and> tx w' = tx w @ take k (wire c off)))"
  unfolding Let_def wpy_def [symmetric]
proof (rule wpy_do_put [OF refl], goal_cases)
  case (1 w' c off)
  then show ?case by (auto simp: put_frame_def)
next
  case (2 s w' c off k)
  then show ?case unfolding sum.case put_frame_def by blast
qed

text \<open>
  C22. A failure of the handshake is not reported as a failure of the connection: when the server closes the
  connection or sends something that is no frame before it has answered HELLO, the exception leaves
  \<open>main\<close>, whose handlers begin only after \<open>connect\<close>. The process ends with status 1, the code for a request that
  the server refused, although the handlers would have ended it with the code for a broken connection.
\<close>

theorem py_handshake_failure_escapes:
  assumes port: "1024 \<le> port" "port \<le> 65535" and calm: "TxErr \<notin> set (tx_plan w)"
    and silent: "\<nexists>ty payload rest. avail w = frame ty payload @ rest \<and> frame_within ty payload"
  shows "\<exists>e w'. py_main dirs True host port cmd w = (Inl (Thrown e), w') \<and>
    py_status (Inl (Thrown e)) = PY_EXIT_SERVER \<and> fst (py_report e w') = Inl (Exit PY_EXIT_CONN) \<and>
    fs w' = fs w \<and> err w' = err w \<and> open_files w' = Suc (open_files w)"
proof -
  let ?w = "w\<lparr>open_files := Suc (open_files w)\<rparr>"
  let ?Q = "\<lambda>r w'. \<exists>e. r = Inl (Thrown e) \<and> e \<noteq> OtherErr \<and> fs w' = fs w \<and> err w' = err w \<and> open_files w' = Suc (open_files w)"
  have main: "py_main dirs True host port cmd = py_bind (lib sock_open) (\<lambda>_. py_bind (net (write_frame T_HELLO [])) (\<lambda>_.
      py_bind (net read_frame) (\<lambda>x. py_bind (case x of (frame_type, payload) \<Rightarrow>
        if frame_type = T_ERROR then py_bind (net (unpack_error payload)) (\<lambda>(reason, message).
             fail PY_EXIT_SERVER (RefusedConnection message)) else py_return ()) (\<lambda>_. py_session dirs cmd))))"
    using port by (simp add: py_main_def py_connect_def py_bind_assoc)
  have "wpy (py_bind (net (write_frame T_HELLO [])) (\<lambda>_.
      py_bind (net read_frame) (\<lambda>x. py_bind (case x of (frame_type, payload) \<Rightarrow>
        if frame_type = T_ERROR then py_bind (net (unpack_error payload)) (\<lambda>(reason, message).
             fail PY_EXIT_SERVER (RefusedConnection message)) else py_return ()) (\<lambda>_. py_session dirs cmd)))) ?Q ?w"
    unfolding wpy_bind [of "net (write_frame T_HELLO [])"]
  proof (rule wpy_write_frame, goal_cases)
    case (2 q)
    show ?case
      unfolding sum.case wpy_bind [of "net read_frame"]
      by (rule wpy_read_frame) (use silent in auto)
  qed (use calm in simp_all)
  then have "wpy (py_main dirs True host port cmd) ?Q w"
    by (simp add: main wpy_bind [of "lib sock_open"] wpy_lib wp_def sock_open_def)
  then obtain e w' where w': "py_main dirs True host port cmd w = (Inl (Thrown e), w')" "e \<noteq> OtherErr" "fs w' = fs w"
      "err w' = err w" "open_files w' = Suc (open_files w)"
    by (auto simp: wpy_def split: prod.splits)
  moreover have "fst (py_report e w') = Inl (Exit PY_EXIT_CONN)" using w'(2) by (cases e) (simp_all add: py_report_def fail_def)
  ultimately show ?thesis by (auto simp: py_status_def PY_EXIT_SERVER_def)
qed

theorem py_handshake_failure_escapes_witness:
  "\<exists>e w'. py_main (\<lambda>_ _. []) True ''h'' 1024 PyList (quiet_world [] []) = (Inl (Thrown e), w') \<and>
    py_status (Inl (Thrown e)) = PY_EXIT_SERVER"
proof -
  have "\<nexists>ty payload rest. avail (quiet_world [] []) = frame ty payload @ rest \<and> frame_within ty payload"
    by (simp add: frame_def frame_header_def)
  then show ?thesis using py_handshake_failure_escapes [of 1024 "quiet_world [] []" "\<lambda>_ _. []" "''h''" PyList] by auto
qed

section \<open>The start of the server\<close>

text \<open>
  C23. The server starts only with one argument that is a port from 1024 to 65535 and can be bound; then the
  accept loop begins with no thread, nothing in flight and the lock free, and the directory has lost exactly
  the abandoned partials: files whose names look like partials, that are older than a day, and whose age can
  be read and that can be removed. Every other name is as it was.
\<close>

theorem server_starts_swept:
  "case server_main binds now mtime S argv of
     Inl status \<Rightarrow> status = 1 \<and> \<not> (\<exists>prog arg port. argv = [prog, arg] \<and> py_int arg = Some port \<and>
       1024 \<le> port \<and> port \<le> 65535 \<and> binds port)
   | Inr (s, swept) \<Rightarrow>
       (\<exists>prog arg port. argv = [prog, arg] \<and> py_int arg = Some port \<and> 1024 \<le> port \<and> port \<le> 65535 \<and> binds port) \<and>
       started s \<and> (tidy S \<longrightarrow> tidy (mem s)) \<and> swept = card {n. abandoned now mtime S n} \<and>
       (\<forall>n. file_of (mem s) n = (if abandoned now mtime S n then None else file_of S n))"
proof (cases "server_main binds now mtime S argv")
  case (Inl status)
  then show ?thesis
    by (auto simp: server_main_def start_server_def create_server_socket_def numeral_2_eq_2
        split: option.splits if_splits sum.splits prod.splits)
next
  case (Inr r)
  let ?S = "S\<lparr>in_flight := {}, lock := None\<rparr>"
  obtain s swept where r: "r = (s, swept)" by fastforce
  obtain port where port: "length argv = 2" "py_int (argv ! 1) = Some port" "1024 \<le> port" "port \<le> 65535" "binds port"
      "sweep_partials now mtime ?S = (mem s, swept)" "threads s = []"
    using Inr by (auto simp: server_main_def start_server_def create_server_socket_def r
        split: option.splits if_splits sum.splits prod.splits)
  then obtain prog arg where argv: "argv = [prog, arg]" by (auto simp: numeral_2_eq_2 length_Suc_conv)
  note swept = sweep_partials_exact [OF port(6)]
  have same: "abandoned now mtime ?S = abandoned now mtime S" "file_of ?S = file_of S" "tidy ?S = tidy S"
    by (auto simp: abandoned_def file_of_def entry_def tidy_def fun_eq_iff)
  show ?thesis
    using Inr r port argv swept unfolding same by (auto simp: started_def)
qed

theorem server_starts_swept_witness:
  "\<exists>s swept. server_main (\<lambda>_. True) 100000 (\<lambda>_. Some 0) (example_disk\<lparr>dirents := [(''a'', Ino 0), (''.a.00.part'', Ino 0)]\<rparr>)
      [''server'', '' 80_80''] = Inr (s, swept) \<and>
    file_of (mem s) ''a'' = Some [7] \<and> file_of (mem s) ''.a.00.part'' = None"
proof -
  let ?S = "example_disk\<lparr>dirents := [(''a'', Ino 0), (''.a.00.part'', Ino 0)]\<rparr>"
  have port: "py_int '' 80_80'' = Some 8080"
    by (simp add: py_int_def py_strip_def py_space_def digit_value_def)
  have old: "abandoned 100000 (\<lambda>_. Some 0) ?S ''.a.00.part''" "\<not> abandoned 100000 (\<lambda>_. Some 0) ?S ''a''" "file_of ?S ''a'' = Some [7]"
    by (simp_all add: abandoned_def outdated_def glob_partial_def PARTIAL_MAX_AGE_def file_of_def entry_def example_disk_def)
  show ?thesis
    using server_starts_swept [where binds = "\<lambda>_. True" and now = 100000 and mtime = "\<lambda>_. Some 0" and S = ?S and
        argv = "[''server'', '' 80_80'']"] port old
    by (auto split: sum.splits prod.splits)
qed

end
