(* ===== verification/Rtrv_Observe.thy ===== *)
theory Rtrv_Observe
  imports Rtrv_Trace "HOL-Library.Sublist"
begin

text \<open>
  What a session hears, and what else an observer notes of it, while other sessions run. A judgement on
  programs, under a condition on the answers of the system, says what holds before every call; the
  condition is a rely condition, since other sessions change the shared memory between the calls.
\<close>

section \<open>The judgement\<close>

definition heard_of :: "action \<Rightarrow> answer \<Rightarrow> bytes" where
  "heard_of a r = (case a of Recv _ \<Rightarrow> (case r of Data bs \<Rightarrow> bs | _ \<Rightarrow> []) | _ \<Rightarrow> [])"

text \<open>
  The observer has the bytes heard and a note, which \<open>v\<close> brings up to date at every call. For answers
  that keep \<open>R\<close>, \<open>I\<close> holds before every call, and the program ends in \<open>Q\<close> when it returns and in \<open>E\<close> when
  it raises.
\<close>

type_synonym 'z noting = "action \<Rightarrow> choice \<Rightarrow> answer \<Rightarrow> 'z \<Rightarrow> 'z"
type_synonym relying = "action \<Rightarrow> choice \<Rightarrow> answer \<Rightarrow> bool"

primrec observed :: "'z noting \<Rightarrow> relying \<Rightarrow> (bytes \<Rightarrow> 'z \<Rightarrow> action \<Rightarrow> bool) \<Rightarrow> (bytes \<Rightarrow> 'z \<Rightarrow> 'a \<Rightarrow> bool) \<Rightarrow>
    (bytes \<Rightarrow> 'z \<Rightarrow> exc \<Rightarrow> bool) \<Rightarrow> 'a proc \<Rightarrow> bytes \<Rightarrow> 'z \<Rightarrow> bool" where
  "observed v R I Q E (Return x) h z \<longleftrightarrow> Q h z x"
| "observed v R I Q E (Raise e) h z \<longleftrightarrow> E h z e"
| "observed v R I Q E (Act a k) h z \<longleftrightarrow>
     I h z a \<and> (\<forall>c r. R a c r \<longrightarrow> observed v R I Q E (k r) (h @ heard_of a r) (v a c r z))"

named_theorems observed_simps "what is observed of composed programs"

lemma observed_bind [observed_simps]:
  "observed v R I Q E (bind p f) h z = observed v R I (\<lambda>h z x. observed v R I Q E (f x) h z) E p h z"
  by (induction p arbitrary: h z) auto

lemma observed_catch [observed_simps]:
  "observed v R I Q E (catch p g) h z = observed v R I Q (\<lambda>h z e. observed v R I Q E (g e) h z) p h z"
  by (induction p arbitrary: h z) auto

lemma observed_finally [observed_simps]:
  "observed v R I Q E (finally_do p q) h z =
     observed v R I (\<lambda>h z x. observed v R I (\<lambda>h z _. Q h z x) E q h z)
       (\<lambda>h z e. observed v R I (\<lambda>h z _. E h z e) E q h z) p h z"
  by (induction p arbitrary: h z) (auto simp: observed_simps)

lemma observed_call [observed_simps]:
  "observed v R I Q E (call a f) h z \<longleftrightarrow> I h z a \<and> (\<forall>c r. R a c r \<longrightarrow>
     (case r of Err e \<Rightarrow> E (h @ heard_of a r) (v a c r z) e | _ \<Rightarrow> Q (h @ heard_of a r) (v a c r z) (f r)))"
  by (auto simp: call_def split: answer.split)

lemma observed_mono:
  "observed v R I Q E p h z \<Longrightarrow> (\<And>h z x. Q h z x \<Longrightarrow> Q' h z x) \<Longrightarrow> (\<And>h z e. E h z e \<Longrightarrow> E' h z e) \<Longrightarrow>
     observed v R I Q' E' p h z"
  by (induction p arbitrary: h z) auto

text \<open>Nothing is required once the right things cannot have been heard.\<close>

lemma observed_any:
  assumes "\<And>h' z a. I (h @ h') z a" and "\<And>h' z x. Q (h @ h') z x" and "\<And>h' z e. E (h @ h') z e"
  shows "observed v R I Q E p (h @ h') z"
proof (induction p arbitrary: h' z)
  case (Act a k)
  then show ?case using assms(1) Act.IH [of _ "h' @ heard_of a _"] by simp
qed (use assms in simp_all)

section \<open>Receiving\<close>

text \<open>What the receiving functions use: a receive gets at most what it asked for, and does not change the note.\<close>

locale receiver =
  fixes v :: "'z noting" and R :: relying
  assumes recv: "R (Recv m) c r \<Longrightarrow> (\<exists>bs. r = Data bs \<and> length bs \<le> m) \<or> (\<exists>e \<in> net_errors. r = Err e)"
    and unnoted: "v (Recv m) c r z = z"
begin

lemma observed_read_exact_more:
  assumes "length acc \<le> n" and "\<And>t m. I (h @ t) z (Recv m)" and "\<And>t. length acc + length t = n \<Longrightarrow> Q (h @ t) z (acc @ t)"
    and "\<And>t e. e \<in> net_errors \<Longrightarrow> E (h @ t) z e"
  shows "observed v R I Q E (read_exact_more n acc) h z"
  using assms
proof (induction n acc arbitrary: h rule: read_exact_more.induct)
  case (1 n acc)
  show ?case
  proof (cases "length acc < n")
    case False
    then show ?thesis using 1(2) 1(4) [of "[]"] by (simp add: read_exact_more.simps [of n acc])
  next
    case True
    have more: "observed v R I Q E (read_exact_more n (acc @ bs)) (h @ bs) z" if "bs \<noteq> []" "length bs \<le> n - length acc" for bs
      using that True 1(3) [of "bs @ _"] 1(4) [of "bs @ _"] 1(5) [of _ "bs @ _"] by (intro 1(1)) simp_all
    have errs: "E h z e" if "e \<in> net_errors" for e using that 1(5) [of e "[]"] by simp
    have "ConnectionErr \<in> net_errors" by (simp add: net_errors_def)
    then show ?thesis
      using True more errs 1(3) [of "[]"]
      by (subst read_exact_more.simps) (auto simp: observed_simps heard_of_def unnoted dest!: recv)
  qed
qed

lemma observed_read_exact:
  assumes "\<And>t m. I (h @ t) z (Recv m)" and "\<And>t. length t = n \<Longrightarrow> Q (h @ t) z t" and "\<And>t e. e \<in> net_errors \<Longrightarrow> E (h @ t) z e"
  shows "observed v R I Q E (read_exact_bytes n) h z"
  unfolding read_exact_bytes_def by (rule observed_read_exact_more) (use assms in simp_all)

text \<open>A frame: what was heard is the frame that is returned, or else no frame within its limit begins like that.\<close>

lemma observed_read_frame:
  assumes inv: "\<And>t m. I (h @ t) z (Recv m)"
    and good: "\<And>ty payload. frame_within ty payload \<Longrightarrow> Q (h @ frame ty payload) z (ty, payload)"
    and bad: "\<And>t e. e \<in> net_errors \<or> (\<forall>ty payload. frame_within ty payload \<longrightarrow> \<not> prefix t (frame ty payload)) \<Longrightarrow> E (h @ t) z e"
  shows "observed v R I Q E read_frame h z"
  unfolding read_frame_def read_frame_header_def observed_bind
proof (rule observed_read_exact, goal_cases)
  case (2 t)
  have len: "length t = 14" using 2 by (simp add: HEADER_SIZE_def)
  obtain n where n: "unat n = from_bytes (take 8 (drop 6 t))"
    and iff: "\<And>ty l. t = frame_header ty l \<longleftrightarrow> take 4 t = MAGIC \<and> t ! 4 = VERSION \<and> t ! 5 = ty \<and> n = l"
    using header_parts [OF len] by blast
  have small: "length p < 2 ^ 64" if "frame_within ty p" for ty p
    using that caps_bound by (fastforce simp: frame_within_def)
  have other: "E (h @ t) z e" if "\<And>ty p. frame_within ty p \<Longrightarrow> t \<noteq> frame_header ty (word_of_nat (length p))" for e
  proof (rule bad, intro disjI2 allI impI)
    fix ty p
    assume "frame_within ty p"
    then show "\<not> prefix t (frame ty p)" using that len by (auto simp: prefix_def frame_def)
  qed
  show ?case
  proof (cases "\<exists>p. frame_within (t ! 5) p \<and> t = frame_header (t ! 5) (word_of_nat (length p))")
    case False
    then have no: "E (h @ t) z e" for e using other iff by metis
    have "take 4 t = MAGIC \<and> t ! 4 = VERSION \<and> PAYLOAD_CAPS (t ! 5) = Some cap \<longrightarrow> cap < unat n" for cap
    proof (intro impI, rule ccontr)
      assume *: "take 4 t = MAGIC \<and> t ! 4 = VERSION \<and> PAYLOAD_CAPS (t ! 5) = Some cap" "\<not> cap < unat n"
      then have "frame_within (t ! 5) (replicate (unat n) 0)" by (simp add: frame_within_def)
      then show False using False iff [of "t ! 5" n] * by auto
    qed
    then show ?thesis using no n by (auto simp: Let_def)
  next
    case True
    then obtain p where p: "frame_within (t ! 5) p" "t = frame_header (t ! 5) (word_of_nat (length p))" by blast
    then have hd: "take 4 t = MAGIC" "t ! 4 = VERSION" "unat n = length p"
      using iff small [OF p(1)] u64_nat by metis+
    obtain cap where cap: "PAYLOAD_CAPS (t ! 5) = Some cap" "length p \<le> cap" using p(1) by (auto simp: frame_within_def)
    have "Q (h @ t @ q) z (t ! 5, q)" if "length q = length p" for q
      using good [of "t ! 5" q] p(2) that cap by (simp add: frame_within_def frame_def)
    then have "observed v R I (\<lambda>h z q. Q h z (t ! 5, q)) E
        (if length p \<noteq> 0 then read_exact_bytes (length p) else Return []) (h @ t) z"
      using inv [of "t @ _"] bad [of _ "t @ _"] by (auto intro!: observed_read_exact)
    then show ?thesis using hd cap n by (simp add: Let_def observed_bind split: if_splits)
  qed
qed (use inv bad in simp_all)

end

section \<open>A session among others\<close>

text \<open>What is noted of session \<open>i\<close> in a sequence of events, and the events since its latest turn began.\<close>

definition noted :: "'z noting \<Rightarrow> nat \<Rightarrow> event \<Rightarrow> 'z \<Rightarrow> 'z" where
  "noted v i e z = (case e of Called j a c r \<Rightarrow> if j = i then v a c r z else z | _ \<Rightarrow> z)"

definition gather :: "'z noting \<Rightarrow> nat \<Rightarrow> event list \<Rightarrow> 'z \<Rightarrow> 'z" where
  "gather v i es z = fold (noted v i) es z"

definition heard_by :: "nat \<Rightarrow> event list \<Rightarrow> bytes" where
  "heard_by i es = gather (\<lambda>a c r h. h @ heard_of a r) i es []"

definition turn_of :: "nat \<Rightarrow> event list \<Rightarrow> event list" where
  "turn_of i es = rev (takeWhile (\<lambda>e. e \<noteq> Turned i) (rev es))"

lemma gather_simps [simp]:
  "gather v i [] z = z" "gather v i (es @ es') z = gather v i es' (gather v i es z)"
  "gather v i (e # es) z = gather v i es (noted v i e z)"
  by (simp_all add: gather_def)

lemma noted_simps [simp]:
  "noted v i Accepted z = z" "noted v i (Turned j) z = z" "noted v i (Ended j) z = z"
  "noted v i (Called j a c r) z = (if j = i then v a c r z else z)"
  by (simp_all add: noted_def)

lemma gather_append:
  "gather (\<lambda>a c r x. x @ f a c r) i es x = x @ gather (\<lambda>a c r x. x @ f a c r) i es []"
proof (induction es arbitrary: x)
  case (Cons e es)
  let ?v = "\<lambda>a c r x. x @ f a c r"
  have "noted ?v i e x = x @ noted ?v i e []" by (cases e) simp_all
  then show ?case using Cons.IH [of "noted ?v i e x"] Cons.IH [of "noted ?v i e []"] by simp
qed simp

lemma turn_of_simps [simp]:
  "turn_of i [] = []" "turn_of i (es @ [e]) = (if e = Turned i then [] else turn_of i es @ [e])"
  by (simp_all add: turn_of_def)

lemma heard_by_simps [simp]:
  "heard_by i [] = []"
  "heard_by i (es @ [e]) = heard_by i es @ (case e of Called j a c r \<Rightarrow> if j = i then heard_of a r else [] | _ \<Rightarrow> [])"
  by (simp add: heard_by_def) (cases e; simp add: heard_by_def)

text \<open>A thread as the judgement sees it; \<open>J\<close> is what holds when the session has ended.\<close>

definition follows :: "'z noting \<Rightarrow> relying \<Rightarrow> (bytes \<Rightarrow> 'z \<Rightarrow> action \<Rightarrow> bool) \<Rightarrow> (bytes \<Rightarrow> 'z \<Rightarrow> bool) \<Rightarrow>
    (bytes \<Rightarrow> 'z \<Rightarrow> bool \<Rightarrow> bool) \<Rightarrow> (bytes \<Rightarrow> 'z \<Rightarrow> exc \<Rightarrow> bool) \<Rightarrow> thread \<Rightarrow> bytes \<Rightarrow> 'z \<Rightarrow> bool" where
  "follows v R I J Q E t h z = (case t of Running p \<Rightarrow> observed v R I Q E p h z | Finished \<Rightarrow> J h z)"

lemma follows_step:
  assumes "server_step hello turn s e s'" and i: "i < length (threads s)" and "e \<noteq> Turned i"
    and rely: "\<And>a c r S. perform i a c (mem s) = Some (r, S) \<Longrightarrow> R a c r"
    and weak: "\<And>h z go. Q h z go \<Longrightarrow> J h z" "\<And>h z x. E h z x \<Longrightarrow> J h z"
    and now: "follows v R I J Q E (threads s ! i) (heard_by i es) (gather v i es z)"
  shows "i < length (threads s') \<and> follows v R I J Q E (threads s' ! i) (heard_by i (es @ [e])) (gather v i (es @ [e]) z)"
  using assms(1)
proof cases
  case (called j a k c r S)
  then show ?thesis using i now rely by (cases "j = i") (simp_all add: follows_def)
next
  case (ended j)
  then show ?thesis using i now weak by (cases "j = i") (auto simp: follows_def)
next
  case (turned j)
  then show ?thesis using i now assms(3) by simp
qed (use i now in \<open>simp add: nth_append\<close>)

end
