(* ===== verification/Rtrv_Downloads.thy ===== *)
theory Rtrv_Downloads
  imports Rtrv_Observe
begin

text \<open>
  Downloads while other sessions run: the calls that a download makes about a published file are
  answered as if nothing else ran, and so what it sends is the answer for that file.
\<close>

section \<open>What a session says\<close>

text \<open>A send that fails may have sent a part of its data.\<close>

definition said_of :: "action \<Rightarrow> choice \<Rightarrow> bytes" where
  "said_of a c = (case a of SendAll bs \<Rightarrow> (case c of Fine \<Rightarrow> bs | Short k e \<Rightarrow> take k bs | _ \<Rightarrow> []) | _ \<Rightarrow> [])"

definition say :: "bytes noting" where
  "say a c r s = s @ said_of a c"

definition sent_by :: "nat \<Rightarrow> event list \<Rightarrow> bytes" where
  "sent_by i es = gather say i es []"

section \<open>The answers about a published file\<close>

fun agrees :: "string \<Rightarrow> nat \<Rightarrow> bytes \<Rightarrow> relying" where
  "agrees n i b (Recv m) c r \<longleftrightarrow> (\<exists>bs. r = Data bs \<and> length bs \<le> m) \<or> (\<exists>e \<in> net_errors. r = Err e)"
| "agrees n i b (SendAll bs) c r \<longleftrightarrow>
     c = Fine \<and> r = Done \<or> (\<exists>e \<in> net_errors. r = Err e \<and> (c = Break e \<or> (\<exists>k. c = Short k e)))"
| "agrees n i b (IsFile p) c r \<longleftrightarrow> (p = n \<longrightarrow> r = Yes True)"
| "agrees n i b (GetSize p) c r \<longleftrightarrow> (p = n \<longrightarrow> r = Num (length b) \<or> r = Err OsErr)"
| "agrees n i b (Sha256File p) c r \<longleftrightarrow> (p = n \<longrightarrow> r = Data (sha256 b) \<or> r = Err OsErr)"
| "agrees n i b (OpenRead p) c r \<longleftrightarrow> (p = n \<longrightarrow> r = Num i \<or> r = Err OsErr)"
| "agrees n i b (ReadAt j pos m) c r \<longleftrightarrow> (j = i \<longrightarrow> r = Data (take m (drop pos b)) \<or> r = Err OsErr)"
| "agrees n i b (Close j) c r \<longleftrightarrow> r = Done \<or> r = Err OsErr"
| "agrees n i b _ c r \<longleftrightarrow> True"

lemma perform_agrees:
  assumes "perform t a c S = Some (r, S')" and "entry S n = Some (Ino i)" and "inode S i = b"
  shows "agrees n i b a c r"
  using assms by (cases a) (auto simp: attempt_call_def file_of_def net_errors_def split: choice.splits if_splits)

interpretation downloading: receiver say "agrees n i b" for n i b
  by unfold_locales (auto simp: say_def said_of_def)

text \<open>The calls, one by one.\<close>

lemma OsErr_net: "OsErr \<in> net_errors"
  by (simp add: net_errors_def)

lemma observed_send:
  "observed say (agrees n i b) I Q E (perform_call (SendAll bs)) h s \<longleftrightarrow>
     I h s (SendAll bs) \<and> Q h (s @ bs) () \<and> (\<forall>e \<in> net_errors. \<forall>k. E h (s @ take k bs) e)"
proof
  assume "observed say (agrees n i b) I Q E (perform_call (SendAll bs)) h s"
  moreover have "heard_of (SendAll bs) r = []" for r by (simp add: heard_of_def)
  ultimately have "I h s (SendAll bs) \<and> (\<forall>c r. agrees n i b (SendAll bs) c r \<longrightarrow>
      (case r of Err e \<Rightarrow> E h (s @ said_of (SendAll bs) c) e | _ \<Rightarrow> Q h (s @ said_of (SendAll bs) c) ()))"
    by (simp only: observed_call say_def append_Nil2) blast
  then have start: "I h s (SendAll bs)" and answers: "agrees n i b (SendAll bs) c r \<Longrightarrow>
      (case r of Err e \<Rightarrow> E h (s @ said_of (SendAll bs) c) e | _ \<Rightarrow> Q h (s @ said_of (SendAll bs) c) ())" for c r
    by blast+
  have "Q h (s @ bs) ()" using answers [of Fine Done] by (simp add: said_of_def)
  moreover have "E h (s @ take k bs) e" if "e \<in> net_errors" for e k
    using answers [of "Short k e" "Err e"] that by (simp add: said_of_def)
  ultimately show "I h s (SendAll bs) \<and> Q h (s @ bs) () \<and> (\<forall>e \<in> net_errors. \<forall>k. E h (s @ take k bs) e)"
    using start by blast
next
  assume r: "I h s (SendAll bs) \<and> Q h (s @ bs) () \<and> (\<forall>e \<in> net_errors. \<forall>k. E h (s @ take k bs) e)"
  then have "E h s e" if "e \<in> net_errors" for e using that by (metis append_Nil2 take_0)
  then show "observed say (agrees n i b) I Q E (perform_call (SendAll bs)) h s"
    using r by (auto simp: observed_call heard_of_def say_def said_of_def)
qed

lemma observed_answers:
  "observed say (agrees n i b) I Qb E (call (IsFile n) yes) h s \<longleftrightarrow> I h s (IsFile n) \<and> Qb h s True"
  "observed say (agrees n i b) I Qn E (call (GetSize n) num) h s \<longleftrightarrow> I h s (GetSize n) \<and> Qn h s (length b) \<and> E h s OsErr"
  "observed say (agrees n i b) I Qd E (call (Sha256File n) data) h s \<longleftrightarrow> I h s (Sha256File n) \<and> Qd h s (sha256 b) \<and> E h s OsErr"
  "observed say (agrees n i b) I Qn E (call (OpenRead n) num) h s \<longleftrightarrow> I h s (OpenRead n) \<and> Qn h s i \<and> E h s OsErr"
  "observed say (agrees n i b) I Qd E (call (ReadAt i pos m) data) h s \<longleftrightarrow>
     I h s (ReadAt i pos m) \<and> Qd h s (take m (drop pos b)) \<and> E h s OsErr"
  "observed say (agrees n i b) I Q E (perform_call (Close j)) h s \<longleftrightarrow> I h s (Close j) \<and> Q h s () \<and> E h s OsErr"
  by (auto simp: observed_call heard_of_def say_def said_of_def)

section \<open>The programs of a download\<close>

lemma take_beyond: "take (length xs + k) (xs @ ys) = xs @ take k ys"
  by simp

lemma observed_send_file_loop:
  assumes "t = take remaining (drop pos b)" and "\<And>k a. I h (s @ take k t) a" and "Q h (s @ t) ()"
    and "\<And>k e. e \<in> net_errors \<Longrightarrow> E h (s @ take k t) e"
  shows "observed say (agrees nm i b) I Q E (send_file_loop i pos remaining) h s"
  using assms
proof (induction i pos remaining arbitrary: s t rule: send_file_loop.induct)
  case (1 i pos remaining)
  note t = 1(2) and inv = 1(3) and whole = 1(4) and errs = 1(5)
  show ?case
  proof (cases "0 < remaining")
    case False
    then show ?thesis using t whole by (subst send_file_loop.simps) simp
  next
    case True
    let ?c = "take (min 65536 remaining) (drop pos b)"
    let ?rest = "take (remaining - length ?c) (drop (pos + length ?c) b)"
    have split: "t = ?c @ ?rest"
    proof (cases "min 65536 remaining \<le> length (drop pos b)")
      case True
      then show ?thesis unfolding t using take_piece [of "min 65536 remaining" remaining "drop pos b"] by (simp add: add.commute)
    next
      case False
      then have "length (drop pos b) \<le> min 65536 remaining" by linarith
      then show ?thesis by (simp add: t)
    qed
    have empty: "t = []" if "?c = []" using that True t by (auto simp: min_def split: if_splits)
    have reach: "s @ take (length ?c + k) t = (s @ ?c) @ take k ?rest" for k
      using take_beyond [of ?c k ?rest] split by (metis append_assoc)
    have "observed say (agrees nm i b) I Q E (send_file_loop i (pos + length ?c) (remaining - length ?c)) h (s @ ?c)" if "?c \<noteq> []"
    proof (rule 1(1) [OF True that refl], goal_cases)
      case (1 k a)
      then show ?case using inv [of "length ?c + k"] unfolding reach .
    next
      case 2
      then show ?case using whole unfolding split append_assoc .
    next
      case (3 e k)
      then show ?case using errs [of e "length ?c + k"] unfolding reach by blast
    qed
    note loop = this
    have cut: "E h (s @ take k ?c) e" if "e \<in> net_errors" for e k
    proof -
      have "take k ?c = take (min k (length ?c)) t" by (subst split) (simp add: min_def)
      then show ?thesis using errs [OF that] by metis
    qed
    have now: "I h s a" "e \<in> net_errors \<Longrightarrow> E h s e" for e a using inv [of 0] errs [of e 0] by simp_all
    then show ?thesis
      using True loop empty whole OsErr_net cut
      by (subst send_file_loop.simps) (auto simp: observed_bind observed_answers observed_send simp del: take_take)
  qed
qed

text \<open>The handler: it sends the answer, or a part of it before an error.\<close>

lemma parse_name_request:
  "check_filename name \<Longrightarrow> parse_name (be_bytes 2 (word_of_nat (length name) :: u16) @ encode name) = Return (name, [])"
  using check_filename_props [of name] by (simp add: parse_name_def unat_of_nat Let_def)

lemma observed_handle_get:
  assumes name: "check_filename name" and sizes: "unat offset \<le> length b" "length b + 48 < 2 ^ 64" "length token = 8"
    and A: "A = get_answer b (unat offset) token" and inv: "\<And>k a. I h (take k A) a"
  shows "observed say (agrees name i b) I (\<lambda>h' s _. h' = h \<and> s = A) (\<lambda>h' s e. h' = h \<and> prefix s A \<and> e \<in> net_errors)
    (handle_get (get_request offset token name)) h []"
proof -
  define start where "start = (if unat offset \<noteq> 0 \<and> token = take 8 (sha256 b) then unat offset else 0)"
  define header where "header = frame_header RTRV_T_OK (word_of_nat (48 + (length b - start)))"
  define meta where "meta = get_meta (word_of_nat (length b)) (word_of_nat start) (sha256 b)"
  have start: "start \<le> length b" using sizes(1) by (simp add: start_def)
  have p: "length (get_request offset token name) = 18 + length name"
    "take 8 (get_request offset token name) = be_bytes 8 offset"
    "take 8 (drop 8 (get_request offset token name)) = token"
    "drop 16 (get_request offset token name) = be_bytes 2 (word_of_nat (length name) :: u16) @ encode name"
    using sizes(3) by (simp_all add: get_request_def)
  have parts: "A = header @ meta @ drop start b" unfolding A get_answer_def start_def header_def meta_def Let_def by simp
  have to8: "to_bytes 8 v = Return (be_bytes 8 (word_of_nat v :: u64))" if "v < 2 ^ 64" for v
    using that int_bytes_be [where 'a = 64, of 8 v] by (simp add: to_bytes_def)
  have wrote: "write_frame_header T_OK (GET_META + (length b - start)) = perform_call (SendAll header)"
    using sizes(2) by (simp add: write_frame_header_def to8 GET_META_def HASH_SIZE_def header_def frame_header_def same_wire)
  have fields: "be_bytes 8 (word_of_nat (length b) :: u64) @ be_bytes 8 (word_of_nat start :: u64) @ sha256 b = meta"
    by (simp add: meta_def get_meta_def)
  have at: "I h [] a" "I h header a" "I h (header @ meta) a" "I h (header @ meta @ take k (drop start b)) a" for k a
    using inv [of 0] inv [of "length header"] inv [of "length (header @ meta)"] inv [of "length (header @ meta) + _"]
    by (simp_all add: parts)
  have described: "bind (to_bytes 8 (length b)) (\<lambda>size_bytes. bind (to_bytes 8 start) (\<lambda>start_bytes.
      bind (perform_call (SendAll (size_bytes @ start_bytes @ sha256 b))) f)) = bind (perform_call (SendAll meta)) f"
    for f :: "unit \<Rightarrow> unit proc"
    using start sizes(2) by (simp add: to8 fields)
  have cuts: "prefix (take k header) (header @ meta @ drop start b)" "prefix (take k meta) (meta @ drop start b)" for k
    by (metis prefix_prefix take_is_prefix)+
  let ?Q = "\<lambda>h' s _. h' = h \<and> s = A" and ?E = "\<lambda>h' s e. h' = h \<and> prefix s A \<and> e \<in> net_errors"
  have body: "observed say (agrees name i b) I ?Q ?E (finally_do (send_file_loop i start (length b - start)) (perform_call (Close i)))
      h (header @ meta)"
    unfolding observed_finally
    by (rule observed_send_file_loop [where t = "drop start b"])
      (use at at(4) [of "length b"] OsErr_net in \<open>simp_all add: observed_answers parts take_is_prefix\<close>)
  have tail: "observed say (agrees name i b) I ?Q ?E
      (bind (write_frame_header T_OK (GET_META + (length b - start))) (\<lambda>_.
       bind (to_bytes 8 (length b)) (\<lambda>size_bytes.
       bind (to_bytes 8 start) (\<lambda>start_bytes.
       bind (perform_call (SendAll (size_bytes @ start_bytes @ sha256 b))) (\<lambda>_.
       bind (call (OpenRead name) num) (\<lambda>f.
       finally_do (send_file_loop f start (length b - start)) (perform_call (Close f)))))))) h []"
    using body at start sizes(2) OsErr_net
    unfolding wrote described observed_bind by (simp add: observed_answers observed_send parts cuts)
  have "start = (if unat offset \<noteq> 0 \<and> token = take TOKEN_SIZE (sha256 b) then unat offset else 0)"
    by (simp add: start_def TOKEN_SIZE_def)
  then show ?thesis
    using tail sizes(1,3) at(1) OsErr_net name
    by (simp add: handle_get_def p Let_def parse_name_request [OF name] GET_PREFIX_def TOKEN_SIZE_def observed_bind observed_answers)
qed

lemma send_error_eq:
  assumes "length msg < 65536"
  shows "send_error reason msg = perform_call (SendAll (frame RTRV_T_ERROR (error_payload reason msg)))"
proof -
  have "int_bytes 2 (length msg) = be_bytes 2 (word_of_nat (length msg) :: u16)"
    using assms by (intro int_bytes_be) simp_all
  moreover have "int_bytes 8 (Suc (Suc (Suc (length msg)))) = be_bytes 8 (word_of_nat (Suc (Suc (Suc (length msg)))) :: u64)"
    using assms by (intro int_bytes_be) simp_all
  ultimately show ?thesis
    using assms
    by (simp add: send_error_def pack_error_def to_bytes_def write_frame_def error_payload_def same_wire frame_def frame_header_def)
qed

text \<open>
  What a session may have sent after a request for a file: an initial part of the answer, and then
  perhaps an initial part of the report that something went wrong.
\<close>

definition failure_report :: bytes where
  "failure_report = frame RTRV_T_ERROR (error_payload E_INTERNAL ''internal server error'')"

definition answering :: "bytes \<Rightarrow> bytes \<Rightarrow> bool" where
  "answering A s \<longleftrightarrow> (\<exists>k l. s = take k A @ take l failure_report)"

lemma answering_report:
  assumes "prefix s A"
  shows "answering A (s @ take l failure_report)"
proof -
  have "s = take (length s) A" using assms by (auto simp: prefix_def)
  then show ?thesis unfolding answering_def by metis
qed

lemma answering_part: "prefix s A \<Longrightarrow> answering A s"
  using answering_report [of s A 0] by simp

lemma answering_whole_report: "prefix s A \<Longrightarrow> answering A (s @ failure_report)"
  using answering_report [of s A "length failure_report"] by simp

lemma observed_turn_get:
  assumes name: "check_filename name" and sizes: "unat offset \<le> length b" "length b + 48 < 2 ^ 64" "length token = 8"
    and A: "A = get_answer b (unat offset) token" and F: "F = frame RTRV_T_GET (get_request offset token name)"
  shows "observed say (agrees name i b) (\<lambda>h s a. h = F \<longrightarrow> answering A s)
    (\<lambda>h s go. h = F \<longrightarrow> answering A s \<and> (go \<longrightarrow> s = A)) (\<lambda>h s e. h = F \<longrightarrow> answering A s) session_turn [] []"
proof -
  let ?R = "agrees name i b" and ?I = "\<lambda>h s (a :: action). h = F \<longrightarrow> answering A s"
  let ?Q = "\<lambda>h s go. h = F \<longrightarrow> answering A s \<and> (go \<longrightarrow> s = A)" and ?E = "\<lambda>h s e. h = F \<longrightarrow> answering A s"
  let ?handler = "\<lambda>e. case e of FrameError reason message \<Rightarrow> quietly (send_error reason message)
     | TimeoutErr \<Rightarrow> Return False | ConnectionErr \<Rightarrow> Return False
     | _ \<Rightarrow> quietly (send_error E_INTERNAL ''internal server error'')"
  note part = answering_part
  have within: "frame_within RTRV_T_GET (get_request offset token name)"
    using sizes(3) check_filename_props(2) [OF name] caps(1) by (simp add: frame_within_def get_request_def)
  have any: "observed say ?R ?I ?Q ?E p h s" if "\<not> prefix h F" for p h s
    using observed_any [of ?I h ?Q ?E say ?R p "[]" s] append_prefixD [of h _ F] that by auto
  have handled: "observed say ?R ?I ?Q ?E (?handler e) h s" if "h = F \<longrightarrow> prefix s A" "e \<in> net_errors" for h s e
    using that(2) that(1) part answering_report [of s A] answering_whole_report [of s A]
    by (auto simp: net_errors_def quietly_def send_error_eq observed_bind observed_catch observed_send failure_report_def)
  have get: "observed say ?R ?I (\<lambda>h s _. h = F \<and> s = A) (\<lambda>h s e. h = F \<and> prefix s A \<and> e \<in> net_errors)
      (handle_get (get_request offset token name)) F []"
    using observed_handle_get [OF name sizes A, of ?I F] part by (simp add: take_is_prefix)
  show ?thesis
    unfolding session_turn_def guarded_def observed_catch observed_bind
  proof (rule downloading.observed_read_frame, goal_cases)
    case (2 ty payload)
    show ?case
    proof (cases "prefix (frame ty payload) F")
      case True
      then obtain u where "frame ty payload @ u = frame RTRV_T_GET (get_request offset token name) @ []"
        by (auto simp: prefix_def F)
      from frame_unique [OF this 2 within]
      have eqs: "ty = RTRV_T_GET" "payload = get_request offset token name" "frame ty payload = F" by (simp_all add: F)
      show ?thesis
        using part handled unfolding append_Nil eqs(3) unfolding eqs(1,2) by (auto simp: same_wire frame_types observed_bind intro!: observed_mono [OF get])
    next
      case False
      show ?thesis using any [OF False, of "catch _ ?handler"] by (simp add: observed_catch)
    qed
  next
    case (3 t e)
    then have "e \<in> net_errors \<or> \<not> prefix t F" using F within by auto
    then show ?case
      using any [of t "catch _ ?handler"] any handled [of t "[]" e] part by (auto simp: observed_catch)
  qed (simp add: answering_part)
qed

section \<open>A download among other sessions\<close>

context disciplined_server
begin

lemma follows_along:
  assumes "server_run hello turn s es s'" and "coherent s ts" and "filed (mem s) ts"
    and n: "\<not> glob_partial n" and "entry (mem s) n = Some (Ino h)" and "inode (mem s) h = b"
    and "i < length (threads s)" and "Turned i \<notin> set es"
    and weak: "\<And>x y go. Q x y go \<Longrightarrow> J x y" "\<And>x y e. E x y e \<Longrightarrow> J x y"
    and "follows say (agrees n h b) I J Q E (threads s ! i) [] []"
  shows "entry (mem s') n = Some (Ino h) \<and> inode (mem s') h = b \<and> i < length (threads s') \<and>
    follows say (agrees n h b) I J Q E (threads s' ! i) (heard_by i es) (sent_by i es)"
  using assms(1-3,5-8,11)
proof (induction rule: server_run.induct)
  case (more s es s' e s'')
  obtain ts' where ts': "coherent s' ts'" "filed (mem s') ts'"
    using filed_along [OF more(1,4,5)] by blast
  have now: "entry (mem s') n = Some (Ino h)" "inode (mem s') h = b" "i < length (threads s')"
    "follows say (agrees n h b) I J Q E (threads s' ! i) (heard_by i es) (gather say i es [])"
    using more(3) [OF more(4-8)] more(9,10) by (auto simp: sent_by_def)
  show ?case
    using published_entry_step [OF more(2) ts' n now(1)]
      follows_step [OF more(2) now(3) _ perform_agrees [OF _ now(1,2)] weak now(4)] now(2) more(9)
    by (auto simp: sent_by_def)
qed (simp add: sent_by_def)

end

lemma download_follows:
  assumes run: "server_run session_hello session_turn s es s'" "coherent s ts" "filed (mem s) ts"
    and turn: "i < length (threads s)" "threads s ! i = Running session_turn" "Turned i \<notin> set es"
    and name: "\<not> glob_partial name" "check_filename name" "file_of (mem s) name = Some b"
    and sizes: "unat offset \<le> length b" "length b + 48 < 2 ^ 64" "length token = 8"
    and heard: "heard_by i es = frame RTRV_T_GET (get_request offset token name)" and A: "A = get_answer b (unat offset) token"
  shows "answering A (sent_by i es) \<and> (threads s' ! i = Running (Return True) \<longrightarrow> sent_by i es = A)"
proof -
  obtain h where h: "entry (mem s) name = Some (Ino h)" "inode (mem s) h = b"
    using name(3) by (auto simp: file_of_entry)
  let ?F = "frame RTRV_T_GET (get_request offset token name)"
  let ?I = "\<lambda>h s (a :: action). h = ?F \<longrightarrow> answering A s" and ?J = "\<lambda>h s. h = ?F \<longrightarrow> answering A s"
  let ?Q = "\<lambda>h s go. h = ?F \<longrightarrow> answering A s \<and> (go \<longrightarrow> s = A)" and ?E = "\<lambda>h s (e :: exc). h = ?F \<longrightarrow> answering A s"
  have "follows say (agrees name h b) ?I ?J ?Q ?E (threads s ! i) [] []"
    using observed_turn_get [OF name(2) sizes A refl] turn(2) by (simp add: follows_def)
  from sessions.follows_along [OF run name(1) h turn(1,3) _ _ this]
  have reached: "follows say (agrees name h b) ?I ?J ?Q ?E (threads s' ! i) ?F (sent_by i es)" using heard by auto
  show ?thesis
  proof (cases "threads s' ! i")
    case (Running p)
    then show ?thesis using reached by (cases p) (auto simp: follows_def)
  qed (use reached in \<open>simp add: follows_def\<close>)
qed

section \<open>A session that runs alone\<close>

lemma trace_bytes:
  assumes "run p w = Some (r, w')"
  shows "concat (inbox w) = heard_by 0 (trace p w) @ concat (inbox w') \<and> sent w' = sent w @ sent_by 0 (trace p w)"
  using assms
proof (induction p arbitrary: w)
  case (Act a k)
  then obtain x w1 where step: "calm_step a w = Some (x, w1)" "run (k x) w1 = Some (r, w')"
    by (auto split: option.splits)
  have "concat (inbox w) = heard_of a x @ concat (inbox w1) \<and> sent w1 = sent w @ said_of a (calm_choice a x)"
    using step(1) by (cases a)
      (auto simp: heard_of_def said_of_def calm_choice_def split: list.splits option.splits prod.splits if_splits)
  moreover have "heard_by 0 (trace (Act a k) w) = heard_of a x @ heard_by 0 (trace (k x) w1)"
    "sent_by 0 (trace (Act a k) w) = said_of a (calm_choice a x) @ sent_by 0 (trace (k x) w1)"
    using step(1) gather_append [of "\<lambda>a c r. heard_of a r" 0 "trace (k x) w1" "heard_of a x"]
      gather_append [of "\<lambda>a c r. said_of a c" 0 "trace (k x) w1" "said_of a (calm_choice a x)"]
    by (simp_all add: heard_by_def sent_by_def say_def [abs_def])
  ultimately show ?case using Act.IH [OF _ step(2)] by simp
qed (auto simp: sent_by_def)

lemma trace_only_calls: "Turned i \<notin> set (trace p w)"
  by (induction p arbitrary: w) (simp_all split: option.split)

lemma lone_download:
  assumes "check_filename name" and "file_of S name = Some b"
    and sizes: "unat offset \<le> length b" "length b + 48 < 2 ^ 64" "length token = 8"
  shows "\<exists>es. server_run session_hello session_turn (serving S (Running session_turn)) es (serving S (Running (Return True))) \<and>
    Turned 0 \<notin> set es \<and> heard_by 0 es = frame RTRV_T_GET (get_request offset token name)"
proof -
  let ?F = "frame RTRV_T_GET (get_request offset token name)"
  let ?w = "\<lparr>inbox = [?F], sent = [], disk = S\<rparr>"
  have pieces: "[] \<notin> set (inbox ?w)" "concat (inbox ?w) = ?F @ []" by (simp_all add: frame_def frame_header_def)
  note turn = run_turn_get [OF pieces assms(1) _ sizes, simplified, OF assms(2)]
  have "length ?F = 32 + length name" using sizes(3) by (simp add: frame_def get_request_def)
  then have "heard_by 0 (trace session_turn ?w) = ?F" using trace_bytes [OF turn] by simp
  moreover have "Turned 0 \<notin> set (trace session_turn ?w)" by (rule trace_only_calls)
  moreover note run_is_server_run [OF turn, of session_hello session_turn]
  ultimately show ?thesis by auto
qed

end
