(* ===== verification/Rtrv_Uploads.thy ===== *)
theory Rtrv_Uploads
  imports Rtrv_Observe
begin

text \<open>
  Uploads while other sessions run: a session publishes a file only in the turn in which it has heard
  the request for it, and only when the hash that it has computed is the one of the request, all of
  its 32 bytes.
\<close>

section \<open>The hashes that a session has computed\<close>

definition hash_note :: "(string \<Rightarrow> bytes option) noting" where
  "hash_note a c r z = (case a of Sha256File p \<Rightarrow> (case r of Data d \<Rightarrow> z(p \<mapsto> d) | _ \<Rightarrow> z) | _ \<Rightarrow> z)"

definition hashes_by :: "nat \<Rightarrow> event list \<Rightarrow> string \<Rightarrow> bytes option" where
  "hashes_by i es = gather hash_note i es Map.empty"

fun sound :: relying where
  "sound (Recv m) c r \<longleftrightarrow> (\<exists>bs. r = Data bs \<and> length bs \<le> m) \<or> (\<exists>e \<in> net_errors. r = Err e)"
| "sound (Sha256File p) c r \<longleftrightarrow> (\<exists>d. r = Data d) \<or> (\<exists>e. r = Err e)"
| "sound _ c r \<longleftrightarrow> True"

lemma perform_sound: "perform t a c S = Some (r, S') \<Longrightarrow> sound a c r"
  by (cases a) (auto simp: attempt_call_def split: choice.splits if_splits option.splits)

interpretation uploading: receiver hash_note sound
  by unfold_locales (auto simp: hash_note_def)

section \<open>The programs of an upload\<close>

text \<open>
  What must hold before a call: a link gives a name to a partial that has the hash of the request
  for this name.
\<close>

definition asked_for :: "string \<Rightarrow> bytes \<Rightarrow> bytes \<Rightarrow> bool" where
  "asked_for name digest h \<longleftrightarrow> (\<exists>size body. h = frame RTRV_T_PUT (put_request size digest name) @ body)"

definition promised :: "bytes \<Rightarrow> (string \<Rightarrow> bytes option) \<Rightarrow> action \<Rightarrow> bool" where
  "promised h z a \<longleftrightarrow> (\<forall>p q. a = Link p q \<longrightarrow> (\<exists>d. asked_for q d h \<and> z p = Some d))"

abbreviation keeps_promise :: "'a proc \<Rightarrow> bytes \<Rightarrow> (string \<Rightarrow> bytes option) \<Rightarrow> bool" where
  "keeps_promise \<equiv> observed hash_note sound promised (\<lambda>_ _ _. True) (\<lambda>_ _ _. True)"

text \<open>A program that makes no link.\<close>

primrec no_link :: "'a proc \<Rightarrow> bool" where
  "no_link (Return x) \<longleftrightarrow> True"
| "no_link (Raise e) \<longleftrightarrow> True"
| "no_link (Act a k) \<longleftrightarrow> (\<forall>p q. a \<noteq> Link p q) \<and> (\<forall>r. no_link (k r))"

lemma no_link_bind [intro!]: "no_link p \<Longrightarrow> (\<And>x. no_link (f x)) \<Longrightarrow> no_link (bind p f)"
  by (induction p) auto

lemma no_link_catch [intro!]: "no_link p \<Longrightarrow> (\<And>e. no_link (g e)) \<Longrightarrow> no_link (catch p g)"
  by (induction p) auto

lemma no_link_finally [intro!]: "no_link p \<Longrightarrow> no_link q \<Longrightarrow> no_link (finally_do p q)"
  by (induction p) auto

lemma no_link_call [simp]: "no_link (call a f) \<longleftrightarrow> (\<forall>p q. a \<noteq> Link p q)"
  by (auto simp: call_def split: answer.split)

lemma no_link_keeps: "no_link p \<Longrightarrow> observed hash_note sound promised (\<lambda>h' _ _. prefix h h') (\<lambda>h' _ _. prefix h h') p h z"
proof (induction p arbitrary: h z)
  case (Act a k)
  have "observed hash_note sound promised (\<lambda>h' _ _. prefix h h') (\<lambda>h' _ _. prefix h h') (k r) (h @ heard_of a r) (hash_note a c r z)"
    for c r z
    by (rule observed_mono [OF Act.IH]) (use Act.prems in \<open>auto dest: append_prefixD\<close>)
  moreover have "promised h z a" for z using Act.prems by (simp add: promised_def)
  ultimately show ?case by simp
qed simp_all

lemma no_link_promise: "no_link p \<Longrightarrow> keeps_promise p h z"
  by (rule observed_mono [OF no_link_keeps]) simp_all

lemma promise_bind:
  assumes "no_link p" and "\<And>x h' z. prefix h h' \<Longrightarrow> keeps_promise (f x) h' z"
  shows "keeps_promise (bind p f) h z"
  unfolding observed_bind by (rule observed_mono [OF no_link_keeps [OF assms(1)]]) (simp_all add: assms(2))

lemma promise_finally:
  assumes "keeps_promise p h z" and "no_link q"
  shows "keeps_promise (finally_do p q) h z"
  unfolding observed_finally by (rule observed_mono [OF assms(1)]) (simp_all add: no_link_promise [OF assms(2)])

lemma no_link_read_exact_more: "no_link (read_exact_more n acc)"
proof (induction n acc rule: read_exact_more.induct)
  case (1 n acc)
  then show ?case by (subst read_exact_more.simps) auto
qed

lemma no_link_upload_loop: "no_link (upload_loop f pos n)"
proof (induction f pos n rule: upload_loop.induct)
  case (1 f pos n)
  then show ?case by (subst upload_loop.simps) auto
qed

lemma no_link_send_file_loop: "no_link (send_file_loop f pos n)"
proof (induction f pos n rule: send_file_loop.induct)
  case (1 f pos n)
  then show ?case by (subst send_file_loop.simps) auto
qed

lemma no_link_frames [simp]:
  "no_link (to_bytes n v)" "no_link (write_frame_header ty n)" "no_link (write_frame ty p)"
  "no_link (send_error reason msg)" "no_link read_frame"
  by (auto simp: to_bytes_def write_frame_header_def write_frame_def send_error_def pack_error_def read_frame_def
      read_frame_header_def read_exact_bytes_def no_link_read_exact_more Let_def)

lemma no_link_quietly: "no_link p \<Longrightarrow> no_link (quietly p)"
  by (auto simp: quietly_def)

lemma no_link_handlers: "no_link handle_list" "no_link (handle_get payload)"
  by (auto simp: handle_list_def encode_names_eq handle_get_def Let_def parse_name_def no_link_send_file_loop)

lemma asked_for_prefix: "asked_for q d h \<Longrightarrow> prefix h h' \<Longrightarrow> asked_for q d h'"
  unfolding asked_for_def prefix_def by (metis append_assoc)

lemma promise_publish:
  assumes "asked_for name digest h"
  shows "keeps_promise (publish_upload name partial digest) h z"
proof -
  have link: "keeps_promise
      (bind (catch (bind (perform_call (Link partial name)) (\<lambda>_. Return True))
                   (\<lambda>e. if e = FileExistsErr then Return False else Raise e)) (\<lambda>linked.
       if \<not> linked then
         bind (perform_call (Remove partial)) (\<lambda>_. send_error E_ALREADY_EXISTS ''file already exists on server'')
       else bind (perform_call (Remove partial)) (\<lambda>_. write_frame T_OK []))) h z"
    if "z partial = Some digest" for z
    using assms that
    by (auto simp: observed_bind observed_catch observed_call promised_def split: answer.split intro!: no_link_promise [unfolded observed_bind])
  have quiet: "heard_of a r = []" "hash_note a c r z = z"
    if "\<exists>p i pos n. a = OpenRead p \<or> a = ReadAt i pos n \<or> a = Close i" for a c r z
    using that by (auto simp: heard_of_def hash_note_def)
  have read: "keeps_promise (bind (call (OpenRead partial) num) (\<lambda>f.
      bind (finally_do (call (ReadAt f 0 8) data) (perform_call (Close f))) (\<lambda>_. p))) h z"
    if "keeps_promise p h z" for p :: "unit proc" and z
    using that by (auto simp: observed_bind observed_finally observed_call promised_def quiet split: answer.split)
  have refuse: "keeps_promise (bind (perform_call (Remove partial)) (\<lambda>_. send_error reason msg)) h z" for reason msg z
    by (rule no_link_promise) auto
  show ?thesis
    unfolding publish_upload_def observed_bind [of _ _ _ _ _ "call (Sha256File partial) data"] observed_call
    using read [OF link] refuse by (auto simp: promised_def heard_of_def hash_note_def)
qed

lemma promise_receive:
  assumes "asked_for name digest h"
  shows "keeps_promise (receive_upload name partial n digest) h z"
  unfolding receive_upload_def
  by (intro promise_bind promise_publish)
    (use assms in \<open>auto simp: no_link_upload_loop intro: asked_for_prefix\<close>)

lemma promise_admit:
  assumes "asked_for name digest h"
  shows "keeps_promise (admit_upload name partial n digest) h z"
  unfolding admit_upload_def
proof (rule promise_bind, goal_cases)
  case (2 admitted h' z)
  have "keeps_promise (finally_do (receive_upload name partial n digest) (with_lock (perform_call (FlightDiscard partial)))) h' z"
    by (intro promise_finally promise_receive asked_for_prefix [OF assms 2]) (auto simp: with_lock_def)
  then show ?case by simp
qed (auto simp: with_lock_def)

text \<open>The payload of a PUT frame that the handler accepts is a request.\<close>

lemma put_request_payload:
  assumes "PUT_PREFIX \<le> length payload" and "parse_name (drop (8 + HASH_SIZE) payload) = Return (name, [])"
    and "check_filename name"
  shows "\<exists>size. payload = put_request size (take HASH_SIZE (drop 8 payload)) name"
proof -
  define bs where "bs = drop (8 + HASH_SIZE) payload"
  let ?n = "from_bytes (take 2 bs)"
  have parsed: "2 \<le> length bs" "length bs = 2 + ?n" "name = decode_replace (drop 2 bs)"
    using assms(2) by (auto simp: parse_name_def bs_def [symmetric] Let_def split: if_splits)
  have "be_bytes 2 (word_of_nat (from_bytes q) :: u16) = q" if "length q = 2" for q :: bytes
  proof -
    have "from_bytes q = unat (be_val q :: u16)" using unat_be_val [where 'a = 16, of q] that by simp
    then have "(word_of_nat (from_bytes q) :: u16) = be_val q" by simp
    then show ?thesis using be_bytes_be_val [where 'a = 16, of q] that by simp
  qed
  then have two: "be_bytes 2 (word_of_nat (length name) :: u16) = take 2 bs"
    using parsed by (simp add: decode_replace_def)
  have "of_char (if b < 128 then char_of (unat b) else char_of (255 :: nat)) = b" if "b \<in> set (drop 2 bs)" for b :: byte
  proof -
    have "(if b < 128 then char_of (unat b) else char_of (255 :: nat)) \<in> set name"
      using that unfolding parsed(3) decode_replace_def by auto
    then have "(of_char (if b < 128 then char_of (unat b) else char_of (255 :: nat)) :: nat) < 127"
      using assms(3) by (auto simp: check_filename_def list_all_iff split: if_splits)
    then have "b < 128" by (auto split: if_splits)
    moreover have "(of_char (char_of (unat b)) :: byte) = of_nat (of_char (char_of (unat b)))"
      by (simp only: of_nat_of_char)
    moreover have "unat b < 256" using unsigned_less [of b, where 'a = nat] by simp
    ultimately show ?thesis by simp
  qed
  then have "encode name = drop 2 bs" unfolding parsed(3) decode_replace_def by (simp add: map_idI)
  moreover have "be_bytes 8 (be_val (take 8 payload) :: u64) = take 8 payload"
    using be_bytes_be_val [where 'a = 64, of "take 8 payload"] assms(1) by (simp add: PUT_PREFIX_def)
  moreover have "drop HASH_SIZE (drop 8 payload) = take 2 bs @ drop 2 bs"
    unfolding append_take_drop_id bs_def by (simp add: add.commute)
  ultimately have "put_request (be_val (take 8 payload)) (take HASH_SIZE (drop 8 payload)) name =
      take 8 payload @ take HASH_SIZE (drop 8 payload) @ drop HASH_SIZE (drop 8 payload)"
    using two unfolding put_request_def by metis
  then have "payload = put_request (be_val (take 8 payload)) (take HASH_SIZE (drop 8 payload)) name"
    by (simp only: append_take_drop_id)
  then show ?thesis by blast
qed

lemma promise_handle_put:
  assumes "h = frame RTRV_T_PUT payload"
  shows "keeps_promise (handle_put payload) h z"
proof -
  have parse: "(\<exists>name rest. parse_name bs = Return (name, rest)) \<or> (\<exists>e. parse_name bs = Raise e)" for bs
    by (simp add: parse_name_def Let_def)
  show ?thesis
  proof (cases "\<exists>name. PUT_PREFIX \<le> length payload \<and> parse_name (drop (8 + HASH_SIZE) payload) = Return (name, []) \<and> check_filename name")
    case True
    then obtain name where name: "PUT_PREFIX \<le> length payload" "parse_name (drop (8 + HASH_SIZE) payload) = Return (name, [])"
      "check_filename name" by blast
    then have "asked_for name (take HASH_SIZE (drop 8 payload)) h"
      using put_request_payload [OF name] unfolding asked_for_def assms by (metis append_Nil2)
    note admit = promise_admit [OF asked_for_prefix [OF this]]
    have "keeps_promise (bind (call (Exists name) yes) (\<lambda>taken.
        if taken then send_error E_ALREADY_EXISTS ''file already exists on server''
        else admit_upload name (partial_name name (take HASH_SIZE (drop 8 payload))) (from_bytes (take 8 payload))
          (take HASH_SIZE (drop 8 payload)))) h z"
    proof (rule promise_bind, goal_cases)
      case (2 taken h' z)
      then show ?case using admit [OF 2] by (simp add: no_link_promise)
    qed simp
    then show ?thesis using name by (simp add: handle_put_def Let_def no_link_promise)
  next
    case False
    then show ?thesis using parse [of "drop (8 + HASH_SIZE) payload"]
      by (elim disjE exE) (simp_all add: handle_put_def Let_def no_link_promise)
  qed
qed

lemma promise_turn: "keeps_promise session_turn [] Map.empty"
proof -
  let ?handler = "\<lambda>e. case e of FrameError reason message \<Rightarrow> quietly (send_error reason message)
     | TimeoutErr \<Rightarrow> Return False | ConnectionErr \<Rightarrow> Return False
     | _ \<Rightarrow> quietly (send_error E_INTERNAL ''internal server error'')"
  have handled: "keeps_promise (?handler e) h z" for e h z
    by (rule no_link_promise) (simp add: no_link_quietly split: exc.split)
  have commands: "observed hash_note sound promised (\<lambda>_ _ _. True) (\<lambda>h z e. keeps_promise (?handler e) h z)
      (if ty = T_QUIT then bind (write_frame T_OK []) (\<lambda>_. Return False)
       else if ty = T_LIST then bind handle_list (\<lambda>_. Return True)
       else if ty = T_GET then bind (handle_get payload) (\<lambda>_. Return True)
       else if ty = T_PUT then bind (handle_put payload) (\<lambda>_. Return True)
       else Raise (FrameError E_MALFORMED ''expected a command frame'')) (frame ty payload) z" for ty payload z
  proof (cases "ty = T_PUT")
    case True
    then have "keeps_promise (handle_put payload) (frame ty payload) z"
      by (intro promise_handle_put) (simp add: same_wire)
    then show ?thesis
      using True by (auto simp: same_wire frame_types observed_bind handled elim!: observed_mono)
  next
    case False
    show ?thesis
      by (rule observed_mono [OF no_link_promise]) (use False handled in \<open>auto simp: no_link_handlers\<close>)
  qed
  show ?thesis
    unfolding session_turn_def guarded_def observed_catch observed_bind
    by (rule uploading.observed_read_frame) (use commands handled in \<open>auto simp: promised_def\<close>)
qed

lemma promise_hello: "keeps_promise session_hello [] Map.empty"
  by (rule no_link_promise) (auto simp: session_hello_def guarded_def no_link_quietly split: exc.split)

section \<open>Publications among other sessions\<close>

text \<open>What a thread knows of the hash of its partial, it has computed in this turn.\<close>

definition vouched :: "auth list \<Rightarrow> event list \<Rightarrow> bool" where
  "vouched ts es \<longleftrightarrow> (\<forall>i < length ts. \<forall>p d. sealed (ts ! i) = Some d \<longrightarrow> held (ts ! i) = Some p \<longrightarrow>
     hashes_by i (turn_of i es) p = Some d)"

lemma sealed_holding:
  assumes "sealed (holding t a r) = Some d" and "held (holding t a r) = Some p"
    and "permitted t a" and "sealed t \<noteq> None \<longrightarrow> held t \<noteq> None \<and> stream t = None"
  shows "a = Sha256File p \<and> r = Data d \<or> sealed t = Some d \<and> held t = Some p \<and> hash_note a c r z p = z p"
  using assms by (cases a) (auto simp: hash_note_def split: answer.splits if_splits)

lemma sealed_facts:
  assumes "coherent s ts" and "filed (mem s) ts" and "i < length ts" and "sealed (ts ! i) \<noteq> None"
  shows "held (ts ! i) \<noteq> None \<and> stream (ts ! i) = None"
proof (cases "linked (ts ! i)")
  case None
  then show ?thesis using assms(4) filedD(3) [OF assms(2,3)] by fastforce
next
  case (Some q)
  then show ?thesis using coherentD(3) [OF assms(1,3)] by (auto simp: owns_def)
qed

lemma vouched_other:
  assumes "vouched ts es" and "e = Accepted \<or> (\<exists>i. e = Ended i)"
  shows "vouched ts (es @ [e])"
  using assms by (auto simp: vouched_def hashes_by_def)

lemma vouched_called:
  assumes co: "coherent s ts" and fd: "filed (mem s) ts" and "vouched ts es" and i: "i < length ts" and "permitted (ts ! i) a"
  shows "vouched (ts[i := holding (ts ! i) a r]) (es @ [Called i a c r])"
  unfolding vouched_def length_list_update
proof (intro allI impI)
  fix j p d
  assume j: "j < length ts" and d: "sealed (ts[i := holding (ts ! i) a r] ! j) = Some d" "held (ts[i := holding (ts ! i) a r] ! j) = Some p"
  let ?z = "hashes_by j (turn_of j es)"
  have old: "sealed (ts ! j) = Some d \<Longrightarrow> held (ts ! j) = Some p \<Longrightarrow> ?z p = Some d"
    using assms(3) j by (simp add: vouched_def)
  have new: "hashes_by j (turn_of j (es @ [Called i a c r])) = (if i = j then hash_note a c r ?z else ?z)"
    by (simp add: hashes_by_def)
  show "hashes_by j (turn_of j (es @ [Called i a c r])) p = Some d"
  proof (cases "i = j")
    case True
    have "a = Sha256File p \<and> r = Data d \<or> sealed (ts ! j) = Some d \<and> held (ts ! j) = Some p \<and> hash_note a c r ?z p = ?z p"
      using sealed_holding [of "ts ! j" a r d p c ?z] d assms(5) sealed_facts [OF co fd j] True j by auto
    then show ?thesis unfolding new using True old by (auto simp: hash_note_def)
  next
    case False
    then show ?thesis using d old unfolding new by simp
  qed
qed

text \<open>A server whose two programs keep the promise about links.\<close>

locale promising_server = disciplined_server +
  assumes hello_promise: "keeps_promise hello [] Map.empty" and turn_promise: "keeps_promise turn [] Map.empty"
begin

definition watched :: "sys \<Rightarrow> event list \<Rightarrow> nat \<Rightarrow> bool" where
  "watched s es i \<longleftrightarrow>
     (if i < length (threads s)
      then follows hash_note sound promised (\<lambda>_ _. True) (\<lambda>_ _ _. True) (\<lambda>_ _ _. True) (threads s ! i)
        (heard_by i (turn_of i es)) (hashes_by i (turn_of i es))
      else heard_by i (turn_of i es) = [] \<and> hashes_by i (turn_of i es) = Map.empty)"

lemma watched_step:
  assumes "server_step hello turn s e s'" and "watched s es i"
  shows "watched s' (es @ [e]) i"
proof (cases "i < length (threads s)")
  case True
  show ?thesis
  proof (cases "e = Turned i")
    case True
    with assms(1) show ?thesis
      by cases (use turn_promise in \<open>auto simp: watched_def follows_def hashes_by_def\<close>)
  next
    case False
    have "follows hash_note sound promised (\<lambda>_ _. True) (\<lambda>_ _ _. True) (\<lambda>_ _ _. True) (threads s ! i)
        (heard_by i (turn_of i es)) (gather hash_note i (turn_of i es) Map.empty)"
      using assms(2) True by (simp add: watched_def hashes_by_def)
    from follows_step [OF assms(1) True False perform_sound _ _ this]
    show ?thesis using False by (auto simp: watched_def hashes_by_def)
  qed
next
  case False
  with assms(1) show ?thesis
    by cases (use assms(2) False hello_promise in \<open>auto simp: watched_def follows_def hashes_by_def nth_append less_Suc_eq\<close>)
qed

lemma watched_run:
  assumes "server_run hello turn s es s'" and "threads s = []"
  shows "watched s' es i"
  using assms
proof (induction rule: server_run.induct)
  case (more s es s' e s'')
  then show ?case using watched_step by blast
qed (simp add: watched_def hashes_by_def)

lemma vouched_step:
  assumes "server_step hello turn s e s'" and co: "coherent s ts" and fd: "filed (mem s) ts" and v: "vouched ts es"
  shows "vouched (auth_after ts e) (es @ [e])"
  using assms(1)
proof cases
  case accepted
  have "vouched ts (es @ [Accepted])" by (rule vouched_other [OF v]) simp_all
  then show ?thesis using accepted by (auto simp: vouched_def auth_after_def nth_append less_Suc_eq idle_def)
next
  case (called i a k c r S)
  have "i < length ts" using called coherentD(1) [OF co] by simp
  then show ?thesis
    using vouched_called [OF co fd v _ coherent_called(1) [OF co called(3-5)]] called by (simp add: auth_after_def)
next
  case (turned i)
  have "i < length ts" using turned coherentD(1) [OF co] by simp
  then have "ts ! i = idle" using coherentD(2) [OF co] turned by fastforce
  then show ?thesis using v turned by (auto simp: vouched_def auth_after_def hashes_by_def idle_def)
next
  case (ended i x)
  then show ?thesis using vouched_other [OF v, of e] by (simp add: auth_after_def)
qed

lemma vouched_run:
  assumes "server_run hello turn s es s'" and "started s" and "tidy (mem s)"
  shows "\<exists>ts. coherent s' ts \<and> filed (mem s') ts \<and> vouched ts es"
  using assms
proof (induction rule: server_run.induct)
  case (start s)
  then show ?case using filed_started by (intro exI [of _ "[]"]) (simp add: vouched_def)
next
  case (more s es s' e s'')
  then obtain ts where ts: "coherent s' ts" "filed (mem s') ts" "vouched ts es" by blast
  then show ?case using filed_step [OF more(2) ts(1,2)] vouched_step [OF more(2) ts] by blast
qed

text \<open>A link publishes what the session was asked for.\<close>

lemma link_as_asked:
  assumes run: "server_run hello turn s es s'" "started s" "tidy (mem s)"
    and link: "server_step hello turn s' (Called i (Link p q) c Done) s''"
  shows "\<exists>b. p = partial_name q (sha256 b) \<and> file_of (mem s'') q = Some b \<and> asked_for q (sha256 b) (heard_by i (turn_of i es))"
proof -
  obtain ts where ts: "coherent s' ts" "filed (mem s') ts" "vouched ts es" using vouched_run [OF run] by blast
  obtain b where b: "i < length ts" "held (ts ! i) = Some p" "sealed (ts ! i) = Some (sha256 b)"
    "p = partial_name q (sha256 b)" "file_of (mem s'') q = Some b"
    using publication [OF link ts(1,2)] by blast
  have hash: "hashes_by i (turn_of i es) p = Some (sha256 b)" using ts(3) b(1-3) by (simp add: vouched_def)
  from link obtain k where "i < length (threads s')" "threads s' ! i = Running (Act (Link p q) k)" by cases simp
  then have "promised (heard_by i (turn_of i es)) (hashes_by i (turn_of i es)) (Link p q)"
    using watched_run [OF run(1), of i] run(2) by (simp add: watched_def follows_def started_def)
  then show ?thesis using hash b(4,5) by (auto simp: promised_def)
qed

lemma published_origin:
  assumes run: "server_run hello turn s es s'" "started s" "tidy (mem s)"
    and n: "\<not> glob_partial n" "file_of (mem s') n = Some b"
  shows "file_of (mem s) n = Some b \<or>
    (\<exists>es1 i c es2. es = es1 @ Called i (Link (partial_name n (sha256 b)) n) c Done # es2 \<and>
       asked_for n (sha256 b) (heard_by i (turn_of i es1)))"
  using run n(2)
proof (induction rule: server_run.induct)
  case (more s es s' e s'')
  obtain ts where ts: "coherent s' ts" "filed (mem s') ts" using filed_run [OF more(1,4,5)] by blast
  show ?case
  proof (cases "file_of (mem s') n")
    case None
    then obtain i p c where e: "e = Called i (Link p n) c Done"
      using appears_by_link [OF more(2) ts(1) n(1)] more(6) by blast
    from link_as_asked [OF more(1,4,5), of i p n c s''] more(2,6) e
    have "p = partial_name n (sha256 b) \<and> asked_for n (sha256 b) (heard_by i (turn_of i es))" by auto
    then show ?thesis using e by blast
  next
    case (Some b')
    then have "b' = b" using published_kept_step [OF more(2) ts n(1)] more(6) by simp
    then show ?thesis
      using more(3) [OF more(4,5)] Some by (auto simp del: append_assoc) (metis append.assoc append_Cons)
  qed
qed auto

end

interpretation promising: promising_server session_hello session_turn
  by unfold_locales (rule promise_hello promise_turn)+

end
