(* ===== verification/Spec2Isabelle.thy ===== *)
theory Spec2Isabelle
  imports Rtrv_Sha_Vectors Rtrv_Py_Fields Rtrv_Py_Properties Rtrv_Downloads Rtrv_Uploads
begin

text \<open>
  Retriever is a file transfer program: a server offers the files of one directory over TCP, and a
  client lists, downloads and uploads them with a small framed protocol (\<open>docs/PROTOCOL.md\<close>, version 3).
  Interrupted transfers resume: a download that stops leaves a hidden partial file whose name carries
  the first eight bytes of the file's SHA-256, and the next attempt offers that many bytes back. This
  development verifies the C client, all seven files under \<open>src/c\<close>, and the Python programs under
  \<open>src/retriever\<close>: the server (\<open>server.py\<close>), the other client (\<open>client.py\<close>) and what they share
  (\<open>protocol.py\<close>).

  \<^bold>\<open>The C client and its model.\<close> The client is built in layers, and each layer is a theory.

  \<^item> \<open>Rtrv_Prelude\<close>: the types (bytes, 16-, 32- and 64-bit words, C arrays as lists), stores and reads in
    an array with their bounds (outside is \<open>None\<close>), and the three outcomes of a C function: a value, the
    error return, undefined behaviour.
  \<^item> \<open>Rtrv_Bytes\<close> (\<open>frame.c\<close>, the \<open>rtrv_put_\<close> and \<open>rtrv_get_\<close> functions): big-endian fields. The locale
    \<open>packed_field\<close> is their contract, interpreted for the 16- and the 64-bit accessors.
  \<^item> \<open>Rtrv_Sha_Spec\<close>: SHA-256 as FIPS 180-4 defines it, by equations over whole messages (the table \<open>K\<close> is
    shared with the code and justified by C37).
    \<open>Rtrv_Sha256\<close> (\<open>sha256.h\<close>, \<open>sha256.c\<close>): the context record, the block routine, \<open>init\<close>, \<open>update\<close>,
    \<open>final\<close>; the locale \<open>stream_hash\<close> is the contract of a streaming hash, interpreted for these three.
    \<open>Rtrv_Hash_File\<close>: \<open>sha256_file\<close>, \<open>sha256_hex\<close>. \<open>Rtrv_Sha_Vectors\<close>: the published digest of \<open>abc\<close>, by
    evaluation of the C model.
  \<^item> \<open>Rtrv_Posix\<close>: the calls of the operating system and the C library that the client makes. A \<open>world\<close>
    record holds the stream still to be received, cut into pieces, interruptions and errors; the bytes
    sent and what \<open>send\<close> will accept; the files; a list of coming failures of library calls; counters
    of live allocations and open files; the messages printed. A function with effects is a \<open>cmd\<close>, a
    function from a world to an outcome and a world, and \<open>wp\<close> is its weakest precondition. The locale
    \<open>keyed_store\<close> is what the proofs use of the files.
  \<^item> \<open>Rtrv_Frame\<close> (\<open>frame.c\<close>): exact reads, complete writes, frame headers, frames, ERROR reports. The
    locale \<open>byte_source\<close> says that a stream is its bytes, whatever the pieces.
  \<^item> \<open>Rtrv_Paths\<close> (\<open>transfer.c\<close>): \<open>rtrv_split_path\<close>, \<open>rtrv_partial_name\<close>, \<open>rtrv_find_partial\<close>, with \<open>snprintf\<close>,
    \<open>strrchr\<close>, \<open>sscanf\<close> and the resolution of a path to a file.
  \<^item> \<open>Rtrv_Get\<close> and \<open>Rtrv_Put\<close> (\<open>transfer.c\<close>): \<open>rtrv_do_get\<close> and \<open>rtrv_do_put\<close>, in the phases of their code,
    with every early return. \<open>Rtrv_Resume\<close>: what a download does when nothing disturbs it, and how an
    interrupted download and the next one compose.
  \<^item> \<open>Rtrv_Session\<close> (\<open>frame.c\<close>, \<open>main.c\<close>, \<open>sha256_main.c\<close>): \<open>rtrv_connect\<close> with the answer of the resolver as
    a parameter, the handshake, LIST, QUIT, the command line, \<open>main\<close>, and the test harness of the hash.

  \<^bold>\<open>The server and its model.\<close> A server thread runs one session per connection; the sessions share the
  served directory, the set of uploads in flight and the lock that guards it.

  \<^item> \<open>Rtrv_Py\<close>: a Python function is a tree of system calls with a continuation for every answer;
    exceptions are leaves, and \<open>bind\<close>, \<open>catch\<close> and \<open>finally_do\<close> are sequencing, \<open>try\<close>/\<open>except\<close> and \<open>finally\<close>.
    \<open>perform\<close> is the effect of one call on the shared memory, for a choice of the environment (what
    arrives, what fails). The directory has inodes, since publication makes a hard link. \<open>run\<close> executes
    one thread alone when nothing fails. Text is modelled as UTF-8, with names that are not.
  \<^item> \<open>Rtrv_Server\<close> (\<open>protocol.py\<close>, \<open>server.py\<close>): frames, names, the handlers of LIST, GET and PUT, the
    handshake \<open>session_hello\<close> and one turn \<open>session_turn\<close> of the command loop of \<open>handle_client\<close>.
    \<open>Rtrv_Py_Fields\<close>: the functions of \<open>protocol.py\<close> that no program relies on any more, with the locale
    \<open>wire_int\<close> for an integer that is sent and received, interpreted for the three widths.
  \<^item> \<open>Rtrv_Server_Run\<close>: what a session does when it runs alone, in the terms of the C client's frames.
    \<open>Rtrv_Serve\<close>: the whole of \<open>handle_client\<close>, with its loop, for a session whose calls do not fail for outside
    reasons (failing sends, receives and file operations are in the model of the threads). \<open>Rtrv_System\<close>: the C program and such a session,
    each on the bytes that the other sends.
  \<^item> \<open>Rtrv_Start\<close>: the command line of the server, the listening socket and the sweep of old partials.
  \<^item> \<open>Rtrv_Threads\<close>: the system of threads (\<open>start_server\<close>, \<open>_serve\<close>) as an inductive step relation in
    which any session makes its next call with any answer, and a static discipline on programs: who
    may put a partial in flight, open it, write to it, remove it or link it, and that the lock is
    released on every way out. All handlers keep it.
  \<^item> \<open>Rtrv_Concurrent\<close>: the locale \<open>disciplined_server\<close> derives from the discipline alone what holds under
    every interleaving, by an invariant between what the threads hold and the shared memory; it is
    interpreted for the two programs of a session. \<open>Rtrv_Trace\<close>: a session that runs alone is one of
    these runs.
  \<^item> \<open>Rtrv_Observe\<close>: what a session hears, and what else an observer notes of it, among the others; \<open>observed\<close>
    is a judgement on programs under a condition on the answers, and the locale \<open>receiver\<close> is what the
    receiving functions need of that condition. \<open>Rtrv_Downloads\<close> interprets it with the bytes sent as the note,
    \<open>Rtrv_Uploads\<close> with the hashes computed; there the locale \<open>promising_server\<close> extends \<open>disciplined_server\<close> by
    what a session must have been asked for when it publishes a file.

  \<^bold>\<open>The Python client and its model.\<close> It runs in the same worlds as the C client, so that the two can be
  compared and can follow each other.

  \<^item> \<open>Rtrv_Py_World\<close>: computations that end with a value, an exception or \<open>SystemExit\<close>, with \<open>wpy\<close> as their
    weakest precondition; the functions of \<open>protocol.py\<close> that only talk to the socket are the server's,
    performed on the socket of the world.
  \<^item> \<open>Rtrv_Py_Client\<close> (\<open>client.py\<close>, \<open>protocol.py\<close>): text as UTF-8, the search for a partial with \<open>glob\<close>, the
    three commands, the goodbye, and \<open>main\<close> with its exception handlers and exit codes.
  \<^item> \<open>Rtrv_Py_Paths\<close>, \<open>Rtrv_Py_Get\<close>, \<open>Rtrv_Py_Put\<close>, \<open>Rtrv_Py_Program\<close>: its partials, its download, its upload and
    listing, and the whole program against a session of the server.
  \<^item> \<open>Rtrv_Handover\<close>: the locale \<open>downloader\<close> is what a download must promise for the next one to build on
    it, and \<open>handover\<close>, which joins two of them, derives that the second completes what the first left.
    Both clients are downloaders, and all four pairs of them are interpreted.
  \<^item> \<open>Rtrv_Py_Properties\<close>: the theorems on the Python client and the start of the server.
    \<open>Rtrv_Examples\<close>: the concrete worlds and the served directory at which theorems are applied.

  \<^bold>\<open>What is shown.\<close> Each operation has one rule for every behaviour of the environment (pieces,
  interruptions, short writes, failing allocations and file operations, hostile replies) and, where
  it can succeed, one for a calm environment that says that it does. The theorems of this theory and
  of \<open>Rtrv_Py_Properties\<close> put them together.

  \<^item> Downloads of the C client (C1 to C5): only verified bytes are published, at a place that was
    empty; resources are released and other files left alone on every path; the request sent; what a
    failure leaves for a retry; the missing check of the start offset.
  \<^item> Uploads of the C client (C6, C7): what is sent in every outcome, refusal of a bad offset.
  \<^item> Clients and server together (C8, C9, C11 to C18): whole runs of \<open>get\<close>, \<open>put\<close> and \<open>list\<close> by either
    client against a session end with the same bytes on both sides; an interrupted download is
    completed by the next one, of the same client or of the other; a missing file; a listing that
    fails for one name that is not UTF-8.
  \<^item> The Python client (C10, C19 to C22): only verified bytes are published, what an upload sends, and
    three defects: an unanswered goodbye turns success into failure, the partial of another file is
    deleted, a failure of the handshake escapes.
  \<^item> The server (C23 to C30): it starts without abandoned partials; every session ends; files published under
    names that do not look like partials never change, are sent as they are to every client, and have
    the hash that the uploading client announced; one writer per file; no deadlock; and how a file under
    the name of a partial is lost. The invariant behind these holds for every interleaving and every
    client, also for clients that publish names that look like partials.
  \<^item> The C program (C31): resources and exit codes.
  \<^item> Sockets and frames (C32 to C34): reads, headers, frames.
  \<^item> SHA-256 (C35 to C37): the streaming routines and the block routine against the standard, the
    constants against the prime roots.
  \<^item> Paths (C38 to C40): names are never truncated, partials are distinct and are found again.

  Further theorems, without a number, cover usage errors, writes, refused frames, error reports, the field accessors,
  the hash of a file, the hash harness, the exit codes of \<open>get\<close> and the listing loop.

  \<^bold>\<open>Loops and bounds.\<close> The read loop is a \<open>function\<close> whose measure is the weight of the coming events
  (an interruption consumes one); the write loop is measured by the coming answers of \<open>send\<close> and the
  bytes left, the body loops of the transfers by the bytes left, and the hash loops by the bytes of
  the file, so all of them are total. The padding loop of \<open>sha256_final\<close> and the listing loop are
  partial functions in the option type; that they return is part of what is proved about them.
  Sizes and offsets are 64-bit words in C and wrap; in Python they are natural numbers or integers.
  Conversions between them and lengths are written where the code has them. The loops of the server are
  functions into programs, measured by the bytes that are missing; every program is a well-founded
  tree, so every handler ends if its calls are answered. The command loop is a partial function, and
  C24 shows that it ends for every client; in the system of threads it is a sequence of turns of
  the step relation.

  \<^bold>\<open>Not modelled.\<close> The texts of messages (a message is a value with its arguments) and the log of the
  server, \<open>errno\<close> and \<open>strerror\<close>, signals such as SIGPIPE, changes of a client's files by other processes
  during a run, symbolic links and permissions (a failing call stands for them). Of the server:
  buffering inside a Python file object, the limit of the file system on the length of a name, a
  failure of \<open>os.remove\<close> on a file that exists (except in the sweep at the start), the reading of a file by \<open>hashlib\<close> in several calls (for
  the server the hash of a file is one call), and a failure to start a thread. Of the Python client:
  \<open>argparse\<close>, which is library code configured by a table (the model begins with the parsed arguments),
  and the encoding of the output stream. What the operating system decides is a parameter: whether a
  port can be bound, what the resolver answers, whether an address can be reached, which directories
  \<open>glob\<close> finds for a directory part with wildcards. The tests and the documents are not modelled.
\<close>

section \<open>Downloads\<close>

text \<open>
  C1. A download publishes only bytes whose hash it has checked: when \<open>rtrv_do_get\<close> returns 0, the
  destination did not exist before, and it now holds the bytes of the partial it resumed (none for a
  fresh download) followed by the whole body that the server announced; their SHA-256 is the digest
  of the metadata block. When it fails, the destination is as it was. It never runs into undefined
  behaviour.
\<close>

theorem get_publishes_verified_bytes:
  "case rtrv_do_get name dest w of (r, w') \<Rightarrow>
     (case r of
        Ok _ \<Rightarrow> node_at (fs w) dest = None \<and>
          (\<exists>len total_size start digest body c.
             avail w = frame_header RTRV_T_OK len @ get_meta total_size start digest @ body @ avail w' \<and>
             length digest = 32 \<and> length body = unat (total_size - start) \<and>
             c = resume_base (fs w) (resolve (partial_path dest digest)) start @ body \<and>
             sha256 c = digest \<and> node_at (fs w') dest = Some (File c))
      | Fail \<Rightarrow> node_at (fs w') dest = node_at (fs w) dest
      | Undef \<Rightarrow> False)"
  unfolding wp_def [symmetric]
proof (rule wp_do_get, goal_cases)
  case (1 w')
  then show ?case by simp
next
  case (2 w' b e offset token len total_size start digest rest)
  then show ?case using dest_kept [OF 2(7) 2(3,4)] by simp
next
  case (3 w' b e offset token len total_size start digest body)
  then show ?case by (auto simp: published_def Let_def)
qed

text \<open>
  C2. A download gives back what it takes and stays in its place: every allocation and every open
  file is released on every path, and no file changes except the destination and its partials.
\<close>

theorem get_touches_only_its_files:
  "case rtrv_do_get name dest w of (r, w') \<Rightarrow>
     allocs w' = allocs w \<and> open_files w' = open_files w \<and>
     files.same_except (insert (resolve dest) (partial_keys dest)) (fs w) (fs w')"
  unfolding wp_def [symmetric] by (rule wp_mono [OF wp_get_safe]) simp

text \<open>
  C3. What a download sends: the GET frame of an offer (offset, token, name) that the files allow,
  cut short only when it fails; nothing else goes on the wire.
\<close>

theorem get_sends_one_request:
  "case rtrv_do_get name dest w of (r, w') \<Rightarrow>
     (\<exists>offer k. may_offer (fs w) dest offer \<and> tx w' = tx w @ take k (get_frame offer name) \<and>
        (case r of Ok _ \<Rightarrow> length (get_frame offer name) \<le> k | _ \<Rightarrow> True))"
  unfolding wp_def [symmetric]
proof (rule wp_do_get, goal_cases)
  case (1 w' offer k)
  then show ?case by (intro exI [of _ offer] exI [of _ k]) simp
next
  case (2 w' b e offset token)
  then show ?case
    by (intro exI [of _ "(b, e, offset, token)"] exI [of _ "length (get_frame (b, e, offset, token) name)"]) simp
next
  case (3 w' b e offset token)
  then show ?case
    by (intro exI [of _ "(b, e, offset, token)"] exI [of _ "length (get_frame (b, e, offset, token) name)"]) simp
qed

text \<open>
  C4. A failed download never damages what a retry resumes from: either no file has changed, or the
  partial named by the announced digest is as it was, gone, or holds the bytes it had (when the
  download was a resume) followed by an initial part of the bytes that arrived.
\<close>

theorem get_failure_keeps_prefix:
  "case rtrv_do_get name dest w of (r, w') \<Rightarrow>
     (case r of
        Fail \<Rightarrow> fs w' = fs w \<or>
          (\<exists>len total_size start digest rest k base.
             avail w = frame_header RTRV_T_OK len @ get_meta total_size start digest @ rest \<and>
             length digest = 32 \<and> k = resolve (partial_path dest digest) \<and> base = resume_base (fs w) k start \<and>
             (map_of (fs w') k = map_of (fs w) k \<or> map_of (fs w') k = None \<or>
              (\<exists>j. length base \<le> j \<and>
                 map_of (fs w') k = Some (File (take j (base @ take (unat (total_size - start)) rest))))))
      | _ \<Rightarrow> True)"
  unfolding wp_def [symmetric]
proof (rule wp_do_get, goal_cases)
  case (1 w')
  then show ?case by simp
next
  case (2 w' b e offset token len total_size start digest rest)
  then have "map_of (fs w') (resolve (partial_path dest digest)) = map_of (fs w) (resolve (partial_path dest digest)) \<or>
      map_of (fs w') (resolve (partial_path dest digest)) = None \<or>
      (\<exists>j. length (resume_base (fs w) (resolve (partial_path dest digest)) start) \<le> j \<and>
         map_of (fs w') (resolve (partial_path dest digest)) =
           Some (File (take j (resume_base (fs w) (resolve (partial_path dest digest)) start @
             take (unat (total_size - start)) rest))))"
    by (simp add: partial_kept_def Let_def)
  then show ?case using 2(4,5) by (simp del: take_append) blast
qed simp

text \<open>
  Interruption and resumption compose to the file. A fresh download whose connection ends after
  \<open>n\<close> bytes of the body fails, leaves the destination absent and the whole 64 KiB chunks among those
  bytes in the partial. The next download offers exactly that many bytes with the first eight bytes
  of the digest as the token; when the server sends the rest, the destination holds the file and the
  partial is gone.
\<close>

theorem get_interrupted_then_resumed:
  assumes calm: "faults w = []" "TxErr \<notin> set (tx_plan w)" "TxErr \<notin> set q"
    and fresh: "fresh_dest (fs w) dest (sha256 c)" and name: "length name \<le> 255"
    and size: "length c < 2 ^ 64" "n < length c" and m: "m = 65536 * (n div 65536)"
    and first: "avail w = frame_header RTRV_T_OK len @ get_meta (word_of_nat (length c)) 0 (sha256 c) @ take n c"
    and second: "rx_bytes r = frame_header RTRV_T_OK len' @
      get_meta (word_of_nat (length c)) (word_of_nat m) (sha256 c) @ drop m c"
  shows "\<exists>w1 w2. rtrv_do_get name dest w = (Fail, w1) \<and> node_at (fs w1) dest = None \<and>
    map_of (fs w1) (resolve (partial_path dest (sha256 c))) = Some (File (take m c)) \<and>
    rtrv_do_get name dest (w1\<lparr>rx := r, tx_plan := q\<rparr>) = (Ok (), w2) \<and>
    tx w2 = tx w1 @ frame RTRV_T_GET (get_request (word_of_nat m) (take 8 (sha256 c)) name) \<and>
    node_at (fs w2) dest = Some (File c) \<and>
    map_of (fs w2) (resolve (partial_path dest (sha256 c))) = None"
  using assms by (rule interrupted_then_resumed)

text \<open>
  C5. The start offset of a reply is not compared with the size: when the server announces a start
  beyond the size, the unsigned difference wraps, and the client appends whatever arrives to the
  partial until the connection ends, instead of refusing the reply.
\<close>

theorem get_start_past_size_not_refused:
  assumes calm: "faults w = []" "TxErr \<notin> set (tx_plan w)"
    and fresh: "fresh_dest (fs w) dest digest" and name: "length name \<le> 255" and digest: "length digest = 32"
    and past: "total_size < start"
    and reply: "avail w = frame_header RTRV_T_OK len @ get_meta total_size start digest @ body"
    and body: "length body < 2 ^ 64 - (unat start - unat total_size)"
  shows "unat (total_size - start) = 2 ^ 64 - (unat start - unat total_size) \<and>
    (\<exists>w'. rtrv_do_get name dest w = (Fail, w') \<and> DownloadInterrupted \<in> set (err w') \<and>
       map_of (fs w') (resolve (partial_path dest digest)) = Some (File (whole_chunks body)))"
proof -
  let ?k = "resolve (partial_path dest digest)"
  note f = fresh [unfolded fresh_dest_def]
  have lt: "unat total_size < unat start" using past by (simp add: word_less_nat_alt)
  have wrap: "unat (total_size - start) = 2 ^ 64 - (unat start - unat total_size)"
    using lt unsigned_less [of start] by (simp add: unat_sub_if' word_size)
  have offer: "offer_partial dest w = (Ok (False, [], 0, replicate 8 0), w)"
    using calm f creatable_partial_dir by (intro offer_partial_calm(1) [OF _ _ _ refl]) blast+
  have "map_of (fs w) ?k = None"
    using partial_key_absent [of dest "fs w" digest] f digest by (simp add: map_of_eq_None_iff)
  then have base: "resume_base (fs w) ?k start = []" by (simp add: resume_base_def contents_def)
  have "wp (rtrv_do_get name dest) (\<lambda>r w'. r = Fail \<and> DownloadInterrupted \<in> set (err w') \<and>
      map_of (fs w') ?k = Some (File (whole_chunks body))) w"
    by (rule wp_do_get_calm [OF calm digest _ name offer, where start = start and body = body and rest = "[]"])
      (use f reply body wrap base in \<open>auto simp: update_conv' cleared_def\<close>)
  then show ?thesis using wrap by (auto simp: wp_def split: prod.splits)
qed

theorem get_start_past_size_not_refused_witness:
  "unat (4 - 5 :: u64) = 2 ^ 64 - 1 \<and>
    (\<exists>w'. rtrv_do_get ''a'' ''f''
        (quiet_world (frame_header RTRV_T_OK 0 @ get_meta 4 5 (replicate 32 0) @ [1, 2]) []) = (Fail, w') \<and>
      DownloadInterrupted \<in> set (err w') \<and>
      map_of (fs w') (resolve (partial_path ''f'' (replicate 32 0))) = Some (File []))"
  using get_start_past_size_not_refused [of "quiet_world (frame_header RTRV_T_OK 0 @ get_meta 4 5 (replicate 32 0) @ [1, 2]) []"
      "''f''" "replicate 32 0" "''a''" 4 5 0 "[1, 2]"] fresh_dest_empty
  by (simp add: whole_chunks_def)

section \<open>Uploads\<close>

text \<open>
  C6. An upload only reads the local file and sends: no file changes, everything taken is given
  back, and nothing is undefined. When it returns 0, the server has answered the request with an
  offset inside the file and the body with OK, and the bytes sent are the PUT frame (size, hash,
  name) and the file from the offset on. When it fails, the bytes sent are an initial part of that, and
  bytes of the file have gone out only from an offset inside the file that the server answered with.
\<close>

theorem put_sends_request_and_rest:
  "case rtrv_do_put p name w of (r, w') \<Rightarrow>
     fs w' = fs w \<and> allocs w' = allocs w \<and> open_files w' = open_files w \<and>
     (case r of
        Ok _ \<Rightarrow> \<exists>c offset l1 q1 l2 q2. node_at (fs w) p = Some (File c) \<and> offset \<le> word_of_nat (length c) \<and>
          avail w = frame_header RTRV_T_OK l1 @ q1 @ frame_header RTRV_T_OK l2 @ q2 @ avail w' \<and>
          length q1 = unat l1 \<and> take 8 q1 = be_bytes 8 offset \<and> length q2 = unat l2 \<and>
          tx w' = tx w @ frame RTRV_T_PUT (put_request (word_of_nat (length c)) (sha256 c) name) @ upload c offset
      | Fail \<Rightarrow> \<exists>c offset k. (k = 0 \<or> node_at (fs w) p = Some (File c)) \<and> tx w' = tx w @
          take k (frame RTRV_T_PUT (put_request (word_of_nat (length c)) (sha256 c) name) @ upload c offset) \<and>
          (k \<le> length (frame RTRV_T_PUT (put_request (word_of_nat (length c)) (sha256 c) name)) \<or>
           offset \<le> word_of_nat (length c) \<and>
           (\<exists>len q rest. avail w = frame_header RTRV_T_OK len @ q @ rest \<and> take 8 q = be_bytes 8 offset))
      | Undef \<Rightarrow> False)"
  unfolding wp_def [symmetric]
proof (rule wp_do_put, goal_cases)
  case (1 w' c offset k)
  then show ?case unfolding put_frame_def outcome.case by blast
next
  case (2 w' c offset l1 q1 l2 q2)
  then show ?case
    unfolding put_frame_def outcome.case
    by (intro conjI exI [of _ c] exI [of _ offset] exI [of _ l1] exI [of _ q1] exI [of _ l2] exI [of _ q2])
qed

text \<open>
  C7. An offset beyond the end of the file is refused: the upload fails, and not one byte of the
  file has been sent.
\<close>

theorem put_refuses_offset_past_end:
  fixes offset :: u64
  assumes held: "node_at (fs w) p = Some (File c)" and past: "length c < unat offset"
    and reply: "avail w = frame_header RTRV_T_OK len @ q @ rest" "take 8 q = be_bytes 8 offset"
  shows "\<exists>w' k. rtrv_do_put p name w = (Fail, w') \<and>
    tx w' = tx w @ take k (frame RTRV_T_PUT (put_request (word_of_nat (length c)) (sha256 c) name))"
proof -
  have small: "length c < 2 ^ 64" using past unsigned_less [of offset, where 'a = nat] by simp
  then have beyond: "\<not> offset \<le> word_of_nat (length c)" using past by (simp add: word_le_nat_alt u64_nat)
  have same: "offset' = offset" if "avail w = frame_header RTRV_T_OK l @ q' @ rest'" "take 8 q' = be_bytes 8 offset'"
    for l q' rest' and offset' :: u64
  proof -
    have "take 8 (q' @ rest') = take 8 (q @ rest)" using that(1) reply(1) by (simp add: frame_header_inject)
    moreover have "8 \<le> length q'" "8 \<le> length q"
      using arg_cong [OF that(2), of length] arg_cong [OF reply(2), of length] by simp_all
    ultimately show ?thesis using that(2) reply(2) by (simp add: u64_field.enc_inject)
  qed
  have "wp (rtrv_do_put p name) (\<lambda>r w'. r = Fail \<and> (\<exists>k. tx w' = tx w @ take k (put_frame c name))) w"
  proof (rule wp_do_put, goal_cases)
    case (1 w' c' offset' k)
    have "k \<le> length (put_frame c' name)" using 1(5,6) held same beyond by auto
    then show ?case using 1(4,5) held by auto
  next
    case (2 w' c' offset' l1 q1)
    then show ?case using same [OF 2(5,4)] beyond held by simp
  qed
  then show ?thesis by (auto simp: wp_def put_frame_def split: prod.splits)
qed

theorem put_refuses_offset_past_end_witness:
  "\<exists>w' k. rtrv_do_put ''f'' ''a'' (quiet_world (frame_header RTRV_T_OK 8 @ be_bytes 8 (9 :: u64))
      [((False, [''f'']), File [5])]) = (Fail, w') \<and>
    tx w' = take k (frame RTRV_T_PUT (put_request 1 (sha256 [5]) ''a''))"
  using put_refuses_offset_past_end [of "quiet_world (frame_header RTRV_T_OK 8 @ be_bytes 8 (9 :: u64))
      [((False, [''f'']), File [5])]" "''f''" "[5]" 9 8 "be_bytes 8 (9 :: u64)" "[]" "''a''"]
  by (simp add: node_at_def resolve_def)

section \<open>The program\<close>

text \<open>
  C31. Every run of the program ends with an exit status of 0, 1, 2 or 3, has released its memory
  and closed its connection and its files, and has changed no file, except that a \<open>get\<close> may have
  changed its destination and that destination's partials. Nothing is undefined.
\<close>

theorem main_ends_cleanly:
  assumes "argv \<noteq> []"
  shows "\<exists>status w'. retriever_main getaddrinfo argv w = (Ok status, w') \<and>
    status \<in> {0, EXIT_SERVER, EXIT_LOCAL, EXIT_CONN} \<and> allocs w' = allocs w \<and> open_files w' = open_files w \<and>
    (case command_line argv of
       Some (_, _, c, _, m) \<Rightarrow>
         if c = ''get'' then files.same_except (insert (resolve m) (partial_keys m)) (fs w) (fs w') else fs w' = fs w
     | None \<Rightarrow> fs w' = fs w)"
proof -
  let ?P = "\<lambda>status w'. status \<in> {0, EXIT_SERVER, EXIT_LOCAL, EXIT_CONN} \<and> allocs w' = allocs w \<and>
    open_files w' = open_files w \<and>
    (case command_line argv of Some (_, _, c, _, m) \<Rightarrow> command_frame c m (fs w) (fs w') | None \<Rightarrow> fs w' = fs w)"
  have "wp (retriever_main getaddrinfo argv) (\<lambda>r w'. case r of Ok s \<Rightarrow> ?P s w' | _ \<Rightarrow> False) w"
  proof (rule wp_main_by_command [OF assms], goal_cases)
    case (1 w' s)
    then show ?case by (auto simp: steady_def command_frame_def split: option.split)
  next
    case (2 host port c n m w1 len p)
    then show ?case
      by (intro wp_mono [OF wp_command_safe]) (auto simp: steady_def split: outcome.split)
  qed
  from wp_OkD [OF this] obtain status w' where "retriever_main getaddrinfo argv w = (Ok status, w')" "?P status w'"
    by blast
  then show ?thesis
    unfolding command_frame_def by blast
qed

theorem main_ends_cleanly_witness:
  "\<exists>status w'. retriever_main (\<lambda>_ _. Some [NoSocket, Refuses, Accepts]) [''rtrv'', ''h'', ''1'', ''list'']
      (quiet_world [] []) = (Ok status, w') \<and>
    status \<in> {0, EXIT_SERVER, EXIT_LOCAL, EXIT_CONN} \<and> open_files w' = 0"
  using main_ends_cleanly [of "[''rtrv'', ''h'', ''1'', ''list'']" "\<lambda>_ _. Some [NoSocket, Refuses, Accepts]" "quiet_world [] []"]
  by auto

text \<open>
  A mistake on the command line costs no connection: the program prints the usage text, returns
  2, and has done nothing else, whatever the resolver and the server would have answered.
\<close>

theorem usage_mistake_never_connects:
  assumes "argv \<noteq> []" and "command_line argv = None"
  shows "\<exists>e. retriever_main getaddrinfo argv w = (Ok EXIT_LOCAL, w\<lparr>err := err w @ e @ [Usage (argv ! 0)]\<rparr>)"
  using main_args_eq [OF assms(1), of w] assms(2)
  by (intro exI [of _ "if 4 \<le> length argv \<and> argv ! 3 \<notin> {''list'', ''get'', ''put''}
      then [UnknownCommand (argv ! 3)] else []"]) (simp add: retriever_main_def attempt_def ret_def)

text \<open>
  The exit status of a download tells the truth about the file: with status 0 the destination is
  new and holds bytes with the digest that the server announced on the connection; with any other
  status the destination is as it was.
\<close>

theorem main_get_status:
  "case retriever_main getaddrinfo [prog, host, port, ''get'', name, ''-o'', dest] w of (r, w') \<Rightarrow>
     (case r of
        Ok status \<Rightarrow>
          if status = 0 then node_at (fs w) dest = None \<and>
            (\<exists>hello c len total_size start rest. node_at (fs w') dest = Some (File c) \<and>
               avail w = hello @ frame_header RTRV_T_OK len @ get_meta total_size start (sha256 c) @ rest)
          else node_at (fs w') dest = node_at (fs w) dest
      | _ \<Rightarrow> False)"
  unfolding wp_def [symmetric]
proof (rule wp_main_by_command, goal_cases)
  case (2 w' s)
  then show ?case by (auto simp: steady_def exit_codes)
next
  case (3 h p c n m w1 len pay)
  note reply = 3(2) and start = 3(4)
  have c: "session_command c n m = rtrv_do_get name dest"
    using 3(1) by (auto simp: command_line_def session_command_def)
  show ?case
    unfolding c
  proof (rule wp_do_get, goal_cases)
    case (1 w2)
    then show ?case using start by (simp add: exit_codes)
  next
    case (2 w2 b e offset token l total_size start digest rest)
    then show ?case using dest_kept [OF 2(7) 2(3,4)] start by (simp add: exit_codes)
  next
    case (3 w2 b e offset token l total_size start digest body)
    let ?c = "resume_base (fs w) (resolve (partial_path dest digest)) start @ body"
    have pub: "node_at (fs w2) dest = Some (File ?c)" "sha256 ?c = digest"
      using 3(7) start by (simp_all add: published_def Let_def)
    have "avail w = (frame_header RTRV_T_OK len @ pay) @ frame_header RTRV_T_OK l @
        get_meta total_size start (sha256 ?c) @ body @ avail w2"
      using reply 3(5) pub(2) by simp
    then show ?case using pub(1) 3(1) start unfolding outcome.case steady_def
      by (simp del: append_assoc) blast
  qed
qed simp

section \<open>Sockets and frames\<close>

text \<open>
  C32. An exact read does not depend on how the stream is cut into pieces or interrupted: it fills
  the array with the next bytes of the stream and leaves the rest of the stream, or it fails because
  the stream ends first.
\<close>

theorem read_exact_ignores_pieces:
  "case rtrv_read_exact buf (length buf) w of (r, w') \<Rightarrow>
     if length buf \<le> length (avail w)
     then r = Ok (take (length buf) (avail w)) \<and> avail w' = drop (length buf) (avail w)
     else r = Fail"
  unfolding wp_def [symmetric] by (rule wp_read_exact) simp_all

text \<open>
  A complete write sends exactly the buffer, whatever pieces \<open>send\<close> accepts and however often it
  is interrupted; it fails only on an error of \<open>send\<close>, with a proper part of the buffer sent.
\<close>

theorem write_all_sends_buffer:
  "case rtrv_write_all buf (length buf) w of (r, w') \<Rightarrow>
     (case r of
        Ok _ \<Rightarrow> tx w' = tx w @ buf
      | Fail \<Rightarrow> TxErr \<in> set (tx_plan w) \<and> (\<exists>k. k < length buf \<and> tx w' = tx w @ take k buf)
      | Undef \<Rightarrow> False)"
  unfolding wp_def [symmetric] by (rule wp_write_all) auto

text \<open>
  C33. A frame header is accepted exactly when the stream starts with one: the magic, version 3, a
  type and a big-endian length. The type and the length returned are those of the header, and the
  stream goes on behind its 14 bytes.
\<close>

theorem read_header_accepts_exactly_headers:
  "case rtrv_read_frame_header w of (r, w') \<Rightarrow>
     (case r of
        Ok (ty, len) \<Rightarrow> avail w = RTRV_MAGIC @ [RTRV_VERSION, ty] @ be_bytes 8 len @ avail w'
      | Fail \<Rightarrow> \<not> (\<exists>ty len rest. avail w = RTRV_MAGIC @ [RTRV_VERSION, ty] @ be_bytes 8 (len :: u64) @ rest)
      | Undef \<Rightarrow> False)"
  unfolding wp_def [symmetric]
  by (rule wp_read_frame_header) (auto simp: frame_header_def)

text \<open>
  C34. Frames survive the wire: what \<open>rtrv_write_frame\<close> sends for a payload within the limit is what
  \<open>rtrv_read_frame\<close> reads back, type and payload, however it arrives; an empty payload comes back as
  the null pointer with length 0.
\<close>

theorem frame_write_read:
  assumes "TxErr \<notin> set (tx_plan w)" and "length p \<le> RTRV_PAYLOAD_CAP"
    and "faults w1 = []" and "avail w1 = frame ty p @ rest"
  shows "(\<exists>w'. rtrv_write_frame ty (Some p) (word_of_nat (length p)) w = (Ok (), w') \<and> tx w' = tx w @ frame ty p) \<and>
    (\<exists>w2. rtrv_read_frame w1 = (Ok (ty, if p = [] then None else Some p, word_of_nat (length p)), w2) \<and> avail w2 = rest)"
proof -
  let ?n = "word_of_nat (length p) :: u64"
  have n: "unat ?n = length p" using assms(2) by (intro u64_nat) (simp add: RTRV_PAYLOAD_CAP_def)
  then have zero: "?n = 0 \<longleftrightarrow> p = []" by (metis length_0_conv unat_eq_zero)
  have "wp (rtrv_write_frame ty (Some p) ?n) (\<lambda>r w'. r = Ok () \<and> tx w' = tx w @ frame ty p) w"
    by (rule wp_write_frame [where p = p]) (use assms(1) n in \<open>auto simp: frame_def\<close>)
  moreover have "wp rtrv_read_frame (\<lambda>r w2. r = Ok (ty, if p = [] then None else Some p, ?n) \<and> avail w2 = rest) w1"
    by (rule wp_read_frame_calm [OF assms(3), where ty = ty and len = ?n and p = p and rest = rest])
      (use assms(2,4) n zero in \<open>simp_all add: frame_def\<close>)
  ultimately show ?thesis by (auto simp: wp_def split: prod.splits)
qed

theorem frame_write_read_witness:
  "(\<exists>w'. rtrv_write_frame RTRV_T_OK (Some [1, 2]) 2 ((quiet_world [] [])\<lparr>tx_plan := [TxAccept 3, TxEintr]\<rparr>)
        = (Ok (), w') \<and> tx w' = frame RTRV_T_OK [1, 2]) \<and>
    (\<exists>w2. rtrv_read_frame (quiet_world (frame RTRV_T_OK [1, 2]) []) = (Ok (RTRV_T_OK, Some [1, 2], 2), w2) \<and> avail w2 = [])"
  using frame_write_read [of "(quiet_world [] [])\<lparr>tx_plan := [TxAccept 3, TxEintr]\<rparr>" "[1, 2]"
      "quiet_world (frame RTRV_T_OK [1, 2]) []" RTRV_T_OK "[]"]
  by (simp add: RTRV_PAYLOAD_CAP_def)

text \<open>
  A frame that announces more than the limit is refused before any memory is taken for it and
  before any byte of its payload is read.
\<close>

theorem oversized_frame_refused:
  assumes "avail w = frame_header ty len @ rest" and "RTRV_PAYLOAD_CAP < unat len"
  shows "\<exists>w'. rtrv_read_frame w = (Fail, w') \<and> avail w' = rest \<and> allocs w' = allocs w \<and>
    faults w' = faults w \<and> err w' = err w @ [OversizedPayload len]"
proof -
  have "wp rtrv_read_frame (\<lambda>r w'. r = Fail \<and> avail w' = rest \<and> allocs w' = allocs w \<and>
    faults w' = faults w \<and> err w' = err w @ [OversizedPayload len]) w"
    unfolding rtrv_read_frame_def wp_andthen [of rtrv_read_frame_header]
    by (rule wp_read_frame_header) (use assms in \<open>auto simp: frame_header_inject wp_simps\<close>)
  then show ?thesis by (auto simp: wp_def split: prod.splits)
qed

text \<open>
  The report of an ERROR frame, on every payload: too short to hold a reason and a length, a
  message longer than the payload, or the message and the reason. It never reads outside the payload.
\<close>

theorem report_error_on_every_payload:
  assumes len: "length p = unat len"
  shows "rtrv_report_error (Some p) len w = (Ok (), w\<lparr>err := err w @
    [if length p < 3 then MalformedError
     else let m = unat (be_val (take 2 (drop 1 p)) :: u16)
          in if length p < m + 3 then WrongErrorLength else ServerError (printed (take m (drop 3 p))) (p ! 0)]\<rparr>)"
  using len by (rule report_error_eq)

text \<open>
  The field accessors are inverse to each other inside the buffer and touch nothing else: a
  value stored at an offset is read back, the length and the other bytes stay; a store or a read
  that would leave the buffer is the undefined access.
\<close>

theorem fields_store_and_read_back:
  "(if off + 8 \<le> length buf
    then (\<exists>b. rtrv_put_u64 buf off v = Some b \<and> rtrv_get_u64 b off = Some v \<and> length b = length buf \<and>
            take off b = take off buf \<and> drop (off + 8) b = drop (off + 8) buf)
    else rtrv_get_u64 buf off = None) \<and>
   (if off + 2 \<le> length buf
    then (\<exists>b. rtrv_put_u16 buf off u = Some b \<and> rtrv_get_u16 b off = Some u \<and> length b = length buf \<and>
            take off b = take off buf \<and> drop (off + 2) b = drop (off + 2) buf)
    else rtrv_get_u16 buf off = None)"
  by (intro conjI u64_field.store_and_read u16_field.store_and_read)

section \<open>SHA-256\<close>

text \<open>
  C35. The streaming hash computes SHA-256: whatever the context held before, and however a message
  is cut into pieces, initialising, updating with the pieces and finishing gives the digest that
  FIPS 180-4 defines for the whole message. The padding loop ends, and no access leaves an array.
\<close>

theorem sha256_streaming_is_fips:
  assumes "length (buffer ctx) = SHA256_BLOCK_SIZE"
  shows "\<exists>c c'. foldl (\<lambda>oc d. Option.bind oc (\<lambda>c. sha256_update c d)) (Some (sha256_init ctx)) ds = Some c \<and>
    sha256_final c = Some (c', sha256 (concat ds))"
  using sha.digest_of_pieces [of ctx ds] assms by (simp add: ctx_valid_def sha.upd_all_def)

theorem sha256_streaming_is_fips_witness:
  "\<exists>c c'. foldl (\<lambda>oc d. Option.bind oc (\<lambda>c. sha256_update c d)) (Some (sha256_init stack_ctx)) [[1, 2], [], [3]] = Some c \<and>
    sha256_final c = Some (c', sha256 [1, 2, 3])"
  using sha256_streaming_is_fips [of stack_ctx "[[1, 2], [], [3]]"] by (simp add: stack_ctx_def)

text \<open>
  C36. One block: the C routine, with rotations as pairs of shifts and the schedule filled in place,
  computes the compression function of the standard and leaves the rest of the context alone.
\<close>

theorem sha256_block_is_compression:
  assumes "length block = SHA256_BLOCK_SIZE" and "length (state ctx) = 8"
  shows "sha256_block ctx block = Some (ctx\<lparr>state := fips_compress (state ctx) block\<rparr>)"
  using assms by (rule sha256_block_eq)

theorem sha256_block_is_compression_witness:
  "sha256_block (sha256_init stack_ctx) (replicate 64 0) =
    Some ((sha256_init stack_ctx)\<lparr>state := fips_compress (state (sha256_init stack_ctx)) (replicate 64 0)\<rparr>)"
  using sha256_block_is_compression [of "replicate 64 0" "sha256_init stack_ctx"] by (simp add: sha256_init_def)

text \<open>
  The first 32 bits of the fractional part of a root: \<open>k\<close> for which \<open>n + k / 2\<^sup>3\<^sup>2\<close> is the \<open>e\<close>-th root
  of \<open>p\<close> rounded down to 32 binary places, for some whole number \<open>n\<close>.
\<close>

definition root_fraction :: "nat \<Rightarrow> nat \<Rightarrow> u32 \<Rightarrow> bool" where
  "root_fraction e p k \<longleftrightarrow>
     (\<exists>n. (n * 2 ^ 32 + unat k) ^ e \<le> p * 2 ^ (32 * e) \<and> p * 2 ^ (32 * e) < (n * 2 ^ 32 + unat k + 1) ^ e)"

text \<open>The primes below 312, by trial division with the primes up to the square root of 311.\<close>

definition first_primes :: "nat list" where
  "first_primes = filter (\<lambda>p. list_all (\<lambda>d. p = d \<or> p mod d \<noteq> 0) [2, 3, 5, 7, 11, 13, 17]) [2..<312]"

lemma root_fractions:
  assumes "length ns = length ps"
    and "list_all2 (\<lambda>(n, p) k. (n * 2 ^ 32 + unat k) ^ e \<le> p * 2 ^ (32 * e) \<and>
      p * 2 ^ (32 * e) < (n * 2 ^ 32 + unat k + 1) ^ e) (zip ns ps) ks"
  shows "list_all2 (root_fraction e) ps ks"
  using assms by (auto simp: list_all2_conv_all_nth root_fraction_def)

lemma first_primes_eq:
  "first_primes = [2, 3, 5, 7, 11, 13, 17, 19, 23, 29, 31, 37, 41, 43, 47, 53, 59, 61, 67, 71, 73, 79, 83, 89, 97,
     101, 103, 107, 109, 113, 127, 131, 137, 139, 149, 151, 157, 163, 167, 173, 179, 181, 191, 193, 197, 199,
     211, 223, 227, 229, 233, 239, 241, 251, 257, 263, 269, 271, 277, 281, 283, 293, 307, 311]"
  by (simp add: first_primes_def upt_rec)

text \<open>
  C37. The constants are the ones the comments of the source claim: the table \<open>K\<close> holds the first 32
  bits of the fractional parts of the cube roots of the first 64 primes, and \<open>sha256_init\<close> starts from
  those of the square roots of the first eight.
\<close>

theorem sha256_constants_are_roots:
  "length first_primes = 64 \<and> list_all2 (root_fraction 3) first_primes K \<and>
   list_all2 (root_fraction 2) (take 8 first_primes) (state (sha256_init ctx))"
proof -
  have "list_all2 (root_fraction 3) first_primes K"
    by (rule root_fractions [of "[1, 1, 1, 1, 2, 2, 2, 2, 2, 3, 3, 3, 3, 3, 3, 3, 3, 3, 4, 4, 4, 4, 4, 4, 4, 4, 4, 4, 4, 4, 5, 5,
        5, 5, 5, 5, 5, 5, 5, 5, 5, 5, 5, 5, 5, 5, 5, 6, 6, 6, 6, 6, 6, 6, 6, 6, 6, 6, 6, 6, 6, 6, 6, 6]"])
      (simp_all add: first_primes_eq K_def)
  moreover have "list_all2 (root_fraction 2) (take 8 first_primes) (state (sha256_init ctx))"
    by (rule root_fractions [of "[1, 1, 2, 2, 3, 3, 4, 4]"]) (simp_all add: first_primes_eq sha256_init_def)
  ultimately show ?thesis by (simp add: first_primes_eq)
qed

text \<open>
  Hashing a file gives the SHA-256 of its whole contents or fails; it fails only when some call
  fails or there is no such regular file, closes its stream on every path and changes nothing.
\<close>

theorem sha256_file_hashes_contents:
  "case sha256_file p w of (r, w') \<Rightarrow>
     (\<exists>g. w' = w\<lparr>faults := g\<rparr>) \<and>
     (case r of
        Ok d \<Rightarrow> \<exists>c. node_at (fs w) p = Some (File c) \<and> d = sha256 c
      | Fail \<Rightarrow> if faults w = [] then (case node_at (fs w) p of Some (File c) \<Rightarrow> False | _ \<Rightarrow> True) else True
      | Undef \<Rightarrow> False)"
  unfolding wp_def [symmetric]
proof (cases "faults w = [] \<and> (\<exists>c. node_at (fs w) p = Some (File c))")
  case True
  then obtain c where c: "node_at (fs w) p = Some (File c)" by blast
  have "w = w\<lparr>faults := faults w\<rparr>" by simp
  then have "\<exists>g. w = w\<lparr>faults := g\<rparr>" by blast
  with True c show "wp (sha256_file p) (\<lambda>r w'. (\<exists>g. w' = w\<lparr>faults := g\<rparr>) \<and> (case r of
        Ok d \<Rightarrow> \<exists>c. node_at (fs w) p = Some (File c) \<and> d = sha256 c
      | Fail \<Rightarrow> if faults w = [] then (case node_at (fs w) p of Some (File c) \<Rightarrow> False | _ \<Rightarrow> True) else True
      | Undef \<Rightarrow> False)) w"
    by (simp add: undisturbed)
next
  case False
  show "wp (sha256_file p) (\<lambda>r w'. (\<exists>g. w' = w\<lparr>faults := g\<rparr>) \<and> (case r of
        Ok d \<Rightarrow> \<exists>c. node_at (fs w) p = Some (File c) \<and> d = sha256 c
      | Fail \<Rightarrow> if faults w = [] then (case node_at (fs w) p of Some (File c) \<Rightarrow> False | _ \<Rightarrow> True) else True
      | Undef \<Rightarrow> False)) w"
    by (rule wp_sha256_file) (use False in \<open>auto split: option.split node.split\<close>)
qed

text \<open>
  The test harness prints the hexadecimal SHA-256 of everything on its standard input and
  returns 0 when the input can be read; this is the contract that the test suite compares with
  another implementation.
\<close>

theorem sha256_harness_prints_digest:
  assumes "faults w = []" and "\<not> is_dir (fs w) k" and "contents (fs w) k = c"
  shows "sha256_main \<lparr>if_path = k, if_pos = 0, if_error = False\<rparr> w =
    (Ok 0, w\<lparr>out := out w @ [HexDigest (hex_of (sha256 c))]\<rparr>)"
proof -
  let ?h = "\<lparr>if_path = k, if_pos = 0, if_error = False\<rparr>"
  obtain ctx h where loop: "hash_loop (sha256_init stack_ctx) ?h w = (Ok (ctx, h), w)" "\<not> if_error h" "sha_fed ctx c"
    using hash_loop_no_faults [OF fed_stack_ctx, of w ?h] assms by auto
  then obtain ctx' where "sha256_final ctx = Some (ctx', sha256 c)" using sha.fin_hash by blast
  then show ?thesis
    using loop sha256_hex_eq [of 32 "sha256 c"]
    by (simp add: sha256_main_def andthen_def attempt_def access_def ret_def print_def cstr_put_def)
qed

section \<open>Paths and partial files\<close>

lemma partial_name_result:
  assumes "RTRV_TOKEN_SIZE \<le> length digest"
  shows "rtrv_partial_name dest digest RTRV_PATH_MAX w =
    (if good_dest dest then (Ok (partial_path dest digest), w) else (Fail, w\<lparr>err := err w @ [PathTooLong dest]\<rparr>))"
  using wp_partial_name [OF assms, of dest "\<lambda>r w'. (r, w') =
      (if good_dest dest then (Ok (partial_path dest digest), w) else (Fail, w\<lparr>err := err w @ [PathTooLong dest]\<rparr>))" w] assms
  by (auto simp: wp_def partial_path_def RTRV_TOKEN_SIZE_def split: if_splits)

text \<open>
  C38. The name of a partial always fits: for every destination that can be split, the name is the
  directory, a dot, the component, a dot, 16 hexadecimal digits and \<open>.part\<close>, shorter than the array it
  is printed into; every other destination is refused with a message.
\<close>

theorem partial_name_never_truncated:
  assumes "RTRV_TOKEN_SIZE \<le> length digest"
  shows "rtrv_partial_name dest digest RTRV_PATH_MAX w =
      (if splittable dest RTRV_DIR_MAX (RTRV_MAX_NAME + 1) then (Ok (partial_path dest digest), w)
       else (Fail, w\<lparr>err := err w @ [PathTooLong dest]\<rparr>)) \<and>
    (if splittable dest RTRV_DIR_MAX (RTRV_MAX_NAME + 1) then length (partial_path dest digest) < RTRV_PATH_MAX else True)"
  using partial_name_result [OF assms, of dest w] length_partial_with [of dest "hex_of (take RTRV_TOKEN_SIZE digest)"] assms
  by (auto simp: partial_path_def RTRV_TOKEN_SIZE_def split: if_splits)

theorem partial_name_never_truncated_witness:
  "rtrv_partial_name ''d/f'' [1, 2, 3, 4, 5, 6, 7, 255] RTRV_PATH_MAX (quiet_world [] []) =
    (Ok ''d/.f.01020304050607ff.part'', quiet_world [] [])"
  using partial_name_never_truncated [of "[1, 2, 3, 4, 5, 6, 7, 255]" "''d/f''" "quiet_world [] []"]
  by (simp add: size_consts splittable_def path_dir_def path_base_def partial_path_def partial_with_def
      partial_entry_def hex_of_def hex_pair_def hex_digits_def take_bit_eq_mod)

text \<open>
  C39. Different files never share a partial: the names that \<open>rtrv_partial_name\<close> makes for two digests lead
  to the same place exactly when the first eight bytes of the digests agree, and no such name leads
  to the destination itself.
\<close>

theorem partials_are_distinct:
  assumes "RTRV_TOKEN_SIZE \<le> length d" and "RTRV_TOKEN_SIZE \<le> length d'"
    and "rtrv_partial_name dest d RTRV_PATH_MAX w = (Ok p, w1)" and "rtrv_partial_name dest d' RTRV_PATH_MAX w' = (Ok p', w1')"
  shows "(resolve p = resolve p' \<longleftrightarrow> take RTRV_TOKEN_SIZE d = take RTRV_TOKEN_SIZE d') \<and> resolve p \<noteq> resolve dest"
proof -
  have p: "p = partial_path dest d" "p' = partial_path dest d'"
    using assms(3,4) partial_name_result [OF assms(1)] partial_name_result [OF assms(2)] by (auto split: if_splits)
  have "resolve (partial_path dest x) =
      (fst (resolve dest), comps (path_dir dest) @ [partial_entry dest (hex_of (take RTRV_TOKEN_SIZE x))])" for x
    unfolding partial_path_def by (rule resolve_partial_plain(1) [OF hex_of_no_slash])
  then show ?thesis
    using p assms(1,2) partial_path_keys(1) [of dest d] hex_of_inject [of "take RTRV_TOKEN_SIZE d" "take RTRV_TOKEN_SIZE d'"]
    by simp
qed

theorem partials_are_distinct_witness:
  "\<exists>p p'. rtrv_partial_name ''f'' [1, 2, 3, 4, 5, 6, 7, 8] RTRV_PATH_MAX (quiet_world [] []) = (Ok p, quiet_world [] []) \<and>
    rtrv_partial_name ''f'' [1, 2, 3, 4, 5, 6, 7, 9] RTRV_PATH_MAX (quiet_world [] []) = (Ok p', quiet_world [] []) \<and>
    resolve p \<noteq> resolve p' \<and> resolve p \<noteq> resolve ''f''"
proof -
  have f: "good_dest ''f''" using fresh_dest_empty by (simp add: fresh_dest_def)
  have name: "rtrv_partial_name ''f'' d RTRV_PATH_MAX (quiet_world [] []) = (Ok (partial_path ''f'' d), quiet_world [] [])"
    if "length d = 8" for d
    using partial_name_result [of d "''f''" "quiet_world [] []"] f that by (simp add: RTRV_TOKEN_SIZE_def)
  show ?thesis
    using partials_are_distinct [OF _ _ name [of "[1, 2, 3, 4, 5, 6, 7, 8]"] name [of "[1, 2, 3, 4, 5, 6, 7, 9]"]] name
    by (auto simp: RTRV_TOKEN_SIZE_def)
qed

text \<open>
  C40. What is named is found: after a partial has been created beside a destination that had none,
  \<open>rtrv_find_partial\<close> returns its path, its size and the first eight bytes of the digest, read back
  from the name.
\<close>

theorem find_recovers_partial:
  assumes "faults w = []" and "fresh_dest f dest digest" and "RTRV_TOKEN_SIZE \<le> length digest"
    and "fs w = AList.update (resolve (partial_path dest digest)) (File c) f"
  shows "rtrv_find_partial dest RTRV_PATH_MAX w =
    (Ok (Some (partial_path dest digest, word_of_nat (length c), take RTRV_TOKEN_SIZE digest)), w)"
proof -
  note fresh = assms(2) [unfolded fresh_dest_def]
  have len: "8 \<le> length digest" using assms(3) by (simp add: RTRV_TOKEN_SIZE_def)
  have cr: "creatable (fs w) (partial_path dest digest)"
    using fresh partial_path_keys(3) [of dest digest] by (simp add: assms(4) creatable_update)
  have es: "partials_of dest (entries (fs w) (resolve (path_dir dest))) = [partial_entry dest (hex_of (take 8 digest))]"
    unfolding assms(4) by (rule partials_of_new [OF _ len]) (use fresh in simp)
  have node: "node_at (fs w) (partial_path dest digest) = Some (File c)"
    by (rule node_at_creatable [OF cr]) (simp add: assms(4) update_conv')
  show ?thesis
    using find_partial_calm(2) [OF assms(1) _ creatable_partial_dir [OF cr] refl len es node] fresh
    by (simp add: st_size_def RTRV_TOKEN_SIZE_def)
qed

theorem find_recovers_partial_witness:
  "rtrv_find_partial ''f'' RTRV_PATH_MAX
      (quiet_world [] [(resolve (partial_path ''f'' (replicate 32 7)), File [1, 2, 3])]) =
    (Ok (Some (partial_path ''f'' (replicate 32 7), 3, take RTRV_TOKEN_SIZE (replicate 32 7))),
     quiet_world [] [(resolve (partial_path ''f'' (replicate 32 7)), File [1, 2, 3])])"
  using find_recovers_partial [of "quiet_world [] [(resolve (partial_path ''f'' (replicate 32 7)), File [1, 2, 3])]"
      "[]" "''f''" "replicate 32 7" "[1, 2, 3]"] fresh_dest_empty
  by (simp add: RTRV_TOKEN_SIZE_def)

text \<open>
  The walk over a listing ends and stays inside the payload: for every payload that fits in
  memory it visits the names between zero bytes in their order and skips the empty ones.
\<close>

theorem list_loop_visits_names:
  assumes "length p < 2 ^ 64 - 1"
  shows "list_loop (Some p) (word_of_nat (length p)) 0 0 [] = Some (listing p)"
  using list_loop_spec [of p "Some p" 0 0 "[]"] assms by simp

section \<open>The client against the server\<close>

text \<open>
  C8. A whole run of \<open>get\<close> against a whole session of the server: the session reads what the program
  sends, however it is cut into pieces, and answers so that the program sends exactly that, returns 0
  and leaves the server's file at the destination.
\<close>

theorem main_get_from_server:
  assumes calm: "faults w = []" "TxErr \<notin> set (tx_plan w)"
    and peer: "getaddrinfo host port = Some as" "Accepts \<in> set as" and fresh: "fresh_dest (fs w) dest (sha256 c)"
    and served: "check_filename name" "file_of S name = Some c" "length c + 48 < 2 ^ 64"
    and wire: "[] \<notin> set ib"
      "concat ib = frame RTRV_T_HELLO [] @ frame RTRV_T_GET (get_request 0 (replicate 8 0) name) @ frame RTRV_T_QUIT []"
  shows "\<exists>reply. handle_client \<lparr>inbox = ib, sent = [], disk = S\<rparr> =
      Some (Inr (), \<lparr>inbox = [], sent = reply, disk = S\<rparr>) \<and>
    (avail w = reply \<longrightarrow>
      (\<exists>w'. retriever_main getaddrinfo [prog, host, port, ''get'', name, ''-o'', dest] w = (Ok 0, w') \<and>
        tx w' = tx w @ concat ib \<and> node_at (fs w') dest = Some (File c) \<and>
        allocs w' = allocs w \<and> open_files w' = open_files w))"
proof -
  have "\<exists>w'. retriever_main getaddrinfo [prog, host, port, ''get'', name, ''-o'', dest] w = (Ok 0, w') \<and>
      tx w' = tx w @ concat ib \<and> node_at (fs w') dest = Some (File c) \<and> allocs w' = allocs w \<and> open_files w' = open_files w"
    if "avail w = frame RTRV_T_OK [] @ get_answer c 0 (replicate 8 0) @ frame RTRV_T_OK []"
    unfolding wire(2)
    by (rule main_conversation [where getaddrinfo = getaddrinfo and R = "\<lambda>f _. node_at f dest = Some (File c)",
          OF _ command_lines(2) peer calm that])
      (use wp_get_fresh [OF _ _ _ check_filename_props(2) [OF served(1)] served(3), where dest = dest] fresh in simp_all)
  then show ?thesis
    using session_sends_file [OF served, of "replicate 8 0" 0 ib] wire by simp
qed

theorem main_get_from_server_witness:
  "\<exists>reply w'. handle_client \<lparr>inbox = [frame RTRV_T_HELLO [], frame RTRV_T_GET (get_request 0 (replicate 8 0) ''a'') @ frame RTRV_T_QUIT []],
      sent = [], disk = example_disk\<rparr> = Some (Inr (), \<lparr>inbox = [], sent = reply, disk = example_disk\<rparr>) \<and>
    retriever_main (\<lambda>_ _. Some [Refuses, Accepts]) [''rtrv'', ''h'', ''1'', ''get'', ''a'', ''-o'', ''f''] (quiet_world reply []) = (Ok 0, w') \<and>
    node_at (fs w') ''f'' = Some (File [7])"
proof -
  let ?ib = "[frame RTRV_T_HELLO [], frame RTRV_T_GET (get_request 0 (replicate 8 0) ''a'') @ frame RTRV_T_QUIT []]"
  let ?reply = "frame RTRV_T_OK [] @ get_answer [7] 0 (replicate 8 0) @ frame RTRV_T_OK []"
  have ib: "[] \<notin> set ?ib" by (simp add: frame_def frame_header_def)
  then have "handle_client \<lparr>inbox = ?ib, sent = [], disk = example_disk\<rparr> =
      Some (Inr (), \<lparr>inbox = [], sent = ?reply, disk = example_disk\<rparr>)"
    using session_sends_file [OF example_disk_files(1,2), of "replicate 8 0" 0 ?ib] by simp
  then show ?thesis
    using main_get_from_server [of "quiet_world ?reply []" "\<lambda>_ _. Some [Refuses, Accepts]" "''h''" "''1''" "[Refuses, Accepts]"
        "''f''" "[7]" "''a''" example_disk ?ib "''rtrv''"] fresh_dest_empty example_disk_files ib by auto
qed

text \<open>
  C9. An interrupted download resumes against the real server: the client keeps the whole 64 KiB
  chunks among the \<open>n\<close> bytes of the body that arrived; the server recognises the token of its next
  request and sends only the rest, and the client ends with exactly the server's file.
\<close>

theorem download_resumes_from_server:
  assumes calm: "faults w = []" "TxErr \<notin> set (tx_plan w)" "TxErr \<notin> set plan"
    and fresh: "fresh_dest (fs w) dest (sha256 c)"
    and served: "check_filename name" "file_of S name = Some c" "length c + 48 < 2 ^ 64"
    and cut: "n < length c" "m = 65536 * (n div 65536)"
    and first: "avail w = take (62 + n) (get_answer c 0 (replicate 8 0))"
    and wire: "[] \<notin> set ib" "concat ib = frame RTRV_T_GET (get_request (word_of_nat m) (take 8 (sha256 c)) name)"
  shows "\<exists>reply w1. run session_turn \<lparr>inbox = ib, sent = [], disk = S\<rparr> =
      Some (Inr True, \<lparr>inbox = [], sent = reply, disk = S\<rparr>) \<and> length reply = 62 + (length c - m) \<and>
    rtrv_do_get name dest w = (Fail, w1) \<and>
    (rx_bytes r = reply \<longrightarrow> (\<exists>w2. rtrv_do_get name dest (w1\<lparr>rx := r, tx_plan := plan\<rparr>) = (Ok (), w2) \<and>
       tx w2 = tx w1 @ concat ib \<and> node_at (fs w2) dest = Some (File c)))"
  using same_client.completes [OF calm fresh fresh served cut first wire, of r] unfolding c_get_iff .

theorem download_resumes_from_server_witness:
  "\<exists>reply w1 w2. run session_turn \<lparr>inbox = [frame RTRV_T_GET (get_request 0 (take 8 (sha256 [7])) ''a'')], sent = [],
      disk = example_disk\<rparr> = Some (Inr True, \<lparr>inbox = [], sent = reply, disk = example_disk\<rparr>) \<and>
    rtrv_do_get ''a'' ''f'' (quiet_world (take 62 (get_answer [7] 0 (replicate 8 0))) []) = (Fail, w1) \<and>
    rtrv_do_get ''a'' ''f'' (w1\<lparr>rx := [RxData reply], tx_plan := []\<rparr>) = (Ok (), w2) \<and>
    node_at (fs w2) ''f'' = Some (File [7])"
proof -
  let ?ib = "[frame RTRV_T_GET (get_request 0 (take 8 (sha256 [7])) ''a'')]"
    and ?reply = "get_answer [7] 0 (take 8 (sha256 [7]))"
  have ib: "[] \<notin> set ?ib" by (simp add: frame_def frame_header_def)
  then have "run session_turn \<lparr>inbox = ?ib, sent = [], disk = example_disk\<rparr> =
      Some (Inr True, \<lparr>inbox = [], sent = ?reply, disk = example_disk\<rparr>)"
    using server_answers_get [OF example_disk_files(1,2), of "take 8 (sha256 [7])" 0 ?ib] by simp
  moreover have "rx_bytes [RxData ?reply] = ?reply" by simp
  ultimately show ?thesis
    using download_resumes_from_server [of "quiet_world (take 62 (get_answer [7] 0 (replicate 8 0))) []" "[]" "''f''"
        "[7]" "''a''" example_disk 0 0 ?ib "[RxData ?reply]"] fresh_dest_empty example_disk_files ib
    by auto
qed

text \<open>
  C12. A whole run of \<open>put\<close> against a whole session: the server ends with exactly the client's file under
  the requested name, resuming from the \<open>m\<close> bytes that an earlier attempt left, and touches no other
  file; its answers make the program send exactly the bytes that it reads and return 0.
\<close>

theorem main_put_to_server:
  assumes calm: "faults w = []" "TxErr \<notin> set (tx_plan w)"
    and peer: "getaddrinfo host port = Some as" "Accepts \<in> set as" and stored: "node_at (fs w) path = Some (File c)"
    and size: "length c \<le> MAX_FILE_SIZE" and name: "check_filename name" and p: "p = partial_name name (sha256 c)"
    and server: "tidy S" "entry S name = None" "p \<notin> in_flight S" "lock S = None"
    and part: "entry S p = None \<and> m = 0 \<or> file_of S p = Some (take m c)" "m \<le> length c"
    and wire: "[] \<notin> set ib" "concat ib = frame RTRV_T_HELLO [] @
      (frame RTRV_T_PUT (put_request (word_of_nat (length c)) (sha256 c) name) @ drop m c) @ frame RTRV_T_QUIT []"
  shows "\<exists>reply S'. handle_client \<lparr>inbox = ib, sent = [], disk = S\<rparr> =
      Some (Inr (), \<lparr>inbox = [], sent = reply, disk = S'\<rparr>) \<and>
    file_of S' name = Some c \<and> file_of S' p = None \<and> (\<forall>q. q \<notin> {name, p} \<longrightarrow> file_of S' q = file_of S q) \<and>
    (avail w = reply \<longrightarrow>
      (\<exists>w'. retriever_main getaddrinfo [prog, host, port, ''put'', path, name] w = (Ok 0, w') \<and>
        tx w' = tx w @ concat ib \<and> fs w' = fs w \<and> allocs w' = allocs w \<and> open_files w' = open_files w))"
proof -
  let ?reply = "frame RTRV_T_OK (be_bytes 8 (word_of_nat m :: u64)) @ frame RTRV_T_OK []"
  note session = session_takes_file [OF name p wire part server(2-4) size]
  note files = session_upload_files [OF name p server(1,2) part(1)]
  have "\<exists>w'. retriever_main getaddrinfo [prog, host, port, ''put'', path, name] w = (Ok 0, w') \<and>
      tx w' = tx w @ concat ib \<and> fs w' = fs w \<and> allocs w' = allocs w \<and> open_files w' = open_files w"
    if "avail w = frame RTRV_T_OK [] @ ?reply @ frame RTRV_T_OK []"
    unfolding wire(2)
  proof (rule main_conversation [where getaddrinfo = getaddrinfo and R = "\<lambda>f _. f = fs w",
          OF _ command_lines(3) peer calm that], goal_cases)
    case (2 w1)
    show ?case
      unfolding session_commands
      by (rule wp_mono [OF wp_put_known [OF 2(2,3) _ size check_filename_props(2) [OF name] part(2)]])
        (use stored 2 in auto)
  qed simp
  then show ?thesis using session files by (intro exI conjI) (assumption | blast)+
qed

theorem main_put_to_server_witness:
  "\<exists>reply S' w'. handle_client \<lparr>inbox = [frame RTRV_T_HELLO [], frame RTRV_T_PUT (put_request 2 (sha256 [5, 6]) ''b''), [5],
      6 # frame RTRV_T_QUIT []], sent = [], disk = example_disk\<rparr> = Some (Inr (), \<lparr>inbox = [], sent = reply, disk = S'\<rparr>) \<and>
    file_of S' ''b'' = Some [5, 6] \<and> file_of S' ''a'' = Some [7] \<and>
    retriever_main (\<lambda>_ _. Some [Accepts]) [''rtrv'', ''h'', ''1'', ''put'', ''f'', ''b'']
      (quiet_world reply [((False, [''f'']), File [5, 6])]) = (Ok 0, w')"
proof -
  let ?ib = "[frame RTRV_T_HELLO [], frame RTRV_T_PUT (put_request 2 (sha256 [5, 6]) ''b''), [5], 6 # frame RTRV_T_QUIT []]"
  let ?reply = "frame RTRV_T_OK [] @ (frame RTRV_T_OK (be_bytes 8 (0 :: u64)) @ frame RTRV_T_OK []) @ frame RTRV_T_OK []"
  let ?p = "partial_name ''b'' (sha256 [5, 6])"
  note S = example_upload
  have ib: "[] \<notin> set ?ib" by (simp add: frame_def frame_header_def)
  have run: "handle_client \<lparr>inbox = ?ib, sent = [], disk = example_disk\<rparr> =
      Some (Inr (), \<lparr>inbox = [], sent = ?reply, disk = uploaded example_disk ?p ''b'' [5, 6]\<rparr>)"
    using session_takes_file [OF S(1) refl ib, of "[5, 6]" 0 example_disk] S by (simp add: MAX_FILE_SIZE_def)
  show ?thesis
    using main_put_to_server [of "quiet_world ?reply [((False, [''f'']), File [5, 6])]" "\<lambda>_ _. Some [Accepts]" "''h''" "''1''"
        "[Accepts]" "''f''" "[5, 6]" "''b''" ?p example_disk 0 ?ib "''rtrv''"] run S ib example_disk_files
    by (auto simp: MAX_FILE_SIZE_def node_at_def resolve_def)
qed

text \<open>
  C13. A whole run of \<open>list\<close> against a whole session, when the listing can be made and fits into one frame:
  the names in the served directory are not empty, have no zero byte and are UTF-8, and with a zero
  byte between them they are at most 64 KiB. Then the program prints exactly the names that the server
  has, in the order in which it has them, and returns 0.
\<close>

theorem main_list_from_server:
  assumes calm: "faults w = []" "TxErr \<notin> set (tx_plan w)"
    and peer: "getaddrinfo host port = Some as" "Accepts \<in> set as"
    and names: "\<forall>n \<in> set (names_of S). n \<noteq> [] \<and> 0 \<notin> set n" "length (join_zero (names_of S)) \<le> RTRV_PAYLOAD_CAP"
      "\<forall>n \<in> set (names_of S). utf8 n"
    and wire: "[] \<notin> set ib" "concat ib = frame RTRV_T_HELLO [] @ frame RTRV_T_LIST [] @ frame RTRV_T_QUIT []"
  shows "\<exists>reply. handle_client \<lparr>inbox = ib, sent = [], disk = S\<rparr> =
      Some (Inr (), \<lparr>inbox = [], sent = reply, disk = S\<rparr>) \<and>
    (avail w = reply \<longrightarrow>
      (\<exists>w'. retriever_main getaddrinfo [prog, host, port, ''list''] w = (Ok 0, w') \<and>
        tx w' = tx w @ concat ib \<and> (fs w' = fs w \<and> out w' = out w @ map Listed (names_of S)) \<and>
        allocs w' = allocs w \<and> open_files w' = open_files w))"
proof -
  have "\<exists>w'. retriever_main getaddrinfo [prog, host, port, ''list''] w = (Ok 0, w') \<and>
      tx w' = tx w @ concat ib \<and> (fs w' = fs w \<and> out w' = out w @ map Listed (names_of S)) \<and>
      allocs w' = allocs w \<and> open_files w' = open_files w"
    if "avail w = frame RTRV_T_OK [] @ frame RTRV_T_OK (join_zero (names_of S)) @ frame RTRV_T_OK []"
    unfolding wire(2)
  proof (rule main_conversation [where getaddrinfo = getaddrinfo and
          R = "\<lambda>f o'. f = fs w \<and> o' = out w @ map Listed (names_of S)", OF _ command_lines(1) peer calm that], goal_cases)
    case (2 w1)
    show ?case
      unfolding session_commands
      by (rule wp_mono [OF wp_list_known [OF 2(2,3) names(1,2) 2(1)]]) (use 2 in simp_all)
  qed simp
  then show ?thesis
    using session_lists [OF _ wire names(3)] names(2) by (simp add: RTRV_PAYLOAD_CAP_def)
qed

theorem main_list_from_server_witness:
  "\<exists>reply w'. handle_client \<lparr>inbox = [frame RTRV_T_HELLO [] @ frame RTRV_T_LIST [], frame RTRV_T_QUIT []], sent = [],
      disk = example_disk\<rparr> = Some (Inr (), \<lparr>inbox = [], sent = reply, disk = example_disk\<rparr>) \<and>
    retriever_main (\<lambda>_ _. Some [Accepts]) [''rtrv'', ''h'', ''1'', ''list''] (quiet_world reply []) = (Ok 0, w') \<and>
    out w' = [Listed [97]]"
proof -
  let ?ib = "[frame RTRV_T_HELLO [] @ frame RTRV_T_LIST [], frame RTRV_T_QUIT []]"
  let ?reply = "frame RTRV_T_OK [] @ frame RTRV_T_OK [97] @ frame RTRV_T_OK []"
  have names: "names_of example_disk = [[97]]" by (simp add: example_disk_def)
  have ib: "[] \<notin> set ?ib" by (simp add: frame_def frame_header_def)
  then have "handle_client \<lparr>inbox = ?ib, sent = [], disk = example_disk\<rparr> =
      Some (Inr (), \<lparr>inbox = [], sent = ?reply, disk = example_disk\<rparr>)"
    using session_lists [of example_disk ?ib] names by simp
  then show ?thesis
    using main_list_from_server [of "quiet_world ?reply []" "\<lambda>_ _. Some [Accepts]" "''h''" "''1''" "[Accepts]" example_disk ?ib
        "''rtrv''"] ib names by (auto simp: RTRV_PAYLOAD_CAP_def)
qed

text \<open>
  C14. A \<open>get\<close> of a name that the server does not have: the session answers with the reason code and its
  text, and the program reports both, returns 1, and leaves the files alone and everything released.
\<close>

theorem main_get_missing_file:
  assumes calm: "faults w = []" "TxErr \<notin> set (tx_plan w)"
    and peer: "getaddrinfo host port = Some as" "Accepts \<in> set as" and fresh: "fresh_dest (fs w) dest digest"
    and missing: "check_filename name" "file_of S name = None"
    and wire: "[] \<notin> set ib" "concat ib = frame RTRV_T_HELLO [] @ frame RTRV_T_GET (get_request 0 (replicate 8 0) name)"
  shows "\<exists>reply. handle_client \<lparr>inbox = ib, sent = [], disk = S\<rparr> =
      Some (Inr (), \<lparr>inbox = [], sent = reply, disk = S\<rparr>) \<and>
    (avail w = reply \<longrightarrow>
      (\<exists>w'. retriever_main getaddrinfo [prog, host, port, ''get'', name, ''-o'', dest] w = (Ok EXIT_SERVER, w') \<and>
        tx w' = tx w @ concat ib \<and> ServerError (encode ''not found on server'') RTRV_E_NOT_FOUND \<in> set (err w') \<and>
        fs w' = fs w \<and> out w' = out w \<and> allocs w' = allocs w \<and> open_files w' = open_files w))"
proof -
  note f = fresh [unfolded fresh_dest_def]
  have dest: "good_dest dest" "node_at (fs w) dest = None" "is_dir (fs w) (resolve (path_dir dest))"
    "partials_of dest (entries (fs w) (resolve (path_dir dest))) = []"
    using f creatable_partial_dir by blast+
  let ?d = "ServerError (encode ''not found on server'') RTRV_E_NOT_FOUND"
  have "\<exists>w'. retriever_main getaddrinfo [prog, host, port, ''get'', name, ''-o'', dest] w = (Ok EXIT_SERVER, w') \<and>
      tx w' = tx w @ concat ib \<and> ?d \<in> set (err w') \<and>
      fs w' = fs w \<and> out w' = out w \<and> allocs w' = allocs w \<and> open_files w' = open_files w"
    if "avail w = frame RTRV_T_OK [] @ frame RTRV_T_ERROR (error_payload RTRV_E_NOT_FOUND ''not found on server'')"
    unfolding wire(2)
  proof (rule main_refused [where getaddrinfo = getaddrinfo, OF _ command_lines(2) peer calm that], goal_cases)
    case (2 w1)
    show ?case
      unfolding session_commands
      by (rule wp_mono [OF wp_get_refused [OF 2(2,3) _ _ _ _ check_filename_props(2) [OF missing(1)] _ _ 2(1)]])
        (use dest 2(4,5) in simp_all)
  qed simp
  then show ?thesis
    using session_misses_file [OF missing _ wire] by simp
qed

theorem main_get_missing_file_witness:
  "\<exists>reply w'. handle_client \<lparr>inbox = [frame RTRV_T_HELLO [] @ frame RTRV_T_GET (get_request 0 (replicate 8 0) ''b'')], sent = [],
      disk = example_disk\<rparr> = Some (Inr (), \<lparr>inbox = [], sent = reply, disk = example_disk\<rparr>) \<and>
    retriever_main (\<lambda>_ _. Some [Accepts]) [''rtrv'', ''h'', ''1'', ''get'', ''b'', ''-o'', ''f''] (quiet_world reply []) = (Ok EXIT_SERVER, w') \<and>
    ServerError (encode ''not found on server'') RTRV_E_NOT_FOUND \<in> set (err w')"
proof -
  let ?ib = "[frame RTRV_T_HELLO [] @ frame RTRV_T_GET (get_request 0 (replicate 8 0) ''b'')]"
  let ?reply = "frame RTRV_T_OK [] @ frame RTRV_T_ERROR (error_payload RTRV_E_NOT_FOUND ''not found on server'')"
  have ib: "[] \<notin> set ?ib" by (simp add: frame_def frame_header_def)
  have b: "file_of example_disk ''b'' = None" using example_upload(2) by (simp add: file_of_def)
  have "handle_client \<lparr>inbox = ?ib, sent = [], disk = example_disk\<rparr> =
      Some (Inr (), \<lparr>inbox = [], sent = ?reply, disk = example_disk\<rparr>)"
    using session_misses_file [OF example_upload(1) b _ ib, of "replicate 8 0" 0] by simp
  then show ?thesis
    using main_get_missing_file [of "quiet_world ?reply []" "\<lambda>_ _. Some [Accepts]" "''h''" "''1''" "[Accepts]" "''f''" undefined
        "''b''" example_disk ?ib "''rtrv''"] fresh_dest_empty example_upload(1) b ib by auto
qed

text \<open>
  C15. One file whose name is not UTF-8 makes every listing fail: the session answers LIST with an
  internal error and ends, and the program reports that error, returns 1 and prints no name at all.
\<close>

theorem main_list_undecodable_name:
  assumes calm: "faults w = []" "TxErr \<notin> set (tx_plan w)"
    and peer: "getaddrinfo host port = Some as" "Accepts \<in> set as"
    and bad: "n \<in> set (names_of S)" "\<not> utf8 n"
    and wire: "[] \<notin> set ib" "concat ib = frame RTRV_T_HELLO [] @ frame RTRV_T_LIST []"
  shows "\<exists>reply. handle_client \<lparr>inbox = ib, sent = [], disk = S\<rparr> =
      Some (Inr (), \<lparr>inbox = [], sent = reply, disk = S\<rparr>) \<and>
    (avail w = reply \<longrightarrow>
      (\<exists>w'. retriever_main getaddrinfo [prog, host, port, ''list''] w = (Ok EXIT_SERVER, w') \<and>
        tx w' = tx w @ concat ib \<and> ServerError (encode ''internal server error'') RTRV_E_INTERNAL \<in> set (err w') \<and>
        fs w' = fs w \<and> out w' = out w \<and> allocs w' = allocs w \<and> open_files w' = open_files w))"
proof -
  let ?d = "ServerError (encode ''internal server error'') RTRV_E_INTERNAL"
  have "\<exists>w'. retriever_main getaddrinfo [prog, host, port, ''list''] w = (Ok EXIT_SERVER, w') \<and>
      tx w' = tx w @ concat ib \<and> ?d \<in> set (err w') \<and>
      fs w' = fs w \<and> out w' = out w \<and> allocs w' = allocs w \<and> open_files w' = open_files w"
    if "avail w = frame RTRV_T_OK [] @ frame RTRV_T_ERROR (error_payload RTRV_E_INTERNAL ''internal server error'')"
    unfolding wire(2)
  proof (rule main_refused [where getaddrinfo = getaddrinfo, OF _ command_lines(1) peer calm that], goal_cases)
    case (2 w1)
    show ?case
      unfolding session_commands
      by (rule wp_mono [OF wp_list_refused [OF 2(2,3) _ _ 2(1)]]) (use 2(4,5) in simp_all)
  qed simp
  then show ?thesis using session_cannot_list [OF wire bad] by simp
qed

theorem main_list_undecodable_name_witness:
  "\<exists>reply w'. handle_client \<lparr>inbox = [frame RTRV_T_HELLO [] @ frame RTRV_T_LIST []], sent = [],
      disk = example_disk\<lparr>dirents := [(''a'', Ino 0), ([CHR 0xFF], Ino 1)]\<rparr>\<rparr> =
      Some (Inr (), \<lparr>inbox = [], sent = reply, disk = example_disk\<lparr>dirents := [(''a'', Ino 0), ([CHR 0xFF], Ino 1)]\<rparr>\<rparr>) \<and>
    retriever_main (\<lambda>_ _. Some [Accepts]) [''rtrv'', ''h'', ''1'', ''list''] (quiet_world reply []) = (Ok EXIT_SERVER, w') \<and>
    out w' = []"
proof -
  let ?S = "example_disk\<lparr>dirents := [(''a'', Ino 0), ([CHR 0xFF], Ino 1)]\<rparr>"
  let ?ib = "[frame RTRV_T_HELLO [] @ frame RTRV_T_LIST []]"
  let ?reply = "frame RTRV_T_OK [] @ frame RTRV_T_ERROR (error_payload RTRV_E_INTERNAL ''internal server error'')"
  have ib: "[] \<notin> set ?ib" by (simp add: frame_def frame_header_def)
  have bad: "[0xFF] \<in> set (names_of ?S)" "\<not> utf8 [0xFF]" by simp_all
  have "handle_client \<lparr>inbox = ?ib, sent = [], disk = ?S\<rparr> = Some (Inr (), \<lparr>inbox = [], sent = ?reply, disk = ?S\<rparr>)"
    by (rule session_cannot_list [OF ib _ bad]) simp
  then show ?thesis
    using main_list_undecodable_name [of "quiet_world ?reply []" "\<lambda>_ _. Some [Accepts]" "''h''" "''1''" "[Accepts]"
        "[0xFF]" ?S ?ib "''rtrv''"] ib bad by auto
qed

section \<open>Sessions of the server\<close>

text \<open>
  C24. Every session ends, whatever the client sends, however it is cut, and whenever it stops: no
  exception leaves \<open>handle_client\<close>, the lock is free, nothing stays in flight, and every file whose name does
  not look like a partial is as it was. The server's own calls do not fail here for reasons outside the session (a
  full disk, a reset connection); failing calls are part of the server of many threads below.
\<close>

theorem session_ends_for_every_client:
  assumes "lock S = None" and "tidy S"
  shows "\<exists>w'. handle_client \<lparr>inbox = ib, sent = [], disk = S\<rparr> = Some (Inr (), w') \<and>
    lock (disk w') = None \<and> in_flight (disk w') = in_flight S \<and> tidy (disk w') \<and>
    (\<forall>n b. \<not> glob_partial n \<longrightarrow> file_of S n = Some b \<longrightarrow> file_of (disk w') n = Some b)"
  using handle_client_ends [of "in_flight S" "\<lparr>inbox = ib, sent = [], disk = S\<rparr>"] assms
  by (auto simp: alone_idle undisturbed_def)

theorem session_ends_for_every_client_witness:
  "\<exists>w'. handle_client \<lparr>inbox = [[1, 2], 3 # frame RTRV_T_HELLO [4]], sent = [], disk = example_disk\<rparr> = Some (Inr (), w') \<and>
    file_of (disk w') ''a'' = Some [7]"
proof -
  have "\<not> glob_partial ''a''" by (simp add: glob_partial_def)
  then show ?thesis
    using session_ends_for_every_client [of example_disk "[[1, 2], 3 # frame RTRV_T_HELLO [4]]"] example_disk_files example_upload(5)
    by blast
qed

section \<open>The server under concurrency\<close>

text \<open>
  C29. The server never gets stuck and stays within its limits, however its sessions interleave: in
  every state that it can reach at most 32 sessions are alive, there are no more uploads in flight
  than live sessions, and as long as a session is alive some session can take a step; no session
  waits for the lock for ever.
\<close>

theorem server_stays_live:
  assumes "server_run session_hello session_turn s es s'" and "started s"
  shows "live (threads s') \<le> MAX_CLIENTS \<and> card (in_flight (mem s')) \<le> live (threads s') \<and>
    (live (threads s') \<noteq> 0 \<longrightarrow> (\<exists>e s''. server_step session_hello session_turn s' e s'' \<and> e \<noteq> Accepted))"
proof -
  obtain ts where ts: "coherent s' ts" using sessions.coherent_run [OF assms] by blast
  have "\<exists>e s''. server_step session_hello session_turn s' e s'' \<and> e \<noteq> Accepted" if "live (threads s') \<noteq> 0"
  proof -
    from that obtain t where "t \<in> set (threads s')" "t \<noteq> Finished" by (auto simp: live_def filter_empty_conv)
    then show ?thesis using sessions.progress [OF ts] by (metis in_set_conv_nth)
  qed
  then show ?thesis using coherentD(7) [OF ts] in_flight_bounded [OF ts] by blast
qed

text \<open>An example: one session uploads the file \<open>b\<close> and leaves.\<close>

definition example_start :: sys where
  "example_start = \<lparr>mem = example_disk, threads = []\<rparr>"

definition example_done :: sys where
  "example_done = \<lparr>mem = uploaded example_disk (partial_name ''b'' (sha256 [5, 6])) ''b'' [5, 6], threads = [Finished]\<rparr>"

lemma example_run: "\<exists>es. server_run session_hello session_turn example_start es example_done"
proof -
  let ?ib = "[frame RTRV_T_HELLO [] @ (frame RTRV_T_PUT (put_request 2 (sha256 [5, 6]) ''b'') @ [5, 6]) @ frame RTRV_T_QUIT []]"
  have "[] \<notin> set ?ib" by (simp add: frame_def frame_header_def)
  then show ?thesis
    using handle_client_is_run [OF session_takes_file [OF example_upload(1) refl, where c = "[5, 6]" and m = 0 and
          S = example_disk and ib = ?ib]] example_upload
    by (simp add: example_start_def example_done_def MAX_FILE_SIZE_def)
qed

lemma example_started: "started example_start" "tidy (mem example_start)"
  using example_disk_files(3) by (simp_all add: started_def example_start_def example_disk_def)

lemma example_greeted:
  "\<exists>es. server_run session_hello session_turn example_start es (serving example_disk (Running session_turn))"
proof -
  let ?w = "\<lparr>inbox = [frame RTRV_T_HELLO []], sent = [], disk = example_disk\<rparr>"
  have "run session_hello ?w = Some (Inr True, ?w\<lparr>inbox := unread 14 (inbox ?w), sent := frame RTRV_T_OK []\<rparr>)"
    using run_hello [of ?w "[]"] by (simp add: frame_def frame_header_def)
  from server_run_trans [OF goes_on [OF this] server_run_step [OF accept_first]] show ?thesis
    by (auto simp: example_start_def)
qed

lemma example_files: "file_of (mem example_done) ''b'' = Some [5, 6]" "file_of (mem example_start) ''a'' = Some [7]"
  using uploaded_files [OF example_disk_files(3), of "partial_name ''b'' (sha256 [5, 6])" "''b''"] example_upload
    partial_name_plain [OF example_upload(1), of "sha256 [5, 6]"] example_disk_files(2)
  by (simp_all add: example_done_def example_start_def)

theorem server_stays_live_witness:
  "(\<exists>es. server_run session_hello session_turn example_start es example_done) \<and>
    card (in_flight (mem example_done)) \<le> live (threads example_done)"
proof -
  obtain es where es: "server_run session_hello session_turn example_start es example_done" using example_run by blast
  then show ?thesis using server_stays_live [OF es example_started(1)] by blast
qed

text \<open>The sessions that are about to append to an inode.\<close>

definition writers :: "sys \<Rightarrow> nat \<Rightarrow> nat set" where
  "writers s h = {i. i < length (threads s) \<and> (\<exists>bs k. threads s ! i = Running (Act (Append h bs) k))}"

text \<open>
  C28. Two sessions never write to the same file: in every state that a server can reach, from a
  directory in which no two names share a file, no two of its sessions are about to append to one inode.
\<close>

theorem one_writer_per_file:
  assumes "server_run session_hello session_turn s es s'" and "started s" and "tidy (mem s)"
  shows "card (writers s' h) \<le> 1"
proof -
  obtain ts where ts: "coherent s' ts" "filed (mem s') ts" using sessions.filed_run [OF assms] by blast
  have "finite (writers s' h)" by (simp add: writers_def)
  moreover have "i = j" if "i \<in> writers s' h" "j \<in> writers s' h" for i j
    using that sessions.one_writer [OF ts] by (auto simp: writers_def)
  ultimately show ?thesis by (simp add: card_le_Suc0_iff_eq)
qed

theorem one_writer_per_file_witness:
  "(\<exists>es. server_run session_hello session_turn example_start es example_done) \<and> card (writers example_done 1) \<le> 1"
  using example_run one_writer_per_file [OF _ example_started, of _ example_done 1] by blast

text \<open>
  C25. A published file never changes, for names that do not look like partials: whatever the sessions
  have done since the server started, from a directory in which no two names share a file, and
  whatever they do later, uploads under names that look like partials included, a name that is not of
  the form \<open>.*.part\<close> keeps its contents. (C30 shows what can happen to the other names.)
\<close>

theorem published_files_never_change:
  assumes "server_run session_hello session_turn s es s1" and "started s" and "tidy (mem s)"
    and "server_run session_hello session_turn s1 es' s2"
    and "\<not> glob_partial n" and "file_of (mem s1) n = Some b"
  shows "file_of (mem s2) n = Some b"
  using sessions.filed_run [OF assms(1-3)] sessions.published_kept [OF assms(4) _ _ assms(5,6)] by blast

theorem published_files_never_change_witness:
  "(\<exists>es. server_run session_hello session_turn example_start es example_done) \<and> file_of (mem example_done) ''a'' = Some [7]"
proof -
  obtain es where es: "server_run session_hello session_turn example_start es example_done" using example_run by blast
  then show ?thesis
    using published_files_never_change [OF server_run.start example_started es, of "''a''" "[7]"] example_files(2)
    by (auto simp: glob_partial_def)
qed

text \<open>
  C26. A download of a published file whose name does not look like a partial is consistent, whatever the
  other sessions do meanwhile (uploads under any names, downloads, sessions that break off), from a
  directory in which no two names share a file. When session \<open>i\<close> has received the request, what it
  has sent since the turn began, failed sends included with the part of their data that went out, is an
  initial part of the one right answer (the size, the start that the token allows, the hash, and the
  bytes of the file from there on), perhaps followed by an initial part of the report of an internal
  error. When the session is ready for the next command, it has sent the whole answer.
\<close>

theorem downloads_are_consistent:
  assumes before: "server_run session_hello session_turn s es s1" "started s" "tidy (mem s)"
    and during: "server_run session_hello session_turn s1 es' s2"
    and session: "i < length (threads s1)" "threads s1 ! i = Running session_turn" "Turned i \<notin> set es'"
    and published: "\<not> glob_partial name" "check_filename name" "file_of (mem s1) name = Some b"
    and sizes: "unat offset \<le> length b" "length b + 48 < 2 ^ 64" "length token = 8"
    and request: "heard_by i es' = frame RTRV_T_GET (get_request offset token name)"
  shows "(\<exists>k l. sent_by i es' = take k (get_answer b (unat offset) token) @ take l failure_report) \<and>
    (threads s2 ! i = Running (Return True) \<longrightarrow> sent_by i es' = get_answer b (unat offset) token)"
proof -
  obtain ts where "coherent s1 ts" "filed (mem s1) ts" using sessions.filed_run [OF before] by blast
  from download_follows [OF during this session published sizes request refl] show ?thesis by (simp add: answering_def)
qed

theorem downloads_are_consistent_witness:
  "\<exists>es' s2. server_run session_hello session_turn (serving example_disk (Running session_turn)) es' s2 \<and>
    heard_by 0 es' = frame RTRV_T_GET (get_request 1 (take 8 (sha256 [7])) ''a'') \<and>
    sent_by 0 es' = get_answer [7] 1 (take 8 (sha256 [7]))"
proof -
  obtain es where es: "server_run session_hello session_turn example_start es (serving example_disk (Running session_turn))"
    using example_greeted by blast
  obtain es' where es': "server_run session_hello session_turn (serving example_disk (Running session_turn)) es'
      (serving example_disk (Running (Return True)))"
    "Turned 0 \<notin> set es'"
    "heard_by 0 es' = frame RTRV_T_GET (get_request 1 (take 8 (sha256 [7])) ''a'')"
    using lone_download [OF example_disk_files(1,2), of 1 "take 8 (sha256 [7])"] by auto
  then show ?thesis
    using downloads_are_consistent [OF es example_started es'(1) _ _ es'(2) _ example_disk_files(1) _ _ _ _ es'(3), of "[7]"]
      example_disk_files(2)
    by (auto simp: glob_partial_def)
qed

text \<open>
  C27. A file that appears in the served directory under a name that does not look like a partial is
  verified, however the sessions interleave: if it was not there when the server started (in a
  directory in which no two names share a file), some session has made the hard link that published
  it, and what this session had received since its turn began is the PUT request for exactly this name
  and exactly this hash, all 32 bytes of the SHA-256 of the contents, followed by body bytes.
\<close>

theorem published_files_are_verified:
  assumes "server_run session_hello session_turn s es s'" and "started s" and "tidy (mem s)"
    and "\<not> glob_partial n" and "file_of (mem s') n = Some b"
  shows "file_of (mem s) n = Some b \<or>
    (\<exists>es1 i c es2 size body. es = es1 @ Called i (Link (partial_name n (sha256 b)) n) c Done # es2 \<and>
       heard_by i (turn_of i es1) = frame RTRV_T_PUT (put_request size (sha256 b) n) @ body)"
  using promising.published_origin [OF assms] unfolding asked_for_def by blast

theorem published_files_are_verified_witness:
  "\<exists>es es1 i size body. server_run session_hello session_turn example_start es example_done \<and>
    heard_by i (turn_of i es1) = frame RTRV_T_PUT (put_request size (sha256 [5, 6]) ''b'') @ body"
proof -
  obtain es where es: "server_run session_hello session_turn example_start es example_done" using example_run by blast
  have "file_of (mem example_start) ''b'' = None" using example_upload(2) by (simp add: file_of_def example_start_def)
  then show ?thesis
    using published_files_are_verified [OF es example_started, of "''b''" "[5, 6]"] example_files(1) es
    by (auto simp: glob_partial_def)
qed

text \<open>
  C30. A name that looks like a partial is accepted and not protected: when a file is stored under the
  name of the partial of another upload and that upload claims fewer bytes, the server deletes the
  file and starts the partial afresh in its place, even if not one byte of the upload arrives.
\<close>

theorem put_discards_file_in_its_way:
  assumes "check_filename name" and "q = partial_name name digest" and "check_filename q" and "length digest = 32"
    and "file_of S q = Some b" and "unat n < length b" and "0 < unat n" and "unat n \<le> MAX_FILE_SIZE"
    and "entry S name = None" and "q \<notin> in_flight S" and "lock S = None"
  shows "\<exists>w'. run (handle_put (put_request n digest name)) \<lparr>inbox = [], sent = [], disk = S\<rparr> = Some (Inl ConnectionErr, w') \<and>
    file_of (disk w') q = Some []"
  using run_put_discards [where w = "\<lparr>inbox = [], sent = [], disk = S\<rparr>", OF assms(1,2,4)] assms by auto

theorem put_discards_file_in_its_way_witness:
  "\<exists>w'. run (handle_put (put_request 1 (replicate 32 0) ''f'')) \<lparr>inbox = [], sent = [],
      disk = \<lparr>dirents = [(''.f.0000000000000000.part'', Ino 0)], inode = (\<lambda>_. [7, 8]), next_ino = 1, in_flight = {}, lock = None\<rparr>\<rparr>
      = Some (Inl ConnectionErr, w') \<and>
    file_of (disk w') ''.f.0000000000000000.part'' = Some []"
proof -
  have "check_filename ''f''" by (simp add: check_filename_def)
  then have q: "''.f.0000000000000000.part'' = partial_name ''f'' (replicate 32 0)"
    by (simp add: partial_name_plain TOKEN_SIZE_def hex_of_def hex_pair_def hex_digits_def numeral_eq_Suc)
  show ?thesis
    by (rule put_discards_file_in_its_way [OF _ q, where b = "[7, 8]"])
      (simp_all add: check_filename_def file_of_def entry_def MAX_FILE_SIZE_def)
qed

end
